(* ===== verification/KV_Prelude.thy ===== *)
theory KV_Prelude
  imports Main
    "HOL-Library.Monad_Syntax"
    "HOL-Library.Char_ord"
    "HOL-Library.List_Lexorder"
    "HOL-Library.Option_ord"
    "HOL-Library.Word"
begin

text \<open>
  The C of the key-value store, as far as its sources use it: allocation, checked
  signed arithmetic, NUL-terminated strings and blocks of bytes, together with the generic
  lemmas the component theories share.

  \<^bold>\<open>Pointers.\<close> A pointer to an owned object is an \<^verbatim>\<open>option\<close>: \<^verbatim>\<open>None\<close> is
  \<^verbatim>\<open>NULL\<close>, \<^verbatim>\<open>Some x\<close> points to the object with contents \<^verbatim>\<open>x\<close>. Every object of the
  program has one owner, so contents stand for objects; where a pointer into the middle of a
  structure is kept (a pointer to a child field of a tree node) it is a path.

  \<^bold>\<open>Undefined behaviour.\<close> An operation is a function into \<^verbatim>\<open>option\<close>: \<^verbatim>\<open>None\<close> is an
  execution the C standard gives no meaning to (a NULL dereference, a read past a block, a
  signed overflow) or that cannot go on (a lock that its own thread holds). \<^verbatim>\<open>Some (r, h)\<close>
  is a return of \<^verbatim>\<open>r\<close> in the state \<^verbatim>\<open>h\<close>. Sequencing is \<^verbatim>\<open>Option.bind\<close> in do-notation, with
  the state passed explicitly; operations that always return are plain functions.

  \<^bold>\<open>Allocation.\<close> The state holds the outcomes of the coming allocations and the number of
  live blocks. An empty list of outcomes means that no coming allocation fails.
\<close>

section \<open>Blocks of memory\<close>

record heap =
  outcomes :: "bool list"   \<comment> \<open>outcomes of the coming calls of malloc; all succeed after these\<close>
  live :: int             \<comment> \<open>blocks allocated and not freed\<close>
  garbage :: "nat \<Rightarrow> 8 word"  \<comment> \<open>what a fresh block holds, by offset\<close>

type_synonym byte = "8 word"

named_theorems alloc_simps \<open>allocation when no coming allocation fails\<close>

text \<open>\<^verbatim>\<open>malloc(n)\<close>: a negative \<^verbatim>\<open>int\<close> becomes a \<^verbatim>\<open>size_t\<close> above \<^verbatim>\<open>PTRDIFF_MAX\<close>, which is
  always refused; \<^verbatim>\<open>malloc(0)\<close> returns a block of its own, as in glibc.\<close>

definition malloc :: "int \<Rightarrow> 'z heap_scheme \<Rightarrow> bool \<times> 'z heap_scheme" where
  "malloc n h =
    (if n < 0 then (False, h)
     else (case outcomes h of
             [] \<Rightarrow> (True, h\<lparr>live := live h + 1\<rparr>)
           | ok # rest \<Rightarrow>
               (ok, h\<lparr>outcomes := rest, live := live h + (if ok then 1 else 0)\<rparr>)))"

text \<open>\<^verbatim>\<open>free(p)\<close>: no effect on \<^verbatim>\<open>NULL\<close>.\<close>

definition free :: "'a option \<Rightarrow> 'z heap_scheme \<Rightarrow> 'z heap_scheme" where
  "free p h = (if p = None then h else h\<lparr>live := live h - 1\<rparr>)"

text \<open>\<^verbatim>\<open>strdup(s)\<close> for a string that is not \<^verbatim>\<open>NULL\<close>.\<close>

definition strdup :: "string \<Rightarrow> 'z heap_scheme \<Rightarrow> string option \<times> 'z heap_scheme" where
  "strdup s h = (case malloc (int (length s) + 1) h of (ok, h) \<Rightarrow> (if ok then Some s else None, h))"

lemma malloc_ok [alloc_simps]:
  "outcomes h = [] \<Longrightarrow> 0 \<le> n \<Longrightarrow> malloc n h = (True, h\<lparr>live := live h + 1\<rparr>)"
  by (simp add: malloc_def)

lemma strdup_ok [alloc_simps]:
  "outcomes h = [] \<Longrightarrow> strdup s h = (Some s, h\<lparr>live := live h + 1\<rparr>)"
  by (simp add: strdup_def alloc_simps)

lemma free_None [simp]: "free None h = h"
  by (simp add: free_def)

lemma free_Some [simp]: "free (Some x) h = h\<lparr>live := live h - 1\<rparr>"
  by (simp add: free_def)

lemma outcomes_free [simp]: "outcomes (free p h) = outcomes h"
  by (simp add: free_def)

lemma malloc_cases:
  obtains (failed) h' where "malloc n h = (False, h')" "live h' = live h"
        | (allocated) h' where "malloc n h = (True, h')" "live h' = live h + 1"
  by (cases "fst (malloc n h)"; cases "malloc n h")
     (auto simp: malloc_def split: if_splits list.splits)

section \<open>Signed machine integers\<close>

text \<open>
  A value of C type \<^verbatim>\<open>int\<close> is an \<^verbatim>\<open>int\<close> in this range; an addition that leaves the range is
  undefined behaviour.
\<close>

definition INT_MAX :: int where "INT_MAX = 2147483647"
definition INT_MIN :: int where "INT_MIN = -2147483648"

definition in_int :: "int \<Rightarrow> bool" where
  "in_int n \<longleftrightarrow> INT_MIN \<le> n \<and> n \<le> INT_MAX"

definition iadd :: "int \<Rightarrow> int \<Rightarrow> int option" where
  "iadd a b = (if in_int (a + b) then Some (a + b) else None)"

lemma iadd_ok [simp]: "in_int (a + b) \<Longrightarrow> iadd a b = Some (a + b)"
  by (simp add: iadd_def)

lemma iadd_Some: "iadd a b = Some c \<longleftrightarrow> c = a + b \<and> in_int c"
  by (auto simp: iadd_def)

lemmas int_range = in_int_def INT_MAX_def INT_MIN_def

section \<open>NUL-terminated strings\<close>

text \<open>
  A \<^verbatim>\<open>char*\<close> that points to a string is the list of the characters before the terminating NUL.
  \<^verbatim>\<open>strcmp\<close> compares them as \<^verbatim>\<open>unsigned char\<close>; only the sign of its result is specified, so
  the model returns the sign. The end of a string is a NUL, below every other character.
\<close>

fun strcmp :: "string \<Rightarrow> string \<Rightarrow> int" where
  "strcmp [] [] = 0"
| "strcmp [] (c # cs) = -1"
| "strcmp (c # cs) [] = 1"
| "strcmp (c # cs) (d # ds) =
    (if (of_char c :: nat) < of_char d then -1
     else if (of_char d :: nat) < of_char c then 1
     else strcmp cs ds)"

text \<open>\<^verbatim>\<open>strcmp\<close> decides the lexicographic order of the library.\<close>

lemma strcmp_less: "strcmp s t < 0 \<longleftrightarrow> s < t"
  by (induction s t rule: strcmp.induct) (auto simp del: less_char_simp simp add: less_char_def)

lemma strcmp_zero: "strcmp s t = 0 \<longleftrightarrow> s = t"
  by (induction s t rule: strcmp.induct) auto

lemma strcmp_greater: "strcmp s t > 0 \<longleftrightarrow> t < s"
proof -
  have "strcmp s t > 0 \<longleftrightarrow> \<not> strcmp s t < 0 \<and> strcmp s t \<noteq> 0"
    by linarith
  also have "\<dots> \<longleftrightarrow> t < s"
    unfolding strcmp_less strcmp_zero by auto
  finally show ?thesis .
qed

text \<open>Characters as the bytes that hold them.\<close>

definition byte_of_char :: "char \<Rightarrow> byte" where
  "byte_of_char c = of_nat (of_char c)"

definition char_of_byte :: "byte \<Rightarrow> char" where
  "char_of_byte b = char_of (unat b)"

lemma char_of_byte_of_char [simp]: "char_of_byte (byte_of_char c) = c"
proof -
  have "(of_char c :: nat) < 256" by simp
  then have "unat (byte_of_char c) = of_char c"
    by (simp add: byte_of_char_def unat_of_nat)
  then show ?thesis by (simp add: char_of_byte_def)
qed

lemma map_char_of_byte [simp]: "map char_of_byte (map byte_of_char s) = s"
  by (simp add: comp_def)

section \<open>Comparators\<close>

text \<open>
  What a search structure needs of a comparison function: its sign decides a linear order.
\<close>

locale comparator =
  fixes cmp :: "'k::linorder \<Rightarrow> 'k \<Rightarrow> int"
  assumes cmp_zero: "cmp a b = 0 \<longleftrightarrow> a = b"
    and cmp_less: "cmp a b < 0 \<longleftrightarrow> a < b"
begin

lemma cmp_greater: "cmp a b > 0 \<longleftrightarrow> b < a"
  by (metis cmp_less cmp_zero linorder_less_linear not_less_iff_gr_or_eq)

lemma cmp_refl [simp]: "cmp a a = 0"
  by (simp add: cmp_zero)

lemma cmp_antisym: "cmp a b < 0 \<longleftrightarrow> cmp b a > 0"
  by (simp add: cmp_less cmp_greater)

lemma cmp_trans: "cmp a b < 0 \<Longrightarrow> cmp b c < 0 \<Longrightarrow> cmp a c < 0"
  by (auto simp: cmp_less)

lemma cmp_cases:
  obtains (less) "a < b" "cmp a b < 0" "cmp a b \<noteq> 0"
        | (equal) "a = b" "cmp a b = 0"
        | (greater) "b < a" "\<not> cmp a b < 0" "cmp a b \<noteq> 0"
  by (metis cmp_less cmp_zero linorder_less_linear order_less_asym)

end

interpretation strcmp: comparator strcmp
  by unfold_locales (simp_all add: strcmp_zero strcmp_less)

section \<open>Sequencing\<close>

lemma bind_split:
  "P (Option.bind m f) \<longleftrightarrow> (m = None \<longrightarrow> P None) \<and> (\<forall>x. m = Some x \<longrightarrow> P (f x))"
  by (cases m) auto

section \<open>Example state\<close>

definition ex_heap :: heap where
  "ex_heap = \<lparr>outcomes = [], live = 0, garbage = (\<lambda>_. 0)\<rparr>"

lemma ex_heap_sel [simp]: "outcomes ex_heap = []" "live ex_heap = 0"
  by (simp_all add: ex_heap_def)

end
