(* ===== verification/KV_Data.thy ===== *)
theory KV_Data
  imports KV_Prelude
begin

text \<open>
  \<^verbatim>\<open>source/data.c\<close>: blocks of data with their size. Each function of the file has a definition
  of the same name; what follows them states when a block is valid, how many blocks of memory it
  owns, and what copying does on every branch.
\<close>

section \<open>Definitions\<close>

record data_t =
  d_size :: int                 \<comment> \<open>\<^verbatim>\<open>datasize\<close>\<close>
  d_data :: "byte list option"  \<comment> \<open>\<^verbatim>\<open>data\<close>, the contents of the block it points to\<close>

definition SIZE_OF_DATA_T :: int where "SIZE_OF_DATA_T = 16"

definition areParamsInvalid :: "int \<Rightarrow> byte list option \<Rightarrow> bool" where
  "areParamsInvalid sz data \<longleftrightarrow> sz < 0 \<or> (sz \<noteq> 0 \<and> data = None)"

definition data_create2 ::
  "int \<Rightarrow> byte list option \<Rightarrow> 'z heap_scheme \<Rightarrow> data_t option \<times> 'z heap_scheme" where
  "data_create2 sz data h =
    (if areParamsInvalid sz data then (None, h)
     else (case malloc SIZE_OF_DATA_T h of (ok, h) \<Rightarrow>
       if \<not> ok then (None, h)
       else (Some \<lparr>d_size = sz, d_data = data\<rparr>, h)))"

definition data_create :: "int \<Rightarrow> 'z heap_scheme \<Rightarrow> data_t option \<times> 'z heap_scheme" where
  "data_create sz h =
    (if sz < 0 then (None, h)
     else if sz = 0 then data_create2 0 None h
     else (case malloc sz h of (ok, h) \<Rightarrow>
       if \<not> ok then (None, h)
       else data_create2 sz (Some (map (garbage h) [0..<nat sz])) h))"

definition data_destroy :: "data_t option \<Rightarrow> 'z heap_scheme \<Rightarrow> 'z heap_scheme" where
  "data_destroy dataStruct h =
    (case dataStruct of
       None \<Rightarrow> h
     | Some d \<Rightarrow> free dataStruct (free (d_data d) h))"

text \<open>\<^verbatim>\<open>memcpy\<close> reads \<^verbatim>\<open>size\<close> bytes of the source block, which must have as many.\<close>

definition copy ::
  "byte list option \<Rightarrow> int \<Rightarrow> 'z heap_scheme \<Rightarrow> (byte list option \<times> 'z heap_scheme) option" where
  "copy something sz h =
    (case something of
       None \<Rightarrow> Some (None, h)
     | Some block \<Rightarrow>
         (case malloc sz h of (ok, h) \<Rightarrow>
           if \<not> ok then Some (None, h)
           else if nat sz \<le> length block then Some (Some (take (nat sz) block), h)
           else None))"

definition data_dup ::
  "data_t option \<Rightarrow> 'z heap_scheme \<Rightarrow> (data_t option \<times> 'z heap_scheme) option" where
  "data_dup dataStruct h =
    (case dataStruct of
       None \<Rightarrow> Some (None, h)
     | Some d \<Rightarrow>
         if areParamsInvalid (d_size d) (d_data d) then Some (None, h)
         else do {
           (copied_data, h) \<leftarrow> copy (d_data d) (d_size d) h;
           Some (data_create2 (d_size d) copied_data h)
         })"

definition data_replace ::
  "data_t option \<Rightarrow> int \<Rightarrow> byte list option \<Rightarrow> 'z heap_scheme \<Rightarrow> data_t option \<times> 'z heap_scheme"
where
  "data_replace dataStruct new_size new_data h =
    (case dataStruct of
       None \<Rightarrow> (None, h)
     | Some d \<Rightarrow>
         if areParamsInvalid new_size new_data then (Some d, h)
         else (Some \<lparr>d_size = new_size, d_data = new_data\<rparr>, free (d_data d) h))"

section \<open>Valid blocks, copies and ownership\<close>

text \<open>A valid block has its declared number of bytes (or more) behind its pointer.\<close>

definition data_ok :: "data_t \<Rightarrow> bool" where
  "data_ok d \<longleftrightarrow> 0 \<le> d_size d \<and> d_size d \<le> INT_MAX \<and>
    (case d_data d of None \<Rightarrow> d_size d = 0 | Some b \<Rightarrow> nat (d_size d) \<le> length b)"

text \<open>What \<^verbatim>\<open>data_dup\<close> makes of it: the declared bytes and no more.\<close>

definition data_copy :: "data_t \<Rightarrow> data_t" where
  "data_copy d = \<lparr>d_size = d_size d, d_data = map_option (take (nat (d_size d))) (d_data d)\<rparr>"

definition data_blocks :: "data_t option \<Rightarrow> int" where
  "data_blocks p = (case p of None \<Rightarrow> 0 | Some d \<Rightarrow> 1 + (if d_data d = None then 0 else 1))"

lemma data_ok_valid: "data_ok d \<Longrightarrow> \<not> areParamsInvalid (d_size d) (d_data d)"
  by (auto simp: data_ok_def areParamsInvalid_def)

lemma data_copy_ok [simp]: "data_ok d \<Longrightarrow> data_ok (data_copy d)"
  by (auto simp: data_ok_def data_copy_def split: option.splits)

lemma data_copy_idem [simp]: "data_copy (data_copy d) = data_copy d"
  by (simp add: data_copy_def option.map_comp comp_def)

lemma data_copy_blocks [simp]: "data_blocks (Some (data_copy d)) = data_blocks (Some d)"
  by (simp add: data_blocks_def data_copy_def)

lemma data_blocks_None [simp]: "data_blocks None = 0"
  by (simp add: data_blocks_def)

lemma data_blocks_nonneg: "0 \<le> data_blocks p"
  by (simp add: data_blocks_def split: option.splits)

lemma data_destroy_eq [simp]: "data_destroy p h = h\<lparr>live := live h - data_blocks p\<rparr>"
  by (auto simp: data_destroy_def data_blocks_def split: option.splits)

lemma data_dup_None [simp]: "data_dup None h = Some (None, h)"
  by (simp add: data_dup_def)

lemma data_create_0 [alloc_simps]:
  "outcomes h = [] \<Longrightarrow>
    data_create 0 h = (Some \<lparr>d_size = 0, d_data = None\<rparr>, h\<lparr>live := live h + 1\<rparr>)"
  by (simp add: data_create_def data_create2_def areParamsInvalid_def SIZE_OF_DATA_T_def alloc_simps)

lemma data_dup_ok [alloc_simps]:
  assumes "outcomes h = []" "data_ok d"
  shows "data_dup (Some d) h =
    Some (Some (data_copy d), h\<lparr>live := live h + data_blocks (Some d)\<rparr>)"
  using assms
  by (cases "d_data d")
     (auto simp: data_dup_def copy_def data_create2_def data_ok_def areParamsInvalid_def
        data_copy_def data_blocks_def SIZE_OF_DATA_T_def alloc_simps)

text \<open>The bytes a block stands for.\<close>

definition data_bytes :: "data_t \<Rightarrow> byte list" where
  "data_bytes d = (case d_data d of None \<Rightarrow> [] | Some b \<Rightarrow> take (nat (d_size d)) b)"

lemma length_data_bytes: "data_ok d \<Longrightarrow> int (length (data_bytes d)) = d_size d"
  by (auto simp: data_ok_def data_bytes_def split: option.splits)

lemma data_bytes_copy [simp]: "data_bytes (data_copy d) = data_bytes d"
  by (simp add: data_bytes_def data_copy_def split: option.splits)

text \<open>
  Whatever allocations fail, copying a valid block has no undefined behaviour, and it yields
  either no block or a valid block with the same bytes.
\<close>

lemma data_create2_result:
  "data_create2 n p h = (r, h') \<Longrightarrow>
    r = None \<or> (r = Some \<lparr>d_size = n, d_data = p\<rparr> \<and> \<not> areParamsInvalid n p)"
  by (auto simp: data_create2_def split: prod.splits if_splits)

lemma copy_result:
  assumes "case p of None \<Rightarrow> True | Some b \<Rightarrow> nat n \<le> length b"
  shows "\<exists>q h'. copy p n h = Some (q, h') \<and> (q = None \<or> q = map_option (take (nat n)) p)"
  using assms by (cases p; cases "malloc n h") (auto simp: copy_def)

lemma data_dup_total:
  assumes "data_ok d"
  shows "\<exists>r h'. data_dup (Some d) h = Some (r, h') \<and>
    (\<forall>d'. r = Some d' \<longrightarrow> data_ok d' \<and> data_bytes d' = data_bytes d)"
proof -
  have "case d_data d of None \<Rightarrow> True | Some b \<Rightarrow> nat (d_size d) \<le> length b"
    using assms by (auto simp: data_ok_def split: option.splits)
  then obtain q h' where q: "copy (d_data d) (d_size d) h = Some (q, h')"
      "q = None \<or> q = map_option (take (nat (d_size d))) (d_data d)"
    using copy_result by blast
  obtain r h'' where r: "data_create2 (d_size d) q h' = (r, h'')" by fastforce
  have dup: "data_dup (Some d) h = Some (r, h'')"
    using data_ok_valid [OF assms] q(1) r by (simp add: data_dup_def)
  have "\<forall>d'. r = Some d' \<longrightarrow> data_ok d' \<and> data_bytes d' = data_bytes d"
    using data_create2_result [OF r] q(2) assms
    by (auto simp: data_ok_def data_bytes_def areParamsInvalid_def split: option.splits)
  with dup show ?thesis by blast
qed

text \<open>A pointer that owns fewer bytes than its size says is read past its end.\<close>

lemma data_dup_overread:
  assumes "outcomes h = []" "d_data d = Some b" "int (length b) < d_size d"
  shows "data_dup (Some d) h = None"
  using assms by (simp add: data_dup_def copy_def areParamsInvalid_def alloc_simps)

end
