(* ===== verification/KV_Entry.thy ===== *)
theory KV_Entry
  imports KV_Data
begin

text \<open>
  \<^verbatim>\<open>source/entry.c\<close>: key-value pairs, and the comparison of keys that orders the tree. A key may
  be \<^verbatim>\<open>NULL\<close>, below every string; the order \<^verbatim>\<open>key_compare\<close> decides is the library's order on
  \<^verbatim>\<open>string option\<close>.
\<close>

section \<open>Definitions\<close>

record entry_t =
  e_key :: "string option"
  e_value :: "data_t option"

definition SIZE_OF_ENTRY_T :: int where "SIZE_OF_ENTRY_T = 16"

definition entry_create ::
  "string option \<Rightarrow> data_t option \<Rightarrow> 'z heap_scheme \<Rightarrow> entry_t option \<times> 'z heap_scheme" where
  "entry_create key data h =
    (case malloc SIZE_OF_ENTRY_T h of (ok, h) \<Rightarrow>
      if \<not> ok then (None, h) else (Some \<lparr>e_key = key, e_value = data\<rparr>, h))"

definition entry_initialize :: "entry_t option \<Rightarrow> entry_t option" where
  "entry_initialize entry = map_option (\<lambda>e. e\<lparr>e_key := None, e_value := None\<rparr>) entry"

definition entry_destroy :: "entry_t option \<Rightarrow> 'z heap_scheme \<Rightarrow> 'z heap_scheme" where
  "entry_destroy entry h =
    (case entry of
       None \<Rightarrow> h
     | Some e \<Rightarrow> free entry (data_destroy (e_value e) (free (e_key e) h)))"

definition entry_dup ::
  "entry_t option \<Rightarrow> 'z heap_scheme \<Rightarrow> (entry_t option \<times> 'z heap_scheme) option" where
  "entry_dup entry h =
    (case entry of
       None \<Rightarrow> Some (None, h)
     | Some e \<Rightarrow> do {
         let (copied_key, h) = (case e_key e of None \<Rightarrow> (None, h) | Some k \<Rightarrow> strdup k h);
         (copied_value, h) \<leftarrow> data_dup (e_value e) h;
         Some (entry_create copied_key copied_value h)
       })"

definition entry_replace ::
  "entry_t option \<Rightarrow> string option \<Rightarrow> data_t option \<Rightarrow> 'z heap_scheme
    \<Rightarrow> entry_t option \<times> 'z heap_scheme" where
  "entry_replace entry new_key new_value h =
    (case entry of
       None \<Rightarrow> (None, h)
     | Some e \<Rightarrow>
         (Some \<lparr>e_key = new_key, e_value = new_value\<rparr>,
          data_destroy (e_value e) (free (e_key e) h)))"

text \<open>
  The code first compares the pointers. Equal pointers are two \<^verbatim>\<open>NULL\<close>s, or the same string, of
  which \<^verbatim>\<open>strcmp\<close> would say 0 as well.
\<close>

definition key_compare :: "string option \<Rightarrow> string option \<Rightarrow> int" where
  "key_compare key1 key2 =
    (case (key1, key2) of
       (None, None) \<Rightarrow> 0
     | (None, Some _) \<Rightarrow> -1
     | (Some _, None) \<Rightarrow> 1
     | (Some s1, Some s2) \<Rightarrow>
         (let comparison = strcmp s1 s2
          in if comparison < 0 then -1 else if comparison = 0 then 0 else 1))"

definition entry_compare :: "entry_t option \<Rightarrow> entry_t option \<Rightarrow> int" where
  "entry_compare entry1 entry2 =
    (case (entry1, entry2) of
       (None, None) \<Rightarrow> 0
     | (None, Some _) \<Rightarrow> -1
     | (Some _, None) \<Rightarrow> 1
     | (Some e1, Some e2) \<Rightarrow> key_compare (e_key e1) (e_key e2))"

section \<open>The order of keys\<close>

lemma key_compare_zero: "key_compare a b = 0 \<longleftrightarrow> a = b"
  by (cases a; cases b) (simp_all add: key_compare_def Let_def strcmp_zero)

lemma key_compare_less: "key_compare a b < 0 \<longleftrightarrow> a < b"
  by (cases a; cases b) (simp_all add: key_compare_def Let_def strcmp_less)

interpretation key: comparator key_compare
  by unfold_locales (simp_all add: key_compare_zero key_compare_less)

lemma key_compare_signs: "key_compare a b \<in> {-1, 0, 1}"
  by (auto simp: key_compare_def Let_def split: option.splits)

section \<open>Valid entries, copies and ownership\<close>

definition entry_blocks :: "entry_t option \<Rightarrow> int" where
  "entry_blocks p =
    (case p of
       None \<Rightarrow> 0
     | Some e \<Rightarrow> 1 + (if e_key e = None then 0 else 1) + data_blocks (e_value e))"

text \<open>The entries of the tree: a key, and a value that owns exactly the bytes it declares.\<close>

definition entry_ok :: "entry_t \<Rightarrow> bool" where
  "entry_ok e \<longleftrightarrow> e_key e \<noteq> None \<and> (\<exists>d. e_value e = Some d \<and> data_ok d \<and> data_copy d = d)"

lemma entry_okE:
  assumes "entry_ok e"
  obtains k d where "e = \<lparr>e_key = Some k, e_value = Some d\<rparr>" "data_ok d" "data_copy d = d"
  using assms by (cases e) (auto simp: entry_ok_def)

lemma entry_blocks_None [simp]: "entry_blocks None = 0"
  by (simp add: entry_blocks_def)

lemma entry_destroy_eq [simp]: "entry_destroy p h = h\<lparr>live := live h - entry_blocks p\<rparr>"
  by (auto simp: entry_destroy_def entry_blocks_def free_def split: option.splits)

lemma entry_create_ok [alloc_simps]:
  "outcomes h = [] \<Longrightarrow>
    entry_create k v h = (Some \<lparr>e_key = k, e_value = v\<rparr>, h\<lparr>live := live h + 1\<rparr>)"
  by (simp add: entry_create_def SIZE_OF_ENTRY_T_def alloc_simps)

lemma entry_dup_ok [alloc_simps]:
  assumes "outcomes h = []" "\<And>d. e_value e = Some d \<Longrightarrow> data_ok d"
  shows "entry_dup (Some e) h =
    Some (Some \<lparr>e_key = e_key e, e_value = map_option data_copy (e_value e)\<rparr>,
          h\<lparr>live := live h + entry_blocks (Some e)\<rparr>)"
  using assms
  by (cases "e_key e"; cases "e_value e")
     (simp_all add: entry_dup_def entry_blocks_def alloc_simps)

end
