(* ===== verification/KV_Store.thy ===== *)
theory KV_Store
  imports KV_Data
begin

text \<open>
  What the rest of the server needs of the structure that stores the pairs: the interface
  declared in \<^verbatim>\<open>include/tree.h\<close> (put, get, del), with the laws it promises over a finite map, and
  what a client may conclude from the laws alone. \<^verbatim>\<open>KV_Tree\<close> discharges the laws for the code's
  binary search tree.
\<close>

section \<open>Sequences of write operations\<close>

datatype write_op = Put string data_t | Del string

text \<open>The effect a write operation is meant to have on the map.\<close>

fun apply_op :: "write_op \<Rightarrow> (string \<Rightarrow> data_t option) \<Rightarrow> string \<Rightarrow> data_t option" where
  "apply_op (Put k d) m = m(k \<mapsto> data_copy d)"
| "apply_op (Del k) m = m(k := None)"

fun op_ok :: "write_op \<Rightarrow> bool" where
  "op_ok (Put k d) \<longleftrightarrow> data_ok d"
| "op_ok (Del k) \<longleftrightarrow> True"

text \<open>A client that issues the operations one after the other, whatever each returns.\<close>

fun run_writes ::
  "('t option \<Rightarrow> string option \<Rightarrow> data_t option \<Rightarrow> 'z heap_scheme
      \<Rightarrow> (int \<times> 't option \<times> 'z heap_scheme) option)
    \<Rightarrow> ('t option \<Rightarrow> string option \<Rightarrow> 'z heap_scheme
      \<Rightarrow> (int \<times> 't option \<times> 'z heap_scheme) option)
    \<Rightarrow> write_op list \<Rightarrow> 't option \<Rightarrow> 'z heap_scheme \<Rightarrow> ('t option \<times> 'z heap_scheme) option" where
  "run_writes put del [] t h = Some (t, h)"
| "run_writes put del (Put k d # ops) t h = do {
     (_, t, h) \<leftarrow> put t (Some k) (Some d) h;
     run_writes put del ops t h
   }"
| "run_writes put del (Del k # ops) t h = do {
     (_, t, h) \<leftarrow> del t (Some k) h;
     run_writes put del ops t h
   }"

section \<open>The interface\<close>

locale kv_store =
  fixes put :: "'t option \<Rightarrow> string option \<Rightarrow> data_t option \<Rightarrow> 'z heap_scheme
      \<Rightarrow> (int \<times> 't option \<times> 'z heap_scheme) option"
    and get :: "'t option \<Rightarrow> string option \<Rightarrow> 'z heap_scheme \<Rightarrow> (data_t option \<times> 'z heap_scheme) option"
    and del :: "'t option \<Rightarrow> string option \<Rightarrow> 'z heap_scheme
      \<Rightarrow> (int \<times> 't option \<times> 'z heap_scheme) option"
    and contents :: "'t \<Rightarrow> string \<Rightarrow> data_t option"
    and ok :: "'t \<Rightarrow> bool"
    and blocks :: "'t option \<Rightarrow> int"
  assumes finite_contents: "ok t \<Longrightarrow> finite (dom (contents t))"
    and contents_valid: "ok t \<Longrightarrow> contents t k = Some d \<Longrightarrow> data_ok d \<and> data_copy d = d"
    and put_law: "ok t \<Longrightarrow> data_ok d \<Longrightarrow> outcomes h = [] \<Longrightarrow> int (card (dom (contents t))) < INT_MAX \<Longrightarrow>
      \<exists>t'. put (Some t) (Some k) (Some d) h =
          Some (0, Some t', h\<lparr>live := live h + blocks (Some t') - blocks (Some t)\<rparr>) \<and>
        ok t' \<and> contents t' = (contents t)(k \<mapsto> data_copy d)"
    and get_law: "ok t \<Longrightarrow> outcomes h = [] \<Longrightarrow> get (Some t) (Some k) h =
      (case contents t k of
         None \<Rightarrow> Some (Some \<lparr>d_size = 0, d_data = None\<rparr>, h\<lparr>live := live h + 1\<rparr>)
       | Some d \<Rightarrow> Some (Some d, h\<lparr>live := live h + data_blocks (Some d)\<rparr>))"
    and del_law: "ok t \<Longrightarrow> contents t \<noteq> Map.empty \<Longrightarrow>
      \<exists>t'. del (Some t) (Some k) h =
          Some (0, Some t', h\<lparr>live := live h + blocks (Some t') - blocks (Some t)\<rparr>) \<and>
        ok t' \<and> contents t' = (contents t)(k := None)"
    and del_empty_law: "ok t \<Longrightarrow> contents t = Map.empty \<Longrightarrow>
      del (Some t) (Some k) h = Some (-1, Some t, h)"
begin

lemma get_after_put:
  assumes "ok t" "data_ok d" "outcomes h = []" "int (card (dom (contents t))) < INT_MAX"
  shows "\<exists>t' h'. put (Some t) (Some k) (Some d) h = Some (0, Some t', h') \<and>
    get (Some t') (Some k) h' =
      Some (Some (data_copy d), h'\<lparr>live := live h' + data_blocks (Some d)\<rparr>) \<and>
    (\<forall>k'. k' \<noteq> k \<longrightarrow> contents t' k' = contents t k')"
proof -
  obtain t' where t': "put (Some t) (Some k) (Some d) h =
        Some (0, Some t', h\<lparr>live := live h + blocks (Some t') - blocks (Some t)\<rparr>)"
      "ok t'" "contents t' = (contents t)(k \<mapsto> data_copy d)"
    using put_law [OF assms] by blast
  then show ?thesis
    using get_law [OF t'(2)] assms(3) by simp
qed

lemma get_after_del:
  assumes "ok t" "outcomes h = []"
  shows "\<exists>r t' h'. del (Some t) (Some k) h = Some (r, Some t', h') \<and>
    get (Some t') (Some k) h' =
      Some (Some \<lparr>d_size = 0, d_data = None\<rparr>, h'\<lparr>live := live h' + 1\<rparr>) \<and>
    (\<forall>k'. k' \<noteq> k \<longrightarrow> contents t' k' = contents t k')"
proof (cases "contents t = Map.empty")
  case True
  with assms show ?thesis by (simp add: del_empty_law get_law)
next
  case False
  then obtain t' where t': "del (Some t) (Some k) h =
        Some (0, Some t', h\<lparr>live := live h + blocks (Some t') - blocks (Some t)\<rparr>)"
      "ok t'" "contents t' = (contents t)(k := None)"
    using del_law [OF assms(1)] by blast
  then show ?thesis
    using get_law [OF t'(2)] assms(2) by simp
qed

lemma card_apply_op:
  "finite (dom m) \<Longrightarrow> card (dom (apply_op x m)) \<le> Suc (card (dom m))"
  by (cases x) (auto simp: card_insert_if intro: le_SucI card_mono card_Diff1_le)

text \<open>Any sequence of writes acts on the map as the operations are meant to.\<close>

lemma run_writes_refines:
  assumes "ok t" "list_all op_ok ops" "outcomes h = []"
    "int (card (dom (contents t))) + int (length ops) \<le> INT_MAX"
  shows "\<exists>t'. run_writes put del ops (Some t) h =
      Some (Some t', h\<lparr>live := live h + blocks (Some t') - blocks (Some t)\<rparr>) \<and>
    ok t' \<and> contents t' = fold apply_op ops (contents t)"
  using assms
proof (induction ops arbitrary: t h)
  case Nil
  then show ?case by simp
next
  case (Cons x ops)
  have step: "\<exists>r t'. (case x of Put k d \<Rightarrow> put (Some t) (Some k) (Some d) h
        | Del k \<Rightarrow> del (Some t) (Some k) h) =
      Some (r, Some t', h\<lparr>live := live h + blocks (Some t') - blocks (Some t)\<rparr>) \<and>
    ok t' \<and> contents t' = apply_op x (contents t)"
  proof (cases x)
    case (Put k d)
    with Cons.prems put_law [OF Cons.prems(1), of d h k] show ?thesis by fastforce
  next
    case (Del k)
    show ?thesis
    proof (cases "contents t = Map.empty")
      case True
      with Del Cons.prems del_empty_law show ?thesis by fastforce
    next
      case False
      with Del Cons.prems del_law show ?thesis by fastforce
    qed
  qed
  then obtain r t' where t': "(case x of Put k d \<Rightarrow> put (Some t) (Some k) (Some d) h
        | Del k \<Rightarrow> del (Some t) (Some k) h) =
      Some (r, Some t', h\<lparr>live := live h + blocks (Some t') - blocks (Some t)\<rparr>)"
      "ok t'" "contents t' = apply_op x (contents t)"
    by blast
  have "int (card (dom (contents t'))) + int (length ops) \<le> INT_MAX"
    using card_apply_op [OF finite_contents [OF Cons.prems(1)], of x] t'(3) Cons.prems(4) by simp
  then obtain t'' where t'': "run_writes put del ops (Some t')
        (h\<lparr>live := live h + blocks (Some t') - blocks (Some t)\<rparr>) =
      Some (Some t'', h\<lparr>live := live h + blocks (Some t') - blocks (Some t)
                              + blocks (Some t'') - blocks (Some t')\<rparr>)"
      "ok t''" "contents t'' = fold apply_op ops (contents t')"
    using Cons.IH [OF t'(2), where h = "h\<lparr>live := live h + blocks (Some t') - blocks (Some t)\<rparr>"]
      Cons.prems by auto
  have "run_writes put del (x # ops) (Some t) h =
      Some (Some t'', h\<lparr>live := live h + blocks (Some t'') - blocks (Some t)\<rparr>)"
    using t'(1) t''(1) by (cases x) simp_all
  with t'(3) t''(2,3) show ?case by auto
qed

end

end
