(* ===== verification/KV_Tree.thy ===== *)
theory KV_Tree
  imports KV_Entry KV_Store
begin

text \<open>
  \<^verbatim>\<open>source/tree.c\<close>: the binary search tree that holds the server's key-value pairs. The first
  section translates the functions of the file; the second states the invariant (search order,
  cached size and height, exclusive ownership of keys and values) and the finite map a tree
  stands for; then each operation is shown to return the right result, keep the invariant, act
  on the map as its name says, and balance its allocations.
\<close>

section \<open>Definitions\<close>

text \<open>\<^verbatim>\<open>struct tree_node_t*\<close> of \<^verbatim>\<open>tree-private.h\<close>: the null pointer, or a node. Its entry may be
  \<^verbatim>\<open>NULL\<close> when \<^verbatim>\<open>entry_create\<close> found no memory.\<close>

datatype tree_node =
    NullNode
  | Node (n_entry: "entry_t option") (n_left: tree_node) (n_right: tree_node)

record tree_t =
  t_root :: tree_node
  t_size :: int
  t_height :: int

definition SIZE_OF_TREE_T :: int where "SIZE_OF_TREE_T = 16"
definition SIZE_OF_TREE_NODE_T :: int where "SIZE_OF_TREE_NODE_T = 24"
definition SIZE_OF_CHAR_POINTER :: int where "SIZE_OF_CHAR_POINTER = 8"
definition SIZE_OF_NULL :: int where "SIZE_OF_NULL = 8"

definition tree_create :: "'z heap_scheme \<Rightarrow> tree_t option \<times> 'z heap_scheme" where
  "tree_create h =
    (case malloc SIZE_OF_TREE_T h of (ok, h) \<Rightarrow>
      if \<not> ok then (None, h)
      else (Some \<lparr>t_root = NullNode, t_size = 0, t_height = -1\<rparr>, h))"

fun tree_node_destroy :: "tree_node \<Rightarrow> 'z heap_scheme \<Rightarrow> 'z heap_scheme" where
  "tree_node_destroy NullNode h = h"
| "tree_node_destroy (Node e l r) h =
    free (Some (Node e l r))
      (tree_node_destroy r (tree_node_destroy l (entry_destroy e h)))"

definition tree_destroy :: "tree_t option \<Rightarrow> 'z heap_scheme \<Rightarrow> 'z heap_scheme" where
  "tree_destroy tree h =
    (case tree of None \<Rightarrow> h | Some t \<Rightarrow> free tree (tree_node_destroy (t_root t) h))"

definition node_create ::
  "string option \<Rightarrow> data_t option \<Rightarrow> 'z heap_scheme \<Rightarrow> tree_node \<times> 'z heap_scheme" where
  "node_create key val h =
    (case malloc SIZE_OF_TREE_NODE_T h of (ok, h) \<Rightarrow>
      if \<not> ok then (NullNode, h)
      else (case entry_create key val h of (e, h) \<Rightarrow> (Node e NullNode NullNode, h)))"

definition int_max :: "int \<Rightarrow> int \<Rightarrow> int" where
  "int_max n1 n2 = (if n1 > n2 then n1 else n2)"

text \<open>
  The loop of \<^verbatim>\<open>_tree_put\<close> from a current node at a depth, with the size and height fields of the
  tree: it returns the node with what the loop stores into it or below it, and the two fields.
\<close>

fun tree_put_loop ::
  "tree_node \<Rightarrow> int \<Rightarrow> string option \<Rightarrow> data_t option \<Rightarrow> int \<Rightarrow> int \<Rightarrow> 'z heap_scheme
    \<Rightarrow> (tree_node \<times> int \<times> int \<times> 'z heap_scheme) option" where
  "tree_put_loop NullNode current_depth copied_key copied_value sz height h = None"
| "tree_put_loop (Node e l r) current_depth copied_key copied_value sz height h = do {
     entry \<leftarrow> e;
     let comparison = key_compare copied_key (e_key entry);
     if comparison = 0 then
       (let h = entry_destroy e h;
            (e', h) = entry_create copied_key copied_value h
        in Some (Node e' l r, sz, height, h))
     else if comparison < 0 then
       (if l = NullNode then do {
          let (n, h) = node_create copied_key copied_value h;
          sz' \<leftarrow> iadd sz 1;
          d \<leftarrow> iadd current_depth 1;
          Some (Node e n r, sz', int_max d height, h)
        }
        else do {
          d \<leftarrow> iadd current_depth 1;
          (l', sz', height', h) \<leftarrow> tree_put_loop l d copied_key copied_value sz height h;
          Some (Node e l' r, sz', height', h)
        })
     else
       (if r = NullNode then do {
          let (n, h) = node_create copied_key copied_value h;
          sz' \<leftarrow> iadd sz 1;
          d \<leftarrow> iadd current_depth 1;
          Some (Node e l n, sz', int_max d height, h)
        }
        else do {
          d \<leftarrow> iadd current_depth 1;
          (r', sz', height', h) \<leftarrow> tree_put_loop r d copied_key copied_value sz height h;
          Some (Node e l r', sz', height', h)
        })
   }"

definition tree_put ::
  "tree_t option \<Rightarrow> string option \<Rightarrow> data_t option \<Rightarrow> 'z heap_scheme
    \<Rightarrow> (int \<times> tree_t option \<times> 'z heap_scheme) option" where
  "tree_put tree key val h =
    (case (tree, key, val) of
       (Some t, Some k, Some v) \<Rightarrow> do {
         let (copied_key, h) = strdup k h;
         (copied_value, h) \<leftarrow> data_dup val h;
         if t_root t = NullNode then
           (let (n, h) = node_create copied_key copied_value h
            in Some (0, Some (t\<lparr>t_root := n, t_size := 1, t_height := 0\<rparr>), h))
         else do {
           (n, sz, height, h) \<leftarrow>
             tree_put_loop (t_root t) 0 copied_key copied_value (t_size t) (t_height t) h;
           Some (0, Some (t\<lparr>t_root := n, t_size := sz, t_height := height\<rparr>), h)
         }
       }
     | _ \<Rightarrow> Some (-1, tree, h))"

text \<open>A pointer to a node pointer inside the tree is the path of child fields that leads to it.\<close>

datatype dir = ToLeft | ToRight

fun node_at :: "tree_node \<Rightarrow> dir list \<Rightarrow> tree_node" where
  "node_at n [] = n"
| "node_at NullNode (x # p) = NullNode"
| "node_at (Node e l r) (ToLeft # p) = node_at l p"
| "node_at (Node e l r) (ToRight # p) = node_at r p"

text \<open>\<^verbatim>\<open>_tree_node_pointer_get\<close>: the inner \<^verbatim>\<open>None\<close> is the \<^verbatim>\<open>NULL\<close> for a key that is not there.\<close>

fun tree_node_pointer_get :: "tree_node \<Rightarrow> string option \<Rightarrow> dir list option option" where
  "tree_node_pointer_get NullNode key = Some None"
| "tree_node_pointer_get (Node e l r) key = do {
     entry \<leftarrow> e;
     let comparison = key_compare key (e_key entry);
     if comparison = 0 then Some (Some [])
     else if comparison < 0
       then map_option (map_option ((#) ToLeft)) (tree_node_pointer_get l key)
       else map_option (map_option ((#) ToRight)) (tree_node_pointer_get r key)
   }"

definition tree_get ::
  "tree_t option \<Rightarrow> string option \<Rightarrow> 'z heap_scheme \<Rightarrow> (data_t option \<times> 'z heap_scheme) option"
where
  "tree_get tree key h =
    (case tree of
       None \<Rightarrow> Some (None, h)
     | Some t \<Rightarrow>
         if t_root t = NullNode then Some (data_create 0 h)
         else do {
           pointer_to_node \<leftarrow> tree_node_pointer_get (t_root t) key;
           case pointer_to_node of
             None \<Rightarrow> Some (data_create 0 h)
           | Some p \<Rightarrow>
               (case node_at (t_root t) p of
                  NullNode \<Rightarrow> None
                | Node e l r \<Rightarrow> do { entry \<leftarrow> e; data_dup (e_value entry) h })
         })"

text \<open>
  The search for the successor with the lowest key, from the pointer \<^verbatim>\<open>&(node->right)\<close>: the
  successor found, and the subtree after \<^verbatim>\<open>*pointer = successor->right\<close>.
\<close>

fun detach_successor :: "tree_node \<Rightarrow> tree_node \<times> tree_node" where
  "detach_successor NullNode = (NullNode, NullNode)"
| "detach_successor (Node e l r) =
    (if l = NullNode then (Node e l r, r)
     else (case detach_successor l of (s, l') \<Rightarrow> (s, Node e l' r)))"

definition node_replacement :: "tree_node \<Rightarrow> tree_node \<Rightarrow> tree_node" where
  "node_replacement l r =
    (if l = NullNode \<and> r = NullNode then NullNode
     else if l = NullNode then r
     else if r = NullNode then l
     else (case detach_successor r of
             (Node e _ _, r') \<Rightarrow> Node e l r'
           | (NullNode, r') \<Rightarrow> NullNode))"

text \<open>\<^verbatim>\<open>_tree_node_del\<close> at the pointer with the given path.\<close>

fun tree_node_del ::
  "tree_node \<Rightarrow> dir list \<Rightarrow> 'z heap_scheme \<Rightarrow> (tree_node \<times> 'z heap_scheme) option" where
  "tree_node_del NullNode p h = None"
| "tree_node_del (Node e l r) [] h =
     Some (node_replacement l r, free (Some (Node e l r)) (entry_destroy e h))"
| "tree_node_del (Node e l r) (ToLeft # p) h =
     do { (l', h) \<leftarrow> tree_node_del l p h; Some (Node e l' r, h) }"
| "tree_node_del (Node e l r) (ToRight # p) h =
     do { (r', h) \<leftarrow> tree_node_del r p h; Some (Node e l r', h) }"

fun tree_compute_height :: "tree_node \<Rightarrow> int option" where
  "tree_compute_height NullNode = Some (-1)"
| "tree_compute_height (Node e l r) = do {
     height_of_left_tree \<leftarrow> tree_compute_height l;
     height_of_right_tree \<leftarrow> tree_compute_height r;
     iadd 1 (int_max height_of_left_tree height_of_right_tree)
   }"

definition tree_del ::
  "tree_t option \<Rightarrow> string option \<Rightarrow> 'z heap_scheme
    \<Rightarrow> (int \<times> tree_t option \<times> 'z heap_scheme) option" where
  "tree_del tree key h =
    (case tree of
       None \<Rightarrow> Some (-1, tree, h)
     | Some t \<Rightarrow>
         if t_root t = NullNode then Some (-1, tree, h)
         else do {
           pointer_to_node \<leftarrow> tree_node_pointer_get (t_root t) key;
           case pointer_to_node of
             None \<Rightarrow> Some (0, tree, h)
           | Some p \<Rightarrow> do {
               (root, h) \<leftarrow> tree_node_del (t_root t) p h;
               sz \<leftarrow> iadd (t_size t) (-1);
               height \<leftarrow> tree_compute_height root;
               Some (0, Some (t\<lparr>t_root := root, t_size := sz, t_height := height\<rparr>), h)
             }
         })"

definition tree_size :: "tree_t option \<Rightarrow> int" where
  "tree_size tree = (case tree of None \<Rightarrow> -1 | Some t \<Rightarrow> t_size t)"

definition tree_height :: "tree_t option \<Rightarrow> int" where
  "tree_height tree = (case tree of None \<Rightarrow> -1 | Some t \<Rightarrow> t_height t)"

text \<open>
  An array of \<^verbatim>\<open>char*\<close>: each slot is not yet written (\<^verbatim>\<open>None\<close>), or holds \<^verbatim>\<open>NULL\<close> or a string. A
  store past the end is undefined.
\<close>

type_synonym keys_array = "string option option list"

definition store_key :: "keys_array \<Rightarrow> nat \<Rightarrow> string option \<Rightarrow> keys_array option" where
  "store_key keys i k = (if i < length keys then Some (keys[i := Some k]) else None)"

fun collect_keys ::
  "tree_node \<Rightarrow> keys_array \<Rightarrow> nat \<Rightarrow> 'z heap_scheme
    \<Rightarrow> (nat \<times> keys_array \<times> 'z heap_scheme) option" where
  "collect_keys NullNode keys next_index h = Some (next_index, keys, h)"
| "collect_keys (Node e l r) keys next_index h = do {
     (next_index, keys, h) \<leftarrow> collect_keys l keys next_index h;
     entry \<leftarrow> e;
     key \<leftarrow> e_key entry;
     let (copied, h) = strdup key h;
     keys \<leftarrow> store_key keys next_index copied;
     collect_keys r keys (next_index + 1) h
   }"

definition tree_get_keys ::
  "tree_t option \<Rightarrow> 'z heap_scheme \<Rightarrow> (keys_array option \<times> 'z heap_scheme) option" where
  "tree_get_keys tree h =
    (case tree of
       None \<Rightarrow> Some (None, h)
     | Some t \<Rightarrow>
         (case malloc (SIZE_OF_CHAR_POINTER * t_size t + SIZE_OF_NULL) h of (ok, h) \<Rightarrow>
           if \<not> ok then Some (None, h)
           else do {
             (last_index, keys, h) \<leftarrow>
               collect_keys (t_root t) (replicate (nat (t_size t + 1)) None) 0 h;
             keys \<leftarrow> store_key keys last_index None;
             Some (Some keys, h)
           }))"

fun free_keys_loop :: "keys_array \<Rightarrow> 'z heap_scheme \<Rightarrow> 'z heap_scheme option" where
  "free_keys_loop [] h = None"
| "free_keys_loop (slot # rest) h = do {
     key \<leftarrow> slot;
     if key \<noteq> None then free_keys_loop rest (free key h) else Some h
   }"

definition tree_free_keys :: "keys_array option \<Rightarrow> 'z heap_scheme \<Rightarrow> 'z heap_scheme option" where
  "tree_free_keys keys h =
    (case keys of
       None \<Rightarrow> Some h
     | Some ks \<Rightarrow> do { h \<leftarrow> free_keys_loop ks h; Some (free keys h) })"

section \<open>The invariant and the abstraction\<close>

fun node_keys :: "tree_node \<Rightarrow> string option set" where
  "node_keys NullNode = {}"
| "node_keys (Node e l r) =
    insert (case e of None \<Rightarrow> None | Some x \<Rightarrow> e_key x) (node_keys l \<union> node_keys r)"

fun node_map :: "tree_node \<Rightarrow> string option \<Rightarrow> data_t option" where
  "node_map NullNode = Map.empty"
| "node_map (Node e l r) =
    (case e of
       None \<Rightarrow> node_map l ++ node_map r
     | Some x \<Rightarrow> (node_map l ++ node_map r)(e_key x := e_value x))"

fun node_size :: "tree_node \<Rightarrow> int" where
  "node_size NullNode = 0"
| "node_size (Node e l r) = node_size l + node_size r + 1"

fun node_height :: "tree_node \<Rightarrow> int" where
  "node_height NullNode = -1"
| "node_height (Node e l r) = 1 + max (node_height l) (node_height r)"

fun node_blocks :: "tree_node \<Rightarrow> int" where
  "node_blocks NullNode = 0"
| "node_blocks (Node e l r) = entry_blocks e + node_blocks l + node_blocks r + 1"

text \<open>Search order, with a valid entry in every node.\<close>

fun node_ok :: "tree_node \<Rightarrow> bool" where
  "node_ok NullNode \<longleftrightarrow> True"
| "node_ok (Node e l r) \<longleftrightarrow>
    node_ok l \<and> node_ok r \<and>
    (case e of
       None \<Rightarrow> False
     | Some x \<Rightarrow> entry_ok x \<and> (\<forall>k \<in> node_keys l. k < e_key x) \<and> (\<forall>k \<in> node_keys r. e_key x < k))"

definition tree_ok :: "tree_t \<Rightarrow> bool" where
  "tree_ok t \<longleftrightarrow> node_ok (t_root t) \<and> t_size t = node_size (t_root t) \<and>
    t_height t = node_height (t_root t) \<and> in_int (t_size t)"

text \<open>The finite map a tree stands for.\<close>

definition tree_map :: "tree_t \<Rightarrow> string \<Rightarrow> data_t option" where
  "tree_map t k = node_map (t_root t) (Some k)"

definition tree_blocks :: "tree_t option \<Rightarrow> int" where
  "tree_blocks p = (case p of None \<Rightarrow> 0 | Some t \<Rightarrow> 1 + node_blocks (t_root t))"

lemma node_okE:
  assumes "node_ok (Node e l r)"
  obtains k d where "e = Some \<lparr>e_key = Some k, e_value = Some d\<rparr>" "data_ok d" "data_copy d = d"
    "node_ok l" "node_ok r" "\<forall>x \<in> node_keys l. x < Some k" "\<forall>x \<in> node_keys r. Some k < x"
  using assms by (auto split: option.splits elim!: entry_okE)

lemma dom_node_map: "node_ok n \<Longrightarrow> dom (node_map n) = node_keys n"
proof (induction n)
  case NullNode
  then show ?case by simp
next
  case (Node e l r)
  from Node.prems show ?case
    by (rule node_okE) (use Node.IH in \<open>simp add: Un_commute del: fun_upd_apply\<close>)
qed

lemma node_map_notin: "node_ok n \<Longrightarrow> k \<notin> node_keys n \<Longrightarrow> node_map n k = None"
  using dom_node_map by blast

lemma node_size_nonneg: "0 \<le> node_size n"
  by (induction n) auto

lemma node_height_ge: "-1 \<le> node_height n"
  by (induction n) auto

lemma node_height_less_size: "node_height n < node_size n"
proof (induction n)
  case (Node e l r)
  then show ?case using node_size_nonneg [of l] node_size_nonneg [of r] by simp
qed simp

lemma node_size_0 [simp]: "node_size n = 0 \<longleftrightarrow> n = NullNode"
proof (cases n)
  case (Node e l r)
  then show ?thesis using node_size_nonneg [of l] node_size_nonneg [of r] by simp
qed simp

lemma node_height_neg [simp]: "node_height n < 0 \<longleftrightarrow> n = NullNode"
proof (cases n)
  case (Node e l r)
  then show ?thesis using node_height_ge [of l] by simp
qed simp

lemma card_node_keys: "node_ok n \<Longrightarrow> finite (node_keys n) \<and> int (card (node_keys n)) = node_size n"
proof (induction n)
  case NullNode
  then show ?case by simp
next
  case (Node e l r)
  from Node.prems show ?case
  proof (rule node_okE)
    fix k d
    assume e: "e = Some \<lparr>e_key = Some k, e_value = Some d\<rparr>" and "node_ok l" "node_ok r"
      and o: "\<forall>x \<in> node_keys l. x < Some k" "\<forall>x \<in> node_keys r. Some k < x"
    then have IH: "finite (node_keys l)" "int (card (node_keys l)) = node_size l"
        "finite (node_keys r)" "int (card (node_keys r)) = node_size r"
      using Node.IH by auto
    have notin: "Some k \<notin> node_keys l \<union> node_keys r" using o by fastforce
    have "node_keys l \<inter> node_keys r = {}"
      using o by (metis disjoint_iff order_less_asym)
    then have "card (node_keys l \<union> node_keys r) = card (node_keys l) + card (node_keys r)"
      by (rule card_Un_disjoint [OF IH(1,3)])
    with e IH notin show ?thesis by (simp del: Un_iff)
  qed
qed

lemma tree_destroy_nodes [simp]: "tree_node_destroy n h = h\<lparr>live := live h - node_blocks n\<rparr>"
  by (induction n arbitrary: h) simp_all

lemma tree_destroy_eq: "tree_destroy p h = h\<lparr>live := live h - tree_blocks p\<rparr>"
  by (auto simp: tree_destroy_def tree_blocks_def split: option.splits)

section \<open>Insertion\<close>

text \<open>The textbook insertion, which the loop of \<^verbatim>\<open>_tree_put\<close> is shown to compute.\<close>

definition entry_key :: "entry_t option \<Rightarrow> string option" where
  "entry_key e = (case e of None \<Rightarrow> None | Some x \<Rightarrow> e_key x)"

fun node_insert :: "string \<Rightarrow> data_t \<Rightarrow> tree_node \<Rightarrow> tree_node" where
  "node_insert k d NullNode = Node (Some \<lparr>e_key = Some k, e_value = Some d\<rparr>) NullNode NullNode"
| "node_insert k d (Node e l r) =
    (if Some k = entry_key e then Node (Some \<lparr>e_key = Some k, e_value = Some d\<rparr>) l r
     else if Some k < entry_key e then Node e (node_insert k d l) r
     else Node e l (node_insert k d r))"

lemma entry_key_Some [simp]: "entry_key (Some e) = e_key e"
  by (simp add: entry_key_def)

lemma node_insert_not_Null [simp]: "node_insert k d n \<noteq> NullNode"
  by (cases n) simp_all

lemma node_keys_insert: "node_keys (node_insert k d n) = insert (Some k) (node_keys n)"
  by (induction n) (auto simp: entry_key_def)

lemma node_ok_insert:
  assumes "node_ok n" "data_ok d" "data_copy d = d"
  shows "node_ok (node_insert k d n)"
  using assms(1)
proof (induction n)
  case NullNode
  then show ?case using assms(2,3) by (simp add: entry_ok_def)
next
  case (Node e l r)
  from Node.prems show ?case
    by (rule node_okE)
       (use Node.IH assms(2,3) in \<open>auto simp: node_keys_insert entry_ok_def linorder_neq_iff\<close>)
qed

lemma node_map_insert:
  assumes "node_ok n"
  shows "node_map (node_insert k d n) = (node_map n)(Some k \<mapsto> d)"
  using assms
proof (induction n)
  case NullNode
  then show ?case by simp
next
  case (Node e l r)
  from Node.prems show ?case
  proof (rule node_okE)
    fix k' d'
    assume e: "e = Some \<lparr>e_key = Some k', e_value = Some d'\<rparr>" and ok: "node_ok l" "node_ok r"
      and "\<forall>x \<in> node_keys l. x < Some k'" "\<forall>x \<in> node_keys r. Some k' < x"
    then have notin: "k \<le> k' \<Longrightarrow> node_map r (Some k) = None"
      by (intro node_map_notin) (auto simp: less_le_not_le)
    show ?thesis
      using e Node.IH(1) [OF ok(1)] Node.IH(2) [OF ok(2)] notin
      by (auto simp: fun_eq_iff map_add_def split: option.splits)
  qed
qed

lemma node_size_insert:
  assumes "node_ok n"
  shows "node_size (node_insert k d n) = node_size n + (if Some k \<in> node_keys n then 0 else 1)"
proof -
  have "node_size n + (if Some k \<in> node_keys n then 0 else 1)
      = int (card (insert (Some k) (node_keys n)))"
    using card_node_keys [OF assms] by (simp add: insert_absorb)
  also have "\<dots> = node_size (node_insert k \<lparr>d_size = 0, d_data = None\<rparr> n)"
    using card_node_keys [OF node_ok_insert [OF assms]] by (simp add: node_keys_insert data_ok_def data_copy_def INT_MAX_def)
  also have "\<dots> = node_size (node_insert k d n)"
    by (induction n) simp_all
  finally show ?thesis by simp
qed

lemma node_height_insert: "node_height n \<le> node_height (node_insert k d n)"
  by (induction n) auto

lemma node_create_ok [alloc_simps]:
  "outcomes h = [] \<Longrightarrow> node_create k v h =
    (Node (Some \<lparr>e_key = k, e_value = v\<rparr>) NullNode NullNode, h\<lparr>live := live h + 2\<rparr>)"
  by (simp add: node_create_def SIZE_OF_TREE_NODE_T_def alloc_simps)

text \<open>
  The loop of \<^verbatim>\<open>_tree_put\<close> inserts as the textbook does, counts a new node, raises the cached
  height to the depth of the place it stored at, and frees what it replaced.
\<close>

lemma int_max_eq [simp]: "int_max a b = max a b"
  by (simp add: int_max_def max_def)

lemma tree_put_loop_eq:
  assumes "n \<noteq> NullNode" "node_ok n" "outcomes h = []" "0 \<le> depth"
    "depth + node_height n < INT_MAX" "0 \<le> sz" "sz < INT_MAX" "depth + node_height n \<le> height"
  shows "tree_put_loop n depth (Some k) (Some d) sz height h =
    Some (node_insert k d n,
          sz + (if Some k \<in> node_keys n then 0 else 1),
          max height (depth + node_height (node_insert k d n)),
          h\<lparr>live := live h + node_blocks (node_insert k d n) - node_blocks n
                     - (1 + data_blocks (Some d))\<rparr>)"
  using assms
proof (induction n arbitrary: depth h)
  case NullNode
  then show ?case by simp
next
  case (Node e l r)
  from Node.prems(2) show ?case
  proof (rule node_okE)
    fix k' d'
    assume e: "e = Some \<lparr>e_key = Some k', e_value = Some d'\<rparr>" and ok: "node_ok l" "node_ok r"
      and lt: "\<forall>x \<in> node_keys l. x < Some k'" and gt: "\<forall>x \<in> node_keys r. Some k' < x"
    have range: "in_int (sz + 1)" "in_int (depth + 1)"
      using Node.prems node_height_ge [of l] node_height_ge [of r] by (auto simp: int_range)
    show ?thesis
    proof (cases rule: key.cmp_cases [of "Some k" "Some k'"])
      case less
      then have notin: "Some k \<notin> insert (Some k') (node_keys r)"
        using gt by (auto simp: less_le_not_le)
      show ?thesis
      proof (cases "l = NullNode")
        case True
        with e less notin range Node.prems show ?thesis
          by (simp add: alloc_simps entry_blocks_def)
      next
        case False
        with e less notin range Node.prems Node.IH(1) [OF False ok(1)] show ?thesis
          by (simp add: max.assoc)
      qed
    next
      case equal
      with e range Node.prems show ?thesis
        by (simp add: alloc_simps entry_blocks_def max_def)
    next
      case greater
      then have notin: "Some k \<notin> insert (Some k') (node_keys l)" and "\<not> k < k'"
        using lt by (auto simp: less_le_not_le)
      show ?thesis
      proof (cases "r = NullNode")
        case True
        then have "max (depth + 1) height = max height (depth + (1 + max (node_height l) 0))"
          using Node.prems(8) by simp
        with e greater notin \<open>\<not> k < k'\<close> range Node.prems True show ?thesis
          by (simp add: alloc_simps entry_blocks_def)
      next
        case False
        have "max height (depth + 1 + node_height (node_insert k d r)) =
            max height (depth + (1 + max (node_height l) (node_height (node_insert k d r))))"
          using Node.prems(8) by simp
        with e greater notin \<open>\<not> k < k'\<close> range Node.prems Node.IH(2) [OF False ok(2)] False show ?thesis
          by simp
      qed
    qed
  qed
qed

definition tree_of :: "tree_node \<Rightarrow> tree_t" where
  "tree_of n = \<lparr>t_root = n, t_size = node_size n, t_height = node_height n\<rparr>"

definition tree_insert :: "string \<Rightarrow> data_t \<Rightarrow> tree_t \<Rightarrow> tree_t" where
  "tree_insert k d t = tree_of (node_insert k d (t_root t))"

lemma tree_of_sel [simp]: "t_root (tree_of n) = n" "t_size (tree_of n) = node_size n"
    "t_height (tree_of n) = node_height n"
  by (simp_all add: tree_of_def)

lemma tree_ok_of: "tree_ok t \<longleftrightarrow> t = tree_of (t_root t) \<and> node_ok (t_root t) \<and> in_int (t_size t)"
  by (cases t) (auto simp: tree_ok_def tree_of_def)

lemma tree_blocks_of [simp]: "tree_blocks (Some (tree_of n)) = 1 + node_blocks n"
  by (simp add: tree_blocks_def)

lemma tree_put_eq:
  assumes "tree_ok t" "data_ok d" "outcomes h = []" "t_size t < INT_MAX"
  shows "tree_put (Some t) (Some k) (Some d) h =
    Some (0, Some (tree_insert k (data_copy d) t),
      h\<lparr>live := live h + tree_blocks (Some (tree_insert k (data_copy d) t)) - tree_blocks (Some t)\<rparr>)"
proof -
  obtain n where t: "t = tree_of n" "node_ok n" using assms(1) by (metis tree_ok_of)
  let ?h = "h\<lparr>live := live h + 1 + data_blocks (Some d)\<rparr>"
  show ?thesis
  proof (cases "n = NullNode")
    case True
    with t assms show ?thesis
      by (simp add: tree_put_def tree_insert_def tree_of_def tree_blocks_def alloc_simps entry_blocks_def)
  next
    case False
    have "tree_put_loop n 0 (Some k) (Some (data_copy d)) (node_size n) (node_height n) ?h =
      Some (node_insert k (data_copy d) n,
          node_size n + (if Some k \<in> node_keys n then 0 else 1),
          max (node_height n) (0 + node_height (node_insert k (data_copy d) n)),
          ?h\<lparr>live := live ?h + node_blocks (node_insert k (data_copy d) n) - node_blocks n
                     - (1 + data_blocks (Some (data_copy d)))\<rparr>)"
      using t assms False node_height_less_size [of n] node_size_nonneg [of n]
      by (intro tree_put_loop_eq) auto
    with t assms False show ?thesis
      by (simp add: tree_put_def tree_insert_def alloc_simps node_size_insert max_absorb2
          node_height_insert tree_of_def tree_blocks_def)
  qed
qed

lemma tree_ok_insert:
  assumes "tree_ok t" "data_ok d" "data_copy d = d" "t_size t < INT_MAX"
  shows "tree_ok (tree_insert k d t)"
proof -
  have "node_ok (t_root t)" "t_size t = node_size (t_root t)" "in_int (t_size t)"
    using assms(1) by (auto simp: tree_ok_def)
  then show ?thesis
    using assms(2-4)
    by (auto simp: tree_ok_def tree_insert_def node_ok_insert node_size_insert int_range)
qed

lemma tree_map_insert:
  assumes "tree_ok t"
  shows "tree_map (tree_insert k d t) = (tree_map t)(k \<mapsto> d)"
  using assms by (auto simp: tree_map_def fun_eq_iff tree_insert_def tree_ok_def node_map_insert)

section \<open>Search\<close>

lemma tree_node_pointer_get_ok:
  assumes "node_ok n"
  shows "tree_node_pointer_get n (Some k) = Some None \<and> node_map n (Some k) = None \<or>
    (\<exists>path d l r. tree_node_pointer_get n (Some k) = Some (Some path) \<and>
       node_at n path = Node (Some \<lparr>e_key = Some k, e_value = Some d\<rparr>) l r \<and>
       node_map n (Some k) = Some d \<and> data_ok d \<and> data_copy d = d)"
  using assms
proof (induction n)
  case NullNode
  then show ?case by simp
next
  case (Node e l r)
  from Node.prems show ?case
  proof (rule node_okE)
    fix k' d'
    assume e: "e = Some \<lparr>e_key = Some k', e_value = Some d'\<rparr>" "data_ok d'" "data_copy d' = d'"
      and ok: "node_ok l" "node_ok r"
      and lt: "\<forall>x \<in> node_keys l. x < Some k'" and gt: "\<forall>x \<in> node_keys r. Some k' < x"
    show ?thesis
    proof (cases rule: key.cmp_cases [of "Some k" "Some k'"])
      case less
      then have "Some k \<notin> node_keys r" using gt by (meson less_asym)
      then have "node_map (Node e l r) (Some k) = node_map l (Some k)"
        using e(1) less(1) node_map_notin [OF ok(2)] by (auto simp: map_add_def)
      with e less Node.IH(1) [OF ok(1)] show ?thesis by (auto simp del: node_map.simps)
    next
      case equal
      with e show ?thesis by auto
    next
      case greater
      then have "Some k \<notin> node_keys l" using lt by (meson less_asym)
      then have "node_map (Node e l r) (Some k) = node_map r (Some k)"
        using e(1) greater(1) node_map_notin [OF ok(1)] by (auto simp: map_add_def split: option.split)
      with e greater Node.IH(2) [OF ok(2)] show ?thesis by (auto simp del: node_map.simps)
    qed
  qed
qed

lemma tree_get_eq:
  assumes "tree_ok t" "outcomes h = []"
  shows "tree_get (Some t) (Some k) h =
    (case tree_map t k of
       None \<Rightarrow> Some (Some \<lparr>d_size = 0, d_data = None\<rparr>, h\<lparr>live := live h + 1\<rparr>)
     | Some d \<Rightarrow> Some (Some d, h\<lparr>live := live h + data_blocks (Some d)\<rparr>))"
proof (cases "t_root t = NullNode")
  case True
  with assms show ?thesis by (simp add: tree_get_def tree_map_def alloc_simps)
next
  case False
  have "node_ok (t_root t)" using assms(1) by (simp add: tree_ok_def)
  from tree_node_pointer_get_ok [OF this, of k] False assms(2) show ?thesis
    by (auto simp: tree_get_def tree_map_def alloc_simps split: option.splits)
qed

section \<open>Deletion\<close>

text \<open>The successor that takes the place of a deleted node is the least of the right subtree.\<close>

lemma detach_successor_ok:
  assumes "n \<noteq> NullNode" "node_ok n"
  shows "\<exists>x r n'. detach_successor n = (Node (Some x) NullNode r, n') \<and>
    entry_ok x \<and> node_ok n' \<and> node_keys n = insert (e_key x) (node_keys n') \<and>
    (\<forall>k \<in> node_keys n'. e_key x < k) \<and> node_map n = (node_map n')(e_key x := e_value x) \<and>
    node_size n = node_size n' + 1 \<and> node_blocks n = node_blocks n' + entry_blocks (Some x) + 1"
  using assms
proof (induction n)
  case NullNode
  then show ?case by simp
next
  case (Node e l r)
  obtain x where e: "e = Some x" and x: "entry_ok x" and ok: "node_ok l" "node_ok r"
    and lt: "\<forall>k \<in> node_keys l. k < e_key x" and gt: "\<forall>k \<in> node_keys r. e_key x < k"
    using Node.prems(2) by (auto split: option.splits)
  show ?case
  proof (cases "l = NullNode")
    case True
    with e x ok gt show ?thesis by simp
  next
    case False
    obtain y s l' where d: "detach_successor l = (Node (Some y) NullNode s, l')"
      and y: "entry_ok y" "node_ok l'" "node_keys l = insert (e_key y) (node_keys l')"
        "\<forall>k \<in> node_keys l'. e_key y < k" "node_map l = (node_map l')(e_key y := e_value y)"
        "node_size l = node_size l' + 1" "node_blocks l = node_blocks l' + entry_blocks (Some y) + 1"
      using Node.IH(1) [OF False ok(1)] by blast
    have yx: "e_key y < e_key x" using lt y(3) by simp
    then have yr: "e_key y \<notin> node_keys r" using gt by (meson order.asym order.strict_trans)
    then have "node_map (Node e l r) = (node_map (Node e l' r))(e_key y := e_value y)"
      using e y(5) yx node_map_notin [OF ok(2) yr]
      by (auto simp: fun_eq_iff map_add_def split: option.splits)
    moreover have "\<forall>k \<in> node_keys (Node e l' r). e_key y < k"
      using e y(4) yx gt by (auto intro: order.strict_trans)
    moreover have "node_ok (Node e l' r)"
      using e x ok gt lt y(2,3) by simp
    ultimately show ?thesis
      using False d y e by (auto simp del: node_map.simps)
  qed
qed

lemma node_replacement_ok:
  assumes "node_ok l" "node_ok r" "\<forall>a \<in> node_keys l. \<forall>b \<in> node_keys r. a < b"
  shows "node_ok (node_replacement l r)"
    and "node_map (node_replacement l r) = node_map l ++ node_map r"
    and "node_keys (node_replacement l r) = node_keys l \<union> node_keys r"
    and "node_size (node_replacement l r) = node_size l + node_size r"
    and "node_blocks (node_replacement l r) = node_blocks l + node_blocks r"
proof -
  have "node_ok (node_replacement l r) \<and>
    node_map (node_replacement l r) = node_map l ++ node_map r \<and>
    node_keys (node_replacement l r) = node_keys l \<union> node_keys r \<and>
    node_size (node_replacement l r) = node_size l + node_size r \<and>
    node_blocks (node_replacement l r) = node_blocks l + node_blocks r"
  proof (cases "l = NullNode \<or> r = NullNode")
    case True
    with assms(1,2) show ?thesis by (auto simp: node_replacement_def)
  next
    case False
    then obtain x s r' where d: "detach_successor r = (Node (Some x) NullNode s, r')"
      and x: "entry_ok x" "node_ok r'" "node_keys r = insert (e_key x) (node_keys r')"
        "\<forall>k \<in> node_keys r'. e_key x < k" "node_map r = (node_map r')(e_key x := e_value x)"
        "node_size r = node_size r' + 1" "node_blocks r = node_blocks r' + entry_blocks (Some x) + 1"
      using detach_successor_ok [OF _ assms(2)] by blast
    have "e_value x \<noteq> None" using x(1) by (auto simp: entry_ok_def)
    then have "node_map l ++ node_map r = (node_map l ++ node_map r')(e_key x := e_value x)"
      using x(5) by (auto simp: fun_eq_iff map_add_def split: option.splits)
    with False d x assms(1,3) show ?thesis
      by (simp add: node_replacement_def del: fun_upd_apply)
  qed
  then show "node_ok (node_replacement l r)"
    "node_map (node_replacement l r) = node_map l ++ node_map r"
    "node_keys (node_replacement l r) = node_keys l \<union> node_keys r"
    "node_size (node_replacement l r) = node_size l + node_size r"
    "node_blocks (node_replacement l r) = node_blocks l + node_blocks r"
    by blast+
qed

fun node_delete :: "string \<Rightarrow> tree_node \<Rightarrow> tree_node" where
  "node_delete k NullNode = NullNode"
| "node_delete k (Node e l r) =
    (if Some k = entry_key e then node_replacement l r
     else if Some k < entry_key e then Node e (node_delete k l) r
     else Node e l (node_delete k r))"

lemma node_ok_separates:
  "node_ok (Node e l r) \<Longrightarrow> a \<in> node_keys l \<Longrightarrow> b \<in> node_keys r \<Longrightarrow> a < b"
  by (erule node_okE) (meson order.strict_trans)

lemma node_delete_ok:
  assumes "node_ok n"
  shows "node_ok (node_delete k n) \<and> node_keys (node_delete k n) = node_keys n - {Some k} \<and>
    node_map (node_delete k n) = (node_map n)(Some k := None) \<and>
    node_size (node_delete k n) = node_size n - (if Some k \<in> node_keys n then 1 else 0)"
  using assms
proof (induction n)
  case NullNode
  then show ?case by simp
next
  case (Node e l r)
  from Node.prems show ?case
  proof (rule node_okE)
    fix k' d'
    assume e: "e = Some \<lparr>e_key = Some k', e_value = Some d'\<rparr>" "data_ok d'" "data_copy d' = d'"
      and ok: "node_ok l" "node_ok r"
      and lt: "\<forall>x \<in> node_keys l. x < Some k'" and gt: "\<forall>x \<in> node_keys r. Some k' < x"
    have notin: "Some k' \<notin> node_keys l" "Some k' \<notin> node_keys r" using lt gt by blast+
    note IH = Node.IH(1) [OF ok(1)] Node.IH(2) [OF ok(2)]
    consider "k = k'" | "k < k'" | "k' < k" by (metis linorder_less_linear)
    then show ?thesis
    proof cases
      case 1
      have sep: "\<forall>a \<in> node_keys l. \<forall>b \<in> node_keys r. a < b"
        using node_ok_separates [OF Node.prems] by blast
      have "(node_map l ++ node_map r) (Some k') = None"
        using notin node_map_notin ok by (auto simp: map_add_def)
      with 1 e notin node_replacement_ok [OF ok sep] show ?thesis
        by (auto simp: fun_eq_iff)
    next
      case 2
      have del: "node_delete k (Node e l r) = Node e (node_delete k l) r" using e 2 by auto
      have r: "Some k \<notin> node_keys r" "Some k \<noteq> Some k'" using 2 gt by (auto simp: less_le_not_le)
      then have "node_map r (Some k) = None" by (metis node_map_notin [OF ok(2)])
      then have m: "node_map (Node e (node_delete k l) r) = (node_map (Node e l r))(Some k := None)"
        using e r(2) IH(1) by (auto simp: fun_eq_iff map_add_def split: option.splits)
      show ?thesis
        unfolding del m using e r IH(1) ok lt gt by (auto simp: entry_ok_def \<open>data_ok d'\<close> e(3))
    next
      case 3
      have del: "node_delete k (Node e l r) = Node e l (node_delete k r)"
        using e 3 by (auto simp: less_le_not_le)
      have l: "Some k \<notin> node_keys l" "Some k \<noteq> Some k'" using 3 lt by (auto simp: less_le_not_le)
      then have "node_map l (Some k) = None" by (metis node_map_notin [OF ok(1)])
      then have m: "node_map (Node e l (node_delete k r)) = (node_map (Node e l r))(Some k := None)"
        using e l(2) IH(2) by (auto simp: fun_eq_iff map_add_def split: option.splits)
      show ?thesis
        unfolding del m using e l IH(2) ok lt gt by (auto simp: entry_ok_def \<open>data_ok d'\<close> e(3))
    qed
  qed
qed

text \<open>
  The search finds the pointer to the node of a present key, and \<^verbatim>\<open>_tree_node_del\<close> at that pointer
  deletes it as the textbook does, freeing the node, its key and its value.
\<close>

lemma tree_node_del_at_pointer:
  assumes "node_ok n"
  shows "tree_node_pointer_get n (Some k) = Some None \<and> Some k \<notin> node_keys n \<and> node_delete k n = n \<or>
    (\<exists>path. tree_node_pointer_get n (Some k) = Some (Some path) \<and> Some k \<in> node_keys n \<and>
       (\<forall>h::'z heap_scheme. tree_node_del n path h =
         Some (node_delete k n, h\<lparr>live := live h + node_blocks (node_delete k n) - node_blocks n\<rparr>)))"
  using assms
proof (induction n)
  case NullNode
  then show ?case by simp
next
  case (Node e l r)
  from Node.prems show ?case
  proof (rule node_okE)
    fix k' d'
    assume e: "e = Some \<lparr>e_key = Some k', e_value = Some d'\<rparr>"
      and ok: "node_ok l" "node_ok r"
      and lt: "\<forall>x \<in> node_keys l. x < Some k'" and gt: "\<forall>x \<in> node_keys r. Some k' < x"
    have sep: "\<forall>a \<in> node_keys l. \<forall>b \<in> node_keys r. a < b"
      using node_ok_separates [OF Node.prems] by blast
    show ?thesis
    proof (cases rule: key.cmp_cases [of "Some k" "Some k'"])
      case less
      then have "Some k \<notin> insert (Some k') (node_keys r)" using gt by (auto simp: less_le_not_le)
      with e less Node.IH(1) [OF ok(1)] show ?thesis by auto
    next
      case equal
      with e node_replacement_ok(5) [OF ok sep] show ?thesis by simp
    next
      case greater
      then have "Some k \<notin> insert (Some k') (node_keys l)" "\<not> k < k'"
        using lt by (auto simp: less_le_not_le)
      with e greater Node.IH(2) [OF ok(2)] show ?thesis by auto
    qed
  qed
qed

lemma tree_compute_height_eq:
  "node_size n \<le> INT_MAX \<Longrightarrow> tree_compute_height n = Some (node_height n)"
proof (induction n)
  case NullNode
  then show ?case by simp
next
  case (Node e l r)
  have "node_size l \<le> INT_MAX" "node_size r \<le> INT_MAX" "in_int (node_height (Node e l r))"
    using Node.prems node_size_nonneg [of l] node_size_nonneg [of r]
      node_height_less_size [of "Node e l r"] node_height_ge [of "Node e l r"]
    by (auto simp: int_range)
  with Node.IH show ?case by simp
qed

definition tree_delete :: "string \<Rightarrow> tree_t \<Rightarrow> tree_t" where
  "tree_delete k t = tree_of (node_delete k (t_root t))"

lemma tree_del_eq:
  fixes h :: "'z heap_scheme"
  assumes "tree_ok t" "t_root t \<noteq> NullNode"
  shows "tree_del (Some t) (Some k) h =
    Some (0, Some (tree_delete k t),
      h\<lparr>live := live h + tree_blocks (Some (tree_delete k t)) - tree_blocks (Some t)\<rparr>)"
proof -
  obtain n where t: "t = tree_of n" "node_ok n" "in_int (node_size n)"
    using assms(1) by (metis tree_ok_of tree_of_sel(2))
  have range: "in_int (node_size n - 1)" "node_size (node_delete k n) \<le> INT_MAX"
    using t(3) node_size_nonneg [of n] node_delete_ok [OF t(2), of k] by (auto simp: int_range)
  note del = node_delete_ok [OF t(2), of k]
  from tree_node_del_at_pointer [OF t(2), of k, where ?'z = 'z] show ?thesis
  proof (elim disjE conjE exE)
    assume "tree_node_pointer_get n (Some k) = Some None" "node_delete k n = n"
    with assms(2) t(1) show ?thesis by (simp add: tree_del_def tree_delete_def)
  next
    fix path
    assume p: "tree_node_pointer_get n (Some k) = Some (Some path)" "Some k \<in> node_keys n"
      and eq: "\<forall>h::'z heap_scheme. tree_node_del n path h =
         Some (node_delete k n, h\<lparr>live := live h + node_blocks (node_delete k n) - node_blocks n\<rparr>)"
    have "t\<lparr>t_root := node_delete k n, t_size := node_size n - 1,
        t_height := node_height (node_delete k n)\<rparr> = tree_delete k t"
      using t(1) del p(2) by (simp add: tree_delete_def tree_of_def)
    with assms(2) t(1) p eq range show ?thesis
      by (simp add: tree_del_def tree_compute_height_eq tree_delete_def)
  qed
qed

lemma tree_ok_delete: "tree_ok t \<Longrightarrow> tree_ok (tree_delete k t)"
  using node_delete_ok [of "t_root t" k] node_size_nonneg [of "t_root t"]
  by (auto simp: tree_ok_def tree_delete_def int_range)

lemma tree_map_delete: "tree_ok t \<Longrightarrow> tree_map (tree_delete k t) = (tree_map t)(k := None)"
  using node_delete_ok [of "t_root t" k]
  by (auto simp: tree_ok_def tree_delete_def tree_map_def fun_eq_iff)

section \<open>Listing the keys\<close>

fun key_list :: "tree_node \<Rightarrow> string list" where
  "key_list NullNode = []"
| "key_list (Node e l r) = key_list l @ (case entry_key e of None \<Rightarrow> [] | Some k \<Rightarrow> [k]) @ key_list r"

definition keys_array_of :: "string list \<Rightarrow> keys_array" where
  "keys_array_of ks = map (\<lambda>k. Some (Some k)) ks @ [Some None]"

lemma set_key_list: "node_ok n \<Longrightarrow> Some ` set (key_list n) = node_keys n"
  by (induction n) (auto split: option.splits elim!: entry_okE simp: image_Un image_insert)

lemma length_key_list: "node_ok n \<Longrightarrow> int (length (key_list n)) = node_size n"
  by (induction n) (auto split: option.splits elim!: entry_okE)

lemma sorted_key_list: "node_ok n \<Longrightarrow> sorted_wrt (<) (key_list n)"
proof (induction n)
  case NullNode
  then show ?case by simp
next
  case (Node e l r)
  from Node.prems show ?case
  proof (rule node_okE)
    fix k d
    assume e: "e = Some \<lparr>e_key = Some k, e_value = Some d\<rparr>" and ok: "node_ok l" "node_ok r"
      and "\<forall>x \<in> node_keys l. x < Some k" "\<forall>x \<in> node_keys r. Some k < x"
    then have "\<forall>x \<in> set (key_list l). x < k" "\<forall>x \<in> set (key_list r). k < x"
      unfolding set_key_list [OF ok(1), symmetric] set_key_list [OF ok(2), symmetric] by auto
    with e Node.IH(1) [OF ok(1)] Node.IH(2) [OF ok(2)] show ?thesis
      by (auto simp: sorted_wrt_append intro: order.strict_trans)
  qed
qed

lemma collect_keys_eq:
  assumes "node_ok n" "outcomes h = []" "length pre = i" "length (key_list n) \<le> length post"
  shows "collect_keys n (pre @ post) i h =
    Some (i + length (key_list n),
          pre @ map (\<lambda>k. Some (Some k)) (key_list n) @ drop (length (key_list n)) post,
          h\<lparr>live := live h + int (length (key_list n))\<rparr>)"
  using assms
proof (induction n arbitrary: pre post i h)
  case NullNode
  then show ?case by simp
next
  case (Node e l r)
  from Node.prems(1) show ?case
  proof (rule node_okE)
    fix k d
    assume e: "e = Some \<lparr>e_key = Some k, e_value = Some d\<rparr>" and ok: "node_ok l" "node_ok r"
    let ?ml = "map (\<lambda>k. Some (Some k)) (key_list l)"
    obtain x rest where post: "drop (length (key_list l)) post = x # rest"
      using Node.prems(4) e by (cases "drop (length (key_list l)) post") auto
    have len: "length (key_list r) \<le> length rest"
      using arg_cong [OF post, of length] Node.prems(4) e by simp
    have rest: "drop (length (key_list r)) rest = drop (length (key_list l) + (1 + length (key_list r))) post"
      using arg_cong [OF post, of "drop (Suc (length (key_list r)))"] by (simp add: add.commute)
    have upd: "(pre @ ?ml @ x # rest)[i + length (key_list l) := v] = (pre @ ?ml @ [v]) @ rest" for v
      using Node.prems(3) by (simp add: list_update_append)
    show ?thesis
      using Node.IH(1) [OF ok(1) Node.prems(2,3)] Node.prems e post len rest
        Node.IH(2) [OF ok(2), where pre = "pre @ ?ml @ [Some (Some k)]" and post = rest]
      by (simp add: store_key_def upd alloc_simps)
  qed
qed

lemma tree_get_keys_eq:
  assumes "tree_ok t" "outcomes h = []"
  shows "tree_get_keys (Some t) h =
    Some (Some (keys_array_of (key_list (t_root t))),
          h\<lparr>live := live h + 1 + int (length (key_list (t_root t)))\<rparr>)"
proof -
  let ?ks = "key_list (t_root t)"
  have ok: "node_ok (t_root t)" and len: "t_size t = int (length ?ks)"
    using assms(1) length_key_list [of "t_root t"] by (auto simp: tree_ok_def)
  have array: "replicate (nat (t_size t + 1)) None = [] @ replicate (length ?ks + 1) None"
    using len by (simp add: nat_add_distrib)
  have collect: "collect_keys (t_root t) (replicate (nat (t_size t + 1)) None) 0 (h\<lparr>live := live h + 1\<rparr>) =
    Some (length ?ks, map (\<lambda>k. Some (Some k)) ?ks @ [None], h\<lparr>live := live h + 1 + int (length ?ks)\<rparr>)"
    unfolding array using assms(2)
    by (subst collect_keys_eq [OF ok])
       (simp_all del: replicate_Suc add: replicate_Suc [of 0])
  have "0 \<le> t_size t" using len by simp
  with assms(2) show ?thesis
    by (simp add: tree_get_keys_def collect alloc_simps SIZE_OF_CHAR_POINTER_def SIZE_OF_NULL_def
        store_key_def keys_array_of_def list_update_append)
qed

lemma free_keys_loop_eq:
  "free_keys_loop (keys_array_of ks) h = Some (h\<lparr>live := live h - int (length ks)\<rparr>)"
  unfolding keys_array_of_def by (induction ks arbitrary: h) simp_all

lemma tree_free_keys_eq:
  "tree_free_keys (Some (keys_array_of ks)) h = Some (h\<lparr>live := live h - 1 - int (length ks)\<rparr>)"
  by (simp add: tree_free_keys_def free_keys_loop_eq)

lemma dom_tree_map: "tree_ok t \<Longrightarrow> dom (tree_map t) = set (key_list (t_root t))"
proof -
  assume "tree_ok t"
  then have ok: "node_ok (t_root t)" by (simp add: tree_ok_def)
  have "k \<in> dom (tree_map t) \<longleftrightarrow> Some k \<in> dom (node_map (t_root t))" for k
    by (auto simp: tree_map_def)
  also have "\<dots> k \<longleftrightarrow> k \<in> set (key_list (t_root t))" for k
    unfolding dom_node_map [OF ok] set_key_list [OF ok, symmetric] by auto
  finally show ?thesis by blast
qed

lemma tree_size_card: "tree_ok t \<Longrightarrow> t_size t = int (card (dom (tree_map t)))"
  using sorted_key_list [of "t_root t"] length_key_list [of "t_root t"]
  by (auto simp: dom_tree_map tree_ok_def strict_sorted_iff distinct_card)

lemma tree_map_valid: "tree_ok t \<Longrightarrow> tree_map t k = Some d \<Longrightarrow> data_ok d \<and> data_copy d = d"
  using tree_node_pointer_get_ok [of "t_root t" k] by (auto simp: tree_ok_def tree_map_def)

section \<open>The tree provides the store interface\<close>

lemma tree_root_empty: "tree_ok t \<Longrightarrow> t_root t = NullNode \<longleftrightarrow> tree_map t = Map.empty"
proof -
  assume "tree_ok t"
  then have "int (card (dom (tree_map t))) = node_size (t_root t)"
    by (metis tree_ok_def tree_size_card)
  then have "card (dom (tree_map t)) = 0 \<longleftrightarrow> t_root t = NullNode"
    using node_size_0 [of "t_root t"] by linarith
  moreover have "finite (dom (tree_map t))"
    by (simp add: dom_tree_map \<open>tree_ok t\<close>)
  ultimately show ?thesis by simp
qed

interpretation store: kv_store tree_put tree_get tree_del tree_map tree_ok tree_blocks
proof unfold_locales
  fix t and h :: "'z heap_scheme" and k d
  assume ok: "tree_ok t"
  show "finite (dom (tree_map t))" by (simp add: dom_tree_map ok)
  show "data_ok d \<and> data_copy d = d" if "tree_map t k = Some d"
    using tree_map_valid [OF ok that] .
  show "\<exists>t'. tree_put (Some t) (Some k) (Some d) h =
          Some (0, Some t', h\<lparr>live := live h + tree_blocks (Some t') - tree_blocks (Some t)\<rparr>) \<and>
        tree_ok t' \<and> tree_map t' = (tree_map t)(k \<mapsto> data_copy d)"
    if "data_ok d" "outcomes h = []" "int (card (dom (tree_map t))) < INT_MAX"
    using that ok tree_put_eq [OF ok that(1,2)] tree_ok_insert [OF ok, of "data_copy d" k]
      tree_map_insert [OF ok] tree_size_card [OF ok] by auto
  show "tree_get (Some t) (Some k) h =
      (case tree_map t k of
         None \<Rightarrow> Some (Some \<lparr>d_size = 0, d_data = None\<rparr>, h\<lparr>live := live h + 1\<rparr>)
       | Some d \<Rightarrow> Some (Some d, h\<lparr>live := live h + data_blocks (Some d)\<rparr>))"
    if "outcomes h = []"
    using ok that by (rule tree_get_eq)
  show "\<exists>t'. tree_del (Some t) (Some k) h =
          Some (0, Some t', h\<lparr>live := live h + tree_blocks (Some t') - tree_blocks (Some t)\<rparr>) \<and>
        tree_ok t' \<and> tree_map t' = (tree_map t)(k := None)"
    if "tree_map t \<noteq> Map.empty"
    using that ok by (auto simp: tree_del_eq tree_ok_delete tree_map_delete tree_root_empty)
  show "tree_del (Some t) (Some k) h = Some (-1, Some t, h)" if "tree_map t = Map.empty"
    using that ok by (simp add: tree_del_def tree_root_empty)
qed

section \<open>Properties\<close>

definition ex_data :: data_t where
  "ex_data = \<lparr>d_size = 2, d_data = Some [104, 105]\<rparr>"

definition ex_tree :: tree_t where
  "ex_tree = tree_insert ''a'' ex_data (tree_insert ''c'' ex_data
     (tree_insert ''b'' ex_data (tree_of NullNode)))"

lemma ex_data_ok: "data_ok ex_data" "data_copy ex_data = ex_data"
  by (simp_all add: ex_data_def data_ok_def data_copy_def INT_MAX_def)

lemma tree_ok_empty: "tree_ok (tree_of NullNode)"
  by (simp add: tree_ok_def int_range)

lemma ex_tree_eq: "ex_tree = tree_of (Node (Some \<lparr>e_key = Some ''b'', e_value = Some ex_data\<rparr>)
    (Node (Some \<lparr>e_key = Some ''a'', e_value = Some ex_data\<rparr>) NullNode NullNode)
    (Node (Some \<lparr>e_key = Some ''c'', e_value = Some ex_data\<rparr>) NullNode NullNode))"
  by (simp add: ex_tree_def tree_insert_def)

lemma ex_tree_ok: "tree_ok ex_tree" "t_size ex_tree = 3"
  by (simp_all add: ex_tree_eq tree_ok_def int_range entry_ok_def ex_data_ok)

text \<open>C2: storing a valid value under a key that is not NULL, with room for one more pair and with
  memory available, returns 0, keeps the tree well formed, updates the map at that key alone with
  an exact copy of the value, counts a new key, and owns exactly the memory it allocated.\<close>

theorem tree_put_correct:
  assumes "tree_ok t" "data_ok d" "outcomes h = []" "t_size t < INT_MAX"
  shows "\<exists>t'. tree_put (Some t) (Some k) (Some d) h =
      Some (0, Some t', h\<lparr>live := live h + tree_blocks (Some t') - tree_blocks (Some t)\<rparr>) \<and>
    tree_ok t' \<and> tree_map t' = (tree_map t)(k \<mapsto> data_copy d) \<and>
    tree_size (Some t') = tree_size (Some t) + (if k \<in> dom (tree_map t) then 0 else 1)"
proof -
  obtain t' where t': "tree_put (Some t) (Some k) (Some d) h =
      Some (0, Some t', h\<lparr>live := live h + tree_blocks (Some t') - tree_blocks (Some t)\<rparr>)"
      "tree_ok t'" "tree_map t' = (tree_map t)(k \<mapsto> data_copy d)"
    using assms tree_put_eq tree_ok_insert tree_map_insert by (metis data_copy_idem data_copy_ok)
  have "finite (dom (tree_map t))" by (simp add: dom_tree_map assms(1))
  then have "t_size t' = t_size t + (if k \<in> dom (tree_map t) then 0 else 1)"
    unfolding tree_size_card [OF t'(2)] tree_size_card [OF assms(1)] t'(3)
    by (simp add: card_insert_if)
  with t' show ?thesis by (simp add: tree_size_def)
qed

theorem tree_put_correct_witness:
  "\<exists>t'. tree_put (Some ex_tree) (Some ''d'') (Some ex_data) ex_heap =
      Some (0, Some t', ex_heap\<lparr>live := live ex_heap + tree_blocks (Some t') - tree_blocks (Some ex_tree)\<rparr>) \<and>
    tree_ok t' \<and> tree_map t' = (tree_map ex_tree)(''d'' \<mapsto> data_copy ex_data) \<and>
    tree_size (Some t') = tree_size (Some ex_tree) + (if ''d'' \<in> dom (tree_map ex_tree) then 0 else 1)"
  by (rule tree_put_correct) (simp_all add: ex_tree_ok ex_data_ok INT_MAX_def)

text \<open>After a value is stored, reading its key yields a fresh exact copy of the value, and no
  other key is affected.\<close>

theorem tree_get_after_put:
  assumes "tree_ok t" "data_ok d" "outcomes h = []" "t_size t < INT_MAX"
  shows "\<exists>t' h'. tree_put (Some t) (Some k) (Some d) h = Some (0, Some t', h') \<and>
    tree_get (Some t') (Some k) h' =
      Some (Some (data_copy d), h'\<lparr>live := live h' + data_blocks (Some d)\<rparr>) \<and>
    (\<forall>k'. k' \<noteq> k \<longrightarrow> tree_map t' k' = tree_map t k')"
  using assms tree_size_card [OF assms(1)] by (intro store.get_after_put) auto

theorem tree_get_after_put_witness:
  "\<exists>t' h'. tree_put (Some ex_tree) (Some ''b'') (Some ex_data) ex_heap = Some (0, Some t', h') \<and>
    tree_get (Some t') (Some ''b'') h' =
      Some (Some (data_copy ex_data), h'\<lparr>live := live h' + data_blocks (Some ex_data)\<rparr>) \<and>
    (\<forall>k'. k' \<noteq> ''b'' \<longrightarrow> tree_map t' k' = tree_map ex_tree k')"
  by (rule tree_get_after_put) (simp_all add: ex_tree_ok ex_data_ok INT_MAX_def)

text \<open>C3: deleting from a tree that holds a pair returns 0, removes the key from the map and
  nothing else, keeps the tree well formed and its counters exact, and frees the node, the key and
  the value it removed, whichever allocations fail.\<close>

theorem tree_del_correct:
  assumes "tree_ok t" "k \<in> dom (tree_map t)"
  shows "\<exists>t'. tree_del (Some t) (Some k) h =
      Some (0, Some t', h\<lparr>live := live h + tree_blocks (Some t') - tree_blocks (Some t)\<rparr>) \<and>
    tree_ok t' \<and> tree_map t' = (tree_map t)(k := None) \<and>
    tree_size (Some t') = tree_size (Some t) - 1 \<and>
    tree_height (Some t') = node_height (t_root t')"
proof -
  have ne: "t_root t \<noteq> NullNode" using assms by (auto simp: tree_root_empty)
  have fin: "finite (dom (tree_map t))" by (simp add: dom_tree_map assms(1))
  have "int (card (dom (tree_map t) - {k})) = int (card (dom (tree_map t))) - 1"
    using card_Suc_Diff1 [OF fin assms(2)] by linarith
  then have "t_size (tree_delete k t) = t_size t - 1"
    unfolding tree_size_card [OF tree_ok_delete [OF assms(1)]] tree_size_card [OF assms(1)]
      tree_map_delete [OF assms(1)] by (simp add: dom_fun_upd)
  then show ?thesis
    using tree_del_eq [OF assms(1) ne, of k h] tree_ok_delete [OF assms(1), of k]
      tree_map_delete [OF assms(1), of k]
    by (simp add: tree_size_def tree_height_def tree_delete_def)
qed

theorem tree_del_correct_witness:
  "\<exists>t'. tree_del (Some ex_tree) (Some ''b'') ex_heap =
      Some (0, Some t', ex_heap\<lparr>live := live ex_heap + tree_blocks (Some t') - tree_blocks (Some ex_tree)\<rparr>) \<and>
    tree_ok t' \<and> tree_map t' = (tree_map ex_tree)(''b'' := None) \<and>
    tree_size (Some t') = tree_size (Some ex_tree) - 1 \<and>
    tree_height (Some t') = node_height (t_root t')"
  by (rule tree_del_correct) (simp_all add: ex_tree_ok, simp add: ex_tree_eq tree_map_def dom_def)

text \<open>C1: a fresh tree, after any sequence of valid puts and deletes that fits an \<^verbatim>\<open>int\<close>, stands for
  the map those operations build from the empty map: its size is the number of keys, every read
  answers from that map (a missing key reads as an empty value), and destroying the tree returns
  every block it ever allocated.\<close>

theorem tree_writes_refine_map:
  assumes "outcomes h = []" "list_all op_ok ops" "int (length ops) \<le> INT_MAX"
  shows "\<exists>t0 h1 t h2. tree_create h = (Some t0, h1) \<and>
    run_writes tree_put tree_del ops (Some t0) h1 = Some (Some t, h2) \<and>
    tree_ok t \<and> tree_map t = fold apply_op ops Map.empty \<and>
    tree_size (Some t) = int (card (dom (fold apply_op ops Map.empty))) \<and>
    (\<forall>k. \<exists>h3. tree_get (Some t) (Some k) h2 =
       Some (Some (case fold apply_op ops Map.empty k of
                     None \<Rightarrow> \<lparr>d_size = 0, d_data = None\<rparr> | Some d \<Rightarrow> d), h3)) \<and>
    tree_destroy (Some t) h2 = h"
proof -
  let ?t0 = "tree_of NullNode" and ?h1 = "h\<lparr>live := live h + 1\<rparr>"
  have create: "tree_create h = (Some ?t0, ?h1)"
    using assms(1) by (simp add: tree_create_def tree_of_def SIZE_OF_TREE_T_def alloc_simps)
  have empty: "tree_map ?t0 = Map.empty" by (simp add: fun_eq_iff tree_map_def)
  obtain t where t: "run_writes tree_put tree_del ops (Some ?t0) ?h1 =
      Some (Some t, ?h1\<lparr>live := live ?h1 + tree_blocks (Some t) - tree_blocks (Some ?t0)\<rparr>)"
    "tree_ok t" "tree_map t = fold apply_op ops Map.empty"
    using store.run_writes_refines [OF tree_ok_empty assms(2), of ?h1] assms(1,3) empty by auto
  let ?h2 = "?h1\<lparr>live := live ?h1 + tree_blocks (Some t) - tree_blocks (Some ?t0)\<rparr>"
  have get: "\<exists>h3. tree_get (Some t) (Some k) ?h2 =
       Some (Some (case tree_map t k of None \<Rightarrow> \<lparr>d_size = 0, d_data = None\<rparr> | Some d \<Rightarrow> d), h3)" for k
    using tree_get_eq [OF t(2), of ?h2 k] assms(1) by (simp split: option.splits)
  have "tree_destroy (Some t) ?h2 = h"
    by (simp add: tree_destroy_eq tree_blocks_def)
  then show ?thesis
    using create t get tree_size_card [OF t(2)] by (auto simp: tree_size_def)
qed

theorem tree_writes_refine_map_witness:
  "\<exists>t0 h1 t h2. tree_create ex_heap = (Some t0, h1) \<and>
    run_writes tree_put tree_del [Put ''x'' ex_data, Put ''y'' ex_data, Del ''x''] (Some t0) h1
      = Some (Some t, h2) \<and>
    tree_ok t \<and> tree_map t = fold apply_op [Put ''x'' ex_data, Put ''y'' ex_data, Del ''x''] Map.empty \<and>
    tree_size (Some t) =
      int (card (dom (fold apply_op [Put ''x'' ex_data, Put ''y'' ex_data, Del ''x''] Map.empty))) \<and>
    (\<forall>k. \<exists>h3. tree_get (Some t) (Some k) h2 =
       Some (Some (case fold apply_op [Put ''x'' ex_data, Put ''y'' ex_data, Del ''x''] Map.empty k of
                     None \<Rightarrow> \<lparr>d_size = 0, d_data = None\<rparr> | Some d \<Rightarrow> d), h3)) \<and>
    tree_destroy (Some t) h2 = ex_heap"
  by (rule tree_writes_refine_map) (simp_all add: ex_data_ok INT_MAX_def)

text \<open>C31: the array of keys of a well-formed tree holds exactly the keys of the map, each once, in
  increasing \<^verbatim>\<open>strcmp\<close> order, closed by one \<^verbatim>\<open>NULL\<close> in the last slot allocated; freeing the array
  returns all it allocated.\<close>

theorem tree_get_keys_correct:
  assumes "tree_ok t" "outcomes h = []"
  shows "\<exists>ks h'. tree_get_keys (Some t) h = Some (Some (keys_array_of ks), h') \<and>
    set ks = dom (tree_map t) \<and> sorted_wrt (\<lambda>a b. strcmp a b < 0) ks \<and>
    int (length ks) = tree_size (Some t) \<and>
    tree_free_keys (Some (keys_array_of ks)) h' = Some h"
proof -
  let ?ks = "key_list (t_root t)"
  have "sorted_wrt (\<lambda>a b. strcmp a b < 0) ?ks" "int (length ?ks) = t_size t"
    using assms(1) sorted_key_list [of "t_root t"] length_key_list [of "t_root t"]
    by (simp_all add: strcmp_less tree_ok_def)
  with tree_get_keys_eq [OF assms] show ?thesis
    by (auto simp: tree_size_def dom_tree_map [OF assms(1)] tree_free_keys_eq intro!: exI [of _ ?ks])
qed

theorem tree_get_keys_correct_witness:
  "\<exists>ks h'. tree_get_keys (Some ex_tree) ex_heap = Some (Some (keys_array_of ks), h') \<and>
    set ks = dom (tree_map ex_tree) \<and> sorted_wrt (\<lambda>a b. strcmp a b < 0) ks \<and>
    int (length ks) = tree_size (Some ex_tree) \<and>
    tree_free_keys (Some (keys_array_of ks)) h' = Some ex_heap"
  by (rule tree_get_keys_correct) (simp_all add: ex_tree_ok)

lemma node_size_bound: "node_size n < 2 ^ nat (node_height n + 1)"
proof (induction n)
  case NullNode
  then show ?case by simp
next
  case (Node e l r)
  have mono: "(2::int) ^ nat (node_height m + 1) \<le> 2 ^ nat (max (node_height l) (node_height r) + 1)"
    if "m = l \<or> m = r" for m
    using that by (intro power_increasing nat_mono) auto
  have "nat (node_height (Node e l r) + 1) = Suc (nat (max (node_height l) (node_height r) + 1))"
    using node_height_ge [of l] node_height_ge [of r] by (auto simp: max_def)
  then have "(2::int) ^ nat (node_height (Node e l r) + 1) =
      2 * 2 ^ nat (max (node_height l) (node_height r) + 1)"
    by (simp only: power_Suc)
  with Node.IH mono [OF disjI1 [OF refl]] mono [OF disjI2 [OF refl]] show ?case
    unfolding node_size.simps by linarith
qed

text \<open>The cached height is the number of edges on the longest path, so it is below the size and
  the size is below 2 to the power height + 1.\<close>

theorem tree_height_bounds:
  assumes "tree_ok t"
  shows "-1 \<le> tree_height (Some t) \<and> tree_height (Some t) < tree_size (Some t) \<and>
    tree_size (Some t) < 2 ^ nat (tree_height (Some t) + 1)"
  using assms node_height_ge node_height_less_size node_size_bound
  by (simp add: tree_ok_def tree_height_def tree_size_def)

theorem tree_height_bounds_witness:
  "-1 \<le> tree_height (Some ex_tree) \<and> tree_height (Some ex_tree) < tree_size (Some ex_tree) \<and>
    tree_size (Some ex_tree) < 2 ^ nat (tree_height (Some ex_tree) + 1)"
  by (rule tree_height_bounds) (rule ex_tree_ok)

text \<open>What deleting a key that is not there returns: -1 on an empty tree, but 0, with the tree
  untouched, on a tree that holds other keys, although \<^verbatim>\<open>tree.h\<close> says -1 for a key not found.\<close>

theorem tree_del_missing:
  assumes "tree_ok t" "k \<notin> dom (tree_map t)"
  shows "tree_del (Some t) (Some k) h =
    Some (if tree_map t = Map.empty then -1 else 0, Some t, h)"
proof (cases "t_root t = NullNode")
  case True
  with assms(1) show ?thesis by (simp add: tree_root_empty [symmetric] tree_del_def)
next
  case False
  have ok: "node_ok (t_root t)" using assms(1) by (simp add: tree_ok_def)
  have "Some k \<notin> node_keys (t_root t)"
    using assms by (auto simp: dom_tree_map set_key_list [OF ok, symmetric])
  with tree_node_del_at_pointer [OF ok, of k, where ?'z = unit]
  have "tree_node_pointer_get (t_root t) (Some k) = Some None" by blast
  with False assms(1) show ?thesis by (simp add: tree_root_empty [symmetric] tree_del_def)
qed

theorem tree_del_missing_witness:
  "tree_del (Some ex_tree) (Some ''zz'') ex_heap =
    Some (if tree_map ex_tree = Map.empty then -1 else 0, Some ex_tree, ex_heap)"
  by (rule tree_del_missing) (simp_all add: ex_tree_ok, simp add: ex_tree_eq tree_map_def dom_def)

text \<open>C40: \<^verbatim>\<open>tree_put\<close> does not look at the results of its allocations: when copying the key finds no
  memory, it still returns 0, and an empty tree becomes a tree of size 1 whose node has no key, on
  which listing the keys is undefined (\<^verbatim>\<open>strdup(NULL)\<close>).\<close>

theorem tree_put_out_of_memory:
  assumes "data_ok d" "outcomes h = [False]"
  shows "\<exists>t' h'. tree_put (Some (tree_of NullNode)) (Some k) (Some d) h = Some (0, Some t', h') \<and>
    tree_size (Some t') = 1 \<and> tree_map t' = Map.empty \<and> \<not> tree_ok t' \<and>
    tree_get_keys (Some t') h' = None"
proof -
  have "strdup k h = (None, h\<lparr>outcomes := []\<rparr>)"
    using assms(2) by (simp add: strdup_def malloc_def)
  with assms show ?thesis
    by (simp add: tree_put_def data_dup_ok node_create_ok tree_of_def tree_size_def tree_map_def
        tree_ok_def entry_ok_def tree_get_keys_def malloc_ok SIZE_OF_CHAR_POINTER_def
        SIZE_OF_NULL_def fun_eq_iff)
qed

theorem tree_put_out_of_memory_witness:
  "\<exists>t' h'. tree_put (Some (tree_of NullNode)) (Some ''k'') (Some ex_data) (ex_heap\<lparr>outcomes := [False]\<rparr>)
      = Some (0, Some t', h') \<and>
    tree_size (Some t') = 1 \<and> tree_map t' = Map.empty \<and> \<not> tree_ok t' \<and>
    tree_get_keys (Some t') h' = None"
  by (rule tree_put_out_of_memory) (simp_all add: ex_data_ok)

end
