(* ===== verification/KV_Message.thy ===== *)
theory KV_Message
  imports KV_Tree
begin

text \<open>
  \<^verbatim>\<open>source/message-private.c\<close> over the message types that \<^verbatim>\<open>sdmessage.proto\<close> generates: building
  the messages that travel between client and server, reading them back, copying them.
  Serialization itself is done by the protobuf-c library, which is not part of the repository: it
  is a parameter here (\<^verbatim>\<open>protobuf\<close>), with what its documentation promises as the predicate
  \<^verbatim>\<open>protobuf_ok\<close>.
\<close>

section \<open>Messages\<close>

record data_message =
  dm_len :: nat
  dm_data :: "byte list option"

record nullable_string =
  ns_str :: "string option"

record entry_message =
  em_key :: "nullable_string option"
  em_value :: "data_message option"

record keys_message =
  km_n_keys :: nat
  km_keys :: "keys_array option"

text \<open>The \<^verbatim>\<open>oneof\<close>: \<^verbatim>\<open>content_case\<close> with the union member it selects; \<^verbatim>\<open>COther\<close> is a value of the
  C enum that names no member.\<close>

datatype content =
    CNone
  | CKey "string option"
  | CValue "data_message option"
  | CEntry "entry_message option"
  | CKeys "keys_message option"
  | CIntResult int
  | COpId int
  | COther int

record message =
  m_op_code :: int
  m_content :: content

text \<open>\<^verbatim>\<open>struct message_t\<close>\<close>

record message_t =
  mt_msg :: "message option"

definition OP_BAD :: int where "OP_BAD = 0"
definition OP_SIZE :: int where "OP_SIZE = 10"
definition OP_DEL :: int where "OP_DEL = 20"
definition OP_GET :: int where "OP_GET = 30"
definition OP_PUT :: int where "OP_PUT = 40"
definition OP_GETKEYS :: int where "OP_GETKEYS = 50"
definition OP_HEIGHT :: int where "OP_HEIGHT = 60"
definition OP_VERIFY :: int where "OP_VERIFY = 70"
definition OP_ERROR :: int where "OP_ERROR = 99"

lemmas op_codes = OP_BAD_def OP_SIZE_def OP_DEL_def OP_GET_def OP_PUT_def OP_GETKEYS_def
  OP_HEIGHT_def OP_VERIFY_def OP_ERROR_def

fun content_case :: "content \<Rightarrow> int" where
  "content_case CNone = 0"
| "content_case (CKey _) = 10"
| "content_case (CValue _) = 20"
| "content_case (CEntry _) = 30"
| "content_case (CKeys _) = 40"
| "content_case (CIntResult _) = 50"
| "content_case (COpId _) = 60"
| "content_case (COther n) = n"

definition SIZE_OF_DATA_MESSAGE :: int where "SIZE_OF_DATA_MESSAGE = 40"
definition SIZE_OF_NULLABLE_STRING :: int where "SIZE_OF_NULLABLE_STRING = 32"
definition SIZE_OF_ENTRY_MESSAGE :: int where "SIZE_OF_ENTRY_MESSAGE = 40"
definition SIZE_OF_KEYS_MESSAGE :: int where "SIZE_OF_KEYS_MESSAGE = 40"
definition SIZE_OF_MESSAGE :: int where "SIZE_OF_MESSAGE = 40"
definition SIZE_OF_MESSAGE_T :: int where "SIZE_OF_MESSAGE_T = 8"

lemmas message_sizes = SIZE_OF_DATA_MESSAGE_def SIZE_OF_NULLABLE_STRING_def
  SIZE_OF_ENTRY_MESSAGE_def SIZE_OF_KEYS_MESSAGE_def SIZE_OF_MESSAGE_def SIZE_OF_MESSAGE_T_def

text \<open>Conversions between \<^verbatim>\<open>int\<close> and the 64-bit \<^verbatim>\<open>size_t\<close>.\<close>

definition size_of_int :: "int \<Rightarrow> nat" where
  "size_of_int n = nat (n mod 2 ^ 64)"

definition int_of_size :: "nat \<Rightarrow> int" where
  "int_of_size n = (let m = int n mod 2 ^ 32 in if m < 2 ^ 31 then m else m - 2 ^ 32)"

section \<open>Definitions\<close>

definition data_to_msg ::
  "data_t option \<Rightarrow> 'z heap_scheme \<Rightarrow> (data_message option \<times> 'z heap_scheme) option" where
  "data_to_msg dataStruct h =
    (case dataStruct of
       None \<Rightarrow> Some (None, h)
     | Some d \<Rightarrow>
         (case malloc SIZE_OF_DATA_MESSAGE h of (ok, h) \<Rightarrow>
           if \<not> ok then Some (None, h)
           else do {
             (copied, h) \<leftarrow> copy (d_data d) (d_size d) h;
             Some (Some \<lparr>dm_len = size_of_int (d_size d), dm_data = copied\<rparr>, h)
           }))"

definition DataMessage_dup ::
  "data_message option \<Rightarrow> 'z heap_scheme \<Rightarrow> (data_message option \<times> 'z heap_scheme) option" where
  "DataMessage_dup msg h =
    (case msg of
       None \<Rightarrow> Some (None, h)
     | Some m \<Rightarrow>
         (case malloc SIZE_OF_DATA_MESSAGE h of (ok, h) \<Rightarrow>
           if \<not> ok then Some (None, h)
           else do {
             (copied, h) \<leftarrow> copy (dm_data m) (int_of_size (dm_len m)) h;
             Some (Some \<lparr>dm_len = dm_len m, dm_data = copied\<rparr>, h)
           }))"

definition msg_to_data ::
  "data_message option \<Rightarrow> 'z heap_scheme \<Rightarrow> (data_t option \<times> 'z heap_scheme) option" where
  "msg_to_data msg h =
    (case msg of
       None \<Rightarrow> Some (None, h)
     | Some m \<Rightarrow> do {
         let datasize = int_of_size (dm_len m);
         (data, h) \<leftarrow> copy (dm_data m) datasize h;
         Some (data_create2 datasize data h)
       })"

definition string_to_msg ::
  "string option \<Rightarrow> 'z heap_scheme \<Rightarrow> nullable_string option \<times> 'z heap_scheme" where
  "string_to_msg str h =
    (case str of
       None \<Rightarrow> (None, h)
     | Some s \<Rightarrow>
         (case malloc SIZE_OF_NULLABLE_STRING h of (ok, h) \<Rightarrow>
           if \<not> ok then (None, h)
           else (case strdup s h of (copied, h) \<Rightarrow> (Some \<lparr>ns_str = copied\<rparr>, h))))"

definition msg_to_string ::
  "nullable_string option \<Rightarrow> 'z heap_scheme \<Rightarrow> (string option \<times> 'z heap_scheme) option" where
  "msg_to_string msg h =
    (case msg of
       None \<Rightarrow> Some (None, h)
     | Some m \<Rightarrow> do { s \<leftarrow> ns_str m; Some (strdup s h) })"

definition entry_to_msg ::
  "entry_t option \<Rightarrow> 'z heap_scheme \<Rightarrow> (entry_message option \<times> 'z heap_scheme) option" where
  "entry_to_msg entry h =
    (case entry of
       None \<Rightarrow> Some (None, h)
     | Some e \<Rightarrow>
         (case malloc SIZE_OF_ENTRY_MESSAGE h of (ok, h) \<Rightarrow>
           if \<not> ok then Some (None, h)
           else do {
             let (key, h) = string_to_msg (e_key e) h;
             (val, h) \<leftarrow> data_to_msg (e_value e) h;
             Some (Some \<lparr>em_key = key, em_value = val\<rparr>, h)
           }))"

definition EntryMessage_dup ::
  "entry_message option \<Rightarrow> 'z heap_scheme \<Rightarrow> (entry_message option \<times> 'z heap_scheme) option" where
  "EntryMessage_dup msg h =
    (case msg of
       None \<Rightarrow> Some (None, h)
     | Some m \<Rightarrow>
         (case malloc SIZE_OF_ENTRY_MESSAGE h of (ok, h) \<Rightarrow>
           if \<not> ok then Some (None, h)
           else do {
             let (key, h) = (case em_key m of
                               None \<Rightarrow> (None, h)
                             | Some ns \<Rightarrow> string_to_msg (ns_str ns) h);
             (val, h) \<leftarrow> DataMessage_dup (em_value m) h;
             Some (Some \<lparr>em_key = key, em_value = val\<rparr>, h)
           }))"

definition msg_to_entry ::
  "entry_message option \<Rightarrow> 'z heap_scheme \<Rightarrow> (entry_t option \<times> 'z heap_scheme) option" where
  "msg_to_entry msg h =
    (case msg of
       None \<Rightarrow> Some (None, h)
     | Some m \<Rightarrow> do {
         (key, h) \<leftarrow> msg_to_string (em_key m) h;
         (val, h) \<leftarrow> msg_to_data (em_value m) h;
         Some (entry_create key val h)
       })"

text \<open>The walk to the closing \<^verbatim>\<open>NULL\<close>; running off the array or into an unwritten slot is undefined.\<close>

fun keys_count :: "keys_array \<Rightarrow> nat option" where
  "keys_count [] = None"
| "keys_count (slot # rest) = do {
     key \<leftarrow> slot;
     if key \<noteq> None then map_option Suc (keys_count rest) else Some 0
   }"

text \<open>The loop that both \<^verbatim>\<open>_str_arr_copy\<close> and \<^verbatim>\<open>msg_to_keys\<close> run: copy the next \<^verbatim>\<open>n\<close> strings.\<close>

fun copy_strings :: "keys_array \<Rightarrow> nat \<Rightarrow> 'z heap_scheme \<Rightarrow> (keys_array \<times> 'z heap_scheme) option" where
  "copy_strings arr 0 h = Some ([], h)"
| "copy_strings [] (Suc n) h = None"
| "copy_strings (slot # rest) (Suc n) h = do {
     p \<leftarrow> slot;
     str \<leftarrow> p;
     let (copied, h) = strdup str h;
     (others, h) \<leftarrow> copy_strings rest n h;
     Some (Some copied # others, h)
   }"

definition str_arr_copy ::
  "keys_array \<Rightarrow> nat \<Rightarrow> 'z heap_scheme \<Rightarrow> (keys_array option \<times> 'z heap_scheme) option" where
  "str_arr_copy str_arr arr_len h =
    (case malloc (int arr_len * SIZE_OF_CHAR_POINTER) h of (ok, h) \<Rightarrow>
      if \<not> ok then Some (None, h)
      else do { (copied, h) \<leftarrow> copy_strings str_arr arr_len h; Some (Some copied, h) })"

definition keys_to_msg ::
  "keys_array option \<Rightarrow> 'z heap_scheme \<Rightarrow> (keys_message option \<times> 'z heap_scheme) option" where
  "keys_to_msg keys h =
    (case keys of
       None \<Rightarrow> Some (None, h)
     | Some ks \<Rightarrow>
         (case malloc SIZE_OF_KEYS_MESSAGE h of (ok, h) \<Rightarrow>
           if \<not> ok then Some (None, h)
           else do {
             n \<leftarrow> keys_count ks;
             if n \<noteq> 0 then do {
               (copied, h) \<leftarrow> str_arr_copy ks n h;
               Some (Some \<lparr>km_n_keys = n, km_keys = copied\<rparr>, h)
             }
             else Some (Some \<lparr>km_n_keys = n, km_keys = None\<rparr>, h)
           }))"

definition KeysMessage_dup ::
  "keys_message option \<Rightarrow> 'z heap_scheme \<Rightarrow> (keys_message option \<times> 'z heap_scheme) option" where
  "KeysMessage_dup msg h =
    (case msg of
       None \<Rightarrow> Some (None, h)
     | Some m \<Rightarrow>
         (case malloc SIZE_OF_KEYS_MESSAGE h of (ok, h) \<Rightarrow>
           if \<not> ok then Some (None, h)
           else if km_n_keys m \<noteq> 0 then do {
             ks \<leftarrow> km_keys m;
             (copied, h) \<leftarrow> str_arr_copy ks (km_n_keys m) h;
             Some (Some \<lparr>km_n_keys = km_n_keys m, km_keys = copied\<rparr>, h)
           }
           else Some (Some \<lparr>km_n_keys = km_n_keys m, km_keys = None\<rparr>, h)))"

text \<open>The array is not checked after \<^verbatim>\<open>malloc\<close>: without memory the stores are undefined, as
  is the store of the closing \<^verbatim>\<open>NULL\<close> at a negative index.\<close>

definition msg_to_keys ::
  "keys_message option \<Rightarrow> 'z heap_scheme \<Rightarrow> (keys_array option \<times> 'z heap_scheme) option" where
  "msg_to_keys msg h =
    (case msg of
       None \<Rightarrow> Some (None, h)
     | Some m \<Rightarrow> do {
         let n_keys = int_of_size (km_n_keys m);
         let (ok, h) = malloc ((n_keys + 1) * SIZE_OF_CHAR_POINTER) h;
         if \<not> ok \<or> n_keys < 0 then None
         else do {
           (copied, h) \<leftarrow> copy_strings (case km_keys m of None \<Rightarrow> [] | Some ks \<Rightarrow> ks) (nat n_keys) h;
           Some (Some (copied @ [Some None]), h)
         }
       })"

definition Message_create :: "'z heap_scheme \<Rightarrow> message option \<times> 'z heap_scheme" where
  "Message_create h =
    (case malloc SIZE_OF_MESSAGE h of (ok, h) \<Rightarrow>
      if \<not> ok then (None, h) else (Some \<lparr>m_op_code = OP_BAD, m_content = CNone\<rparr>, h))"

definition message_create :: "'z heap_scheme \<Rightarrow> message_t option \<times> 'z heap_scheme" where
  "message_create h =
    (case Message_create h of (msg, h) \<Rightarrow>
      if msg = None then (None, h)
      else (case malloc SIZE_OF_MESSAGE_T h of (ok, h) \<Rightarrow>
        if \<not> ok then (None, free msg h) else (Some \<lparr>mt_msg = msg\<rparr>, h)))"

text \<open>The switch of \<^verbatim>\<open>Message_dup\<close>; the inner \<^verbatim>\<open>None\<close> is its \<^verbatim>\<open>default\<close>.\<close>

definition content_dup ::
  "content \<Rightarrow> 'z heap_scheme \<Rightarrow> (content option \<times> 'z heap_scheme) option" where
  "content_dup c h =
    (case c of
       CNone \<Rightarrow> Some (Some CNone, h)
     | CKey key \<Rightarrow> do { s \<leftarrow> key; let (copied, h) = strdup s h; Some (Some (CKey copied), h) }
     | CValue val \<Rightarrow> do { (copied, h) \<leftarrow> DataMessage_dup val h; Some (Some (CValue copied), h) }
     | CEntry entry \<Rightarrow> do { (copied, h) \<leftarrow> EntryMessage_dup entry h; Some (Some (CEntry copied), h) }
     | CKeys keys \<Rightarrow> do { (copied, h) \<leftarrow> KeysMessage_dup keys h; Some (Some (CKeys copied), h) }
     | CIntResult n \<Rightarrow> Some (Some (CIntResult n), h)
     | COpId n \<Rightarrow> Some (Some (COpId n), h)
     | COther n \<Rightarrow> Some (None, h))"

definition Message_dup ::
  "message option \<Rightarrow> 'z heap_scheme \<Rightarrow> (message option \<times> 'z heap_scheme) option" where
  "Message_dup msg h =
    (case Message_create h of (copied_msg, h) \<Rightarrow>
      if copied_msg = None then Some (None, h)
      else do {
        m \<leftarrow> msg;
        (c, h) \<leftarrow> content_dup (m_content m) h;
        case c of
          None \<Rightarrow> Some (None, h)
        | Some c \<Rightarrow> Some (Some \<lparr>m_op_code = m_op_code m, m_content = c\<rparr>, h)
      })"

text \<open>
  The protobuf-c library, as the sources use it: the packed bytes of a message, the message that
  unpacking a buffer builds (\<^verbatim>\<open>None\<close> for a buffer it refuses), and how many blocks
  \<^verbatim>\<open>free_unpacked\<close> gives back for a message.
\<close>

record protobuf =
  pack_data :: "data_message \<Rightarrow> byte list"
  unpack_data :: "byte list \<Rightarrow> data_message option"
  release_data :: "data_message \<Rightarrow> int"
  pack_entry :: "entry_message \<Rightarrow> byte list"
  unpack_entry :: "byte list \<Rightarrow> entry_message option"
  release_entry :: "entry_message \<Rightarrow> int"
  pack_message :: "message \<Rightarrow> byte list"
  unpack_message :: "byte list \<Rightarrow> message option"
  release_message :: "message \<Rightarrow> int"

definition Message_destroy ::
  "protobuf \<Rightarrow> message option \<Rightarrow> 'z heap_scheme \<Rightarrow> 'z heap_scheme" where
  "Message_destroy pb msg h =
    (case msg of None \<Rightarrow> h | Some m \<Rightarrow> h\<lparr>live := live h - release_message pb m\<rparr>)"

definition message_destroy ::
  "protobuf \<Rightarrow> message_t option \<Rightarrow> 'z heap_scheme \<Rightarrow> 'z heap_scheme" where
  "message_destroy pb msg h =
    (case msg of None \<Rightarrow> h | Some m \<Rightarrow> free msg (Message_destroy pb (mt_msg m) h))"

section \<open>Well-formed messages\<close>

definition nul_free :: "string \<Rightarrow> bool" where
  "nul_free s \<longleftrightarrow> CHR 0x00 \<notin> set s"

definition data_message_ok :: "data_message \<Rightarrow> bool" where
  "data_message_ok m \<longleftrightarrow> int (dm_len m) \<le> INT_MAX \<and>
    (case dm_data m of None \<Rightarrow> dm_len m = 0 | Some b \<Rightarrow> length b = dm_len m)"

definition entry_message_ok :: "entry_message \<Rightarrow> bool" where
  "entry_message_ok m \<longleftrightarrow>
    (case em_key m of
       None \<Rightarrow> True
     | Some ns \<Rightarrow> (case ns_str ns of None \<Rightarrow> False | Some s \<Rightarrow> nul_free s)) \<and>
    (case em_value m of None \<Rightarrow> True | Some v \<Rightarrow> data_message_ok v)"

definition keys_message_of :: "string list \<Rightarrow> keys_message" where
  "keys_message_of ks =
    \<lparr>km_n_keys = length ks,
     km_keys = (if ks = [] then None else Some (map (\<lambda>k. Some (Some k)) ks))\<rparr>"

definition keys_message_ok :: "keys_message \<Rightarrow> bool" where
  "keys_message_ok m \<longleftrightarrow>
    (\<exists>ks. m = keys_message_of ks \<and> list_all nul_free ks \<and> int (length ks) < INT_MAX)"

fun content_ok :: "content \<Rightarrow> bool" where
  "content_ok CNone \<longleftrightarrow> True"
| "content_ok (CKey k) \<longleftrightarrow> (case k of None \<Rightarrow> False | Some s \<Rightarrow> nul_free s)"
| "content_ok (CValue v) \<longleftrightarrow> (case v of None \<Rightarrow> False | Some m \<Rightarrow> data_message_ok m)"
| "content_ok (CEntry e) \<longleftrightarrow> (case e of None \<Rightarrow> False | Some m \<Rightarrow> entry_message_ok m)"
| "content_ok (CKeys k) \<longleftrightarrow> (case k of None \<Rightarrow> False | Some m \<Rightarrow> keys_message_ok m)"
| "content_ok (CIntResult n) \<longleftrightarrow> in_int n"
| "content_ok (COpId n) \<longleftrightarrow> in_int n"
| "content_ok (COther n) \<longleftrightarrow> False"

definition message_ok :: "message \<Rightarrow> bool" where
  "message_ok m \<longleftrightarrow> in_int (m_op_code m) \<and> content_ok (m_content m)"

text \<open>What arrives after a message has been packed and unpacked: an empty block of bytes is not
  sent, so it comes back without a block.\<close>

definition data_wire :: "data_message \<Rightarrow> data_message" where
  "data_wire m = (if dm_len m = 0 then \<lparr>dm_len = 0, dm_data = None\<rparr> else m)"

definition entry_wire :: "entry_message \<Rightarrow> entry_message" where
  "entry_wire m = m\<lparr>em_value := map_option data_wire (em_value m)\<rparr>"

fun content_wire :: "content \<Rightarrow> content" where
  "content_wire (CValue v) = CValue (map_option data_wire v)"
| "content_wire (CEntry e) = CEntry (map_option entry_wire e)"
| "content_wire c = c"

definition message_wire :: "message \<Rightarrow> message" where
  "message_wire m = m\<lparr>m_content := content_wire (m_content m)\<rparr>"

text \<open>The blocks a message owns.\<close>

definition data_message_blocks :: "data_message option \<Rightarrow> int" where
  "data_message_blocks p =
    (case p of None \<Rightarrow> 0 | Some m \<Rightarrow> 1 + (if dm_data m = None then 0 else 1))"

definition entry_message_blocks :: "entry_message option \<Rightarrow> int" where
  "entry_message_blocks p =
    (case p of
       None \<Rightarrow> 0
     | Some m \<Rightarrow> 1 + (case em_key m of None \<Rightarrow> 0 | Some ns \<Rightarrow> 1 + (if ns_str ns = None then 0 else 1))
                + data_message_blocks (em_value m))"

definition keys_message_blocks :: "keys_message option \<Rightarrow> int" where
  "keys_message_blocks p =
    (case p of
       None \<Rightarrow> 0
     | Some m \<Rightarrow> 1 + (case km_keys m of None \<Rightarrow> 0 | Some ks \<Rightarrow> 1 + int (length ks)))"

fun content_blocks :: "content \<Rightarrow> int" where
  "content_blocks (CKey k) = (if k = None then 0 else 1)"
| "content_blocks (CValue v) = data_message_blocks v"
| "content_blocks (CEntry e) = entry_message_blocks e"
| "content_blocks (CKeys k) = keys_message_blocks k"
| "content_blocks _ = 0"

definition message_blocks :: "message option \<Rightarrow> int" where
  "message_blocks p = (case p of None \<Rightarrow> 0 | Some m \<Rightarrow> 1 + content_blocks (m_content m))"

text \<open>
  What protobuf-c documents: unpacking packed bytes gives the message back (with the proto3 reading
  of empty fields), and \<^verbatim>\<open>free_unpacked\<close> frees a message with everything it owns.
\<close>

definition protobuf_ok :: "protobuf \<Rightarrow> bool" where
  "protobuf_ok pb \<longleftrightarrow>
    (\<forall>m. data_message_ok m \<longrightarrow> unpack_data pb (pack_data pb m) = Some (data_wire m)) \<and>
    (\<forall>m. entry_message_ok m \<longrightarrow> unpack_entry pb (pack_entry pb m) = Some (entry_wire m)) \<and>
    (\<forall>m. message_ok m \<longrightarrow> unpack_message pb (pack_message pb m) = Some (message_wire m)) \<and>
    (\<forall>m. release_data pb m = data_message_blocks (Some m)) \<and>
    (\<forall>m. release_entry pb m = entry_message_blocks (Some m)) \<and>
    (\<forall>m. release_message pb m = message_blocks (Some m))"

section \<open>Building and reading messages\<close>

definition msg_of_data :: "data_t \<Rightarrow> data_message" where
  "msg_of_data d = \<lparr>dm_len = nat (d_size d), dm_data = d_data (data_copy d)\<rparr>"

definition data_of_msg :: "data_message \<Rightarrow> data_t" where
  "data_of_msg m = \<lparr>d_size = int (dm_len m), d_data = dm_data m\<rparr>"

definition msg_of_entry :: "entry_t \<Rightarrow> entry_message" where
  "msg_of_entry e = \<lparr>em_key = map_option (\<lambda>k. \<lparr>ns_str = Some k\<rparr>) (e_key e),
                     em_value = map_option msg_of_data (e_value e)\<rparr>"

definition entry_of_msg :: "entry_message \<Rightarrow> entry_t" where
  "entry_of_msg m = \<lparr>e_key = (case em_key m of None \<Rightarrow> None | Some ns \<Rightarrow> ns_str ns),
                     e_value = map_option data_of_msg (em_value m)\<rparr>"

lemma copy_exact [alloc_simps]:
  "outcomes h = [] \<Longrightarrow> 0 \<le> n \<Longrightarrow> nat n \<le> length b \<Longrightarrow>
    copy (Some b) n h = Some (Some (take (nat n) b), h\<lparr>live := live h + 1\<rparr>)"
  by (simp add: copy_def alloc_simps)

lemma copy_None [simp]: "copy None n h = Some (None, h)"
  by (simp add: copy_def)

lemma size_of_int_id: "0 \<le> n \<Longrightarrow> n \<le> INT_MAX \<Longrightarrow> size_of_int n = nat n"
  by (simp add: size_of_int_def INT_MAX_def)

lemma int_of_size_id: "int n \<le> INT_MAX \<Longrightarrow> int_of_size n = int n"
  by (simp add: int_of_size_def INT_MAX_def)

lemma msg_of_data_ok: "data_ok d \<Longrightarrow> data_message_ok (msg_of_data d)"
  by (auto simp: data_ok_def data_message_ok_def msg_of_data_def data_copy_def split: option.splits)

lemma data_of_msg_ok: "data_message_ok m \<Longrightarrow> data_ok (data_of_msg m) \<and> data_copy (data_of_msg m) = data_of_msg m"
  by (auto simp: data_ok_def data_message_ok_def data_of_msg_def data_copy_def split: option.splits)

lemma data_of_msg_of_data [simp]: "data_ok d \<Longrightarrow> data_of_msg (msg_of_data d) = data_copy d"
  by (simp add: data_of_msg_def msg_of_data_def data_copy_def data_ok_def)

lemma data_to_msg_ok [alloc_simps]:
  assumes "outcomes h = []" "data_ok d"
  shows "data_to_msg (Some d) h =
    Some (Some (msg_of_data d), h\<lparr>live := live h + data_blocks (Some d)\<rparr>)"
  using assms
  by (cases "d_data d")
     (auto simp: data_to_msg_def msg_of_data_def data_copy_def data_blocks_def data_ok_def
        size_of_int_id alloc_simps message_sizes)

lemma DataMessage_dup_ok [alloc_simps]:
  assumes "outcomes h = []" "data_message_ok m"
  shows "DataMessage_dup (Some m) h =
    Some (Some m, h\<lparr>live := live h + data_message_blocks (Some m)\<rparr>)"
  using assms
  by (cases "dm_data m"; cases m)
     (auto simp: DataMessage_dup_def data_message_ok_def data_message_blocks_def int_of_size_id
        alloc_simps message_sizes)

lemma msg_to_data_ok [alloc_simps]:
  assumes "outcomes h = []" "data_message_ok m"
  shows "msg_to_data (Some m) h =
    Some (Some (data_of_msg m), h\<lparr>live := live h + data_blocks (Some (data_of_msg m))\<rparr>)"
  using assms
  by (cases "dm_data m")
     (auto simp: msg_to_data_def data_message_ok_def data_of_msg_def int_of_size_id data_blocks_def
        data_create2_def areParamsInvalid_def SIZE_OF_DATA_T_def alloc_simps)

lemma msg_to_data_None [simp]: "msg_to_data None h = Some (None, h)"
  by (simp add: msg_to_data_def)

lemma data_to_msg_None [simp]: "data_to_msg None h = Some (None, h)"
  by (simp add: data_to_msg_def)

lemma DataMessage_dup_None [simp]: "DataMessage_dup None h = Some (None, h)"
  by (simp add: DataMessage_dup_def)

lemma string_to_msg_ok [alloc_simps]:
  "outcomes h = [] \<Longrightarrow> string_to_msg s h =
    (map_option (\<lambda>k. \<lparr>ns_str = Some k\<rparr>) s, h\<lparr>live := live h + (if s = None then 0 else 2)\<rparr>)"
  by (cases s) (simp_all add: string_to_msg_def alloc_simps message_sizes)

text \<open>The entries a message can carry faithfully.\<close>

definition entry_sendable :: "entry_t \<Rightarrow> bool" where
  "entry_sendable e \<longleftrightarrow> (\<forall>k. e_key e = Some k \<longrightarrow> nul_free k) \<and> (\<forall>d. e_value e = Some d \<longrightarrow> data_ok d)"

lemma msg_of_entry_ok: "entry_sendable e \<Longrightarrow> entry_message_ok (msg_of_entry e)"
  by (auto simp: entry_sendable_def entry_message_ok_def msg_of_entry_def msg_of_data_ok
      split: option.splits)

lemma entry_to_msg_ok [alloc_simps]:
  assumes "outcomes h = []" "entry_sendable e"
  shows "entry_to_msg (Some e) h =
    Some (Some (msg_of_entry e),
          h\<lparr>live := live h + entry_message_blocks (Some (msg_of_entry e))\<rparr>)"
  using assms
  by (cases "e_value e"; cases "e_key e")
     (auto simp: entry_to_msg_def msg_of_entry_def entry_sendable_def alloc_simps message_sizes
        entry_message_blocks_def data_message_blocks_def data_blocks_def msg_of_data_def data_copy_def)

lemma msg_to_entry_ok:
  assumes "outcomes h = []" "entry_message_ok m"
  shows "msg_to_entry (Some m) h =
    Some (Some (entry_of_msg m), h\<lparr>live := live h + entry_blocks (Some (entry_of_msg m))\<rparr>)"
  using assms
  by (cases "em_key m"; cases "em_value m")
     (auto simp: msg_to_entry_def msg_to_string_def entry_of_msg_def entry_message_ok_def
        entry_blocks_def alloc_simps split: option.splits)

lemma EntryMessage_dup_ok:
  assumes "outcomes h = []" "entry_message_ok m"
  shows "EntryMessage_dup (Some m) h =
    Some (Some m, h\<lparr>live := live h + entry_message_blocks (Some m)\<rparr>)"
  using assms
  by (cases "em_key m"; cases "em_value m"; cases m)
     (auto simp: EntryMessage_dup_def entry_message_ok_def entry_message_blocks_def alloc_simps
        message_sizes data_message_blocks_def split: option.splits)

lemma keys_count_eq [simp]: "keys_count (keys_array_of ks) = Some (length ks)"
  unfolding keys_array_of_def by (induction ks) simp_all

lemma copy_strings_ok [alloc_simps]:
  "outcomes h = [] \<Longrightarrow> copy_strings (map (\<lambda>k. Some (Some k)) ks @ rest) (length ks) h =
    Some (map (\<lambda>k. Some (Some k)) ks, h\<lparr>live := live h + int (length ks)\<rparr>)"
  by (induction ks arbitrary: h) (simp_all add: alloc_simps)

lemma str_arr_copy_ok [alloc_simps]:
  "outcomes h = [] \<Longrightarrow> str_arr_copy (map (\<lambda>k. Some (Some k)) ks @ rest) (length ks) h =
    Some (Some (map (\<lambda>k. Some (Some k)) ks), h\<lparr>live := live h + 1 + int (length ks)\<rparr>)"
  by (simp add: str_arr_copy_def alloc_simps SIZE_OF_CHAR_POINTER_def copy_strings_ok)

lemmas copy_strings_all [alloc_simps] = copy_strings_ok [where rest = "[]", simplified]
lemmas str_arr_copy_all [alloc_simps] = str_arr_copy_ok [where rest = "[]", simplified]
lemmas str_arr_copy_keys [alloc_simps] = str_arr_copy_ok [where rest = "[Some None]"]

lemma keys_to_msg_ok:
  assumes "outcomes h = []"
  shows "keys_to_msg (Some (keys_array_of ks)) h =
    Some (Some (keys_message_of ks),
          h\<lparr>live := live h + keys_message_blocks (Some (keys_message_of ks))\<rparr>)"
  using assms
  by (simp add: keys_to_msg_def keys_message_of_def keys_message_blocks_def alloc_simps message_sizes)
     (simp add: keys_array_of_def alloc_simps)

lemma msg_to_keys_ok:
  assumes "outcomes h = []" "int (length ks) < INT_MAX"
  shows "msg_to_keys (Some (keys_message_of ks)) h =
    Some (Some (keys_array_of ks), h\<lparr>live := live h + 1 + int (length ks)\<rparr>)"
  using assms
  by (auto simp: msg_to_keys_def keys_message_of_def int_of_size_id alloc_simps
      SIZE_OF_CHAR_POINTER_def keys_array_of_def)

lemma KeysMessage_dup_ok:
  assumes "outcomes h = []" "keys_message_ok m"
  shows "KeysMessage_dup (Some m) h =
    Some (Some m, h\<lparr>live := live h + keys_message_blocks (Some m)\<rparr>)"
proof -
  obtain ks where m: "m = keys_message_of ks" using assms(2) by (auto simp: keys_message_ok_def)
  from assms(1) show ?thesis
    by (auto simp: m KeysMessage_dup_def keys_message_of_def keys_message_blocks_def alloc_simps
        message_sizes)
qed

lemma Message_create_ok [alloc_simps]:
  "outcomes h = [] \<Longrightarrow>
    Message_create h = (Some \<lparr>m_op_code = OP_BAD, m_content = CNone\<rparr>, h\<lparr>live := live h + 1\<rparr>)"
  by (simp add: Message_create_def alloc_simps message_sizes)

lemma message_create_ok [alloc_simps]:
  "outcomes h = [] \<Longrightarrow> message_create h =
    (Some \<lparr>mt_msg = Some \<lparr>m_op_code = OP_BAD, m_content = CNone\<rparr>\<rparr>, h\<lparr>live := live h + 2\<rparr>)"
  by (simp add: message_create_def alloc_simps message_sizes)

lemma content_dup_ok:
  assumes "outcomes h = []" "content_ok c"
  shows "content_dup c h = Some (Some c, h\<lparr>live := live h + content_blocks c\<rparr>)"
  using assms
  by (cases c)
     (auto simp: content_dup_def alloc_simps EntryMessage_dup_ok KeysMessage_dup_ok split: option.splits)

lemma Message_dup_ok [alloc_simps]:
  assumes "outcomes h = []" "message_ok m"
  shows "Message_dup (Some m) h = Some (Some m, h\<lparr>live := live h + message_blocks (Some m)\<rparr>)"
  using assms
  by (cases m)
     (simp add: Message_dup_def alloc_simps content_dup_ok message_ok_def message_blocks_def)

section \<open>Properties\<close>

text \<open>With memory available, \<^verbatim>\<open>Message_dup\<close> returns a message with the same code and the same
  contents, field by field, for every well-formed message of every content case, and destroying the
  copy frees every block that making it took.\<close>

theorem Message_dup_faithful:
  assumes "protobuf_ok pb" "outcomes h = []" "message_ok m"
  shows "\<exists>h'. Message_dup (Some m) h = Some (Some m, h') \<and> Message_destroy pb (Some m) h' = h"
  using assms by (simp add: Message_dup_ok Message_destroy_def protobuf_ok_def)

text \<open>An entry that is turned into a message and back is the same key with an exact copy of the
  value, \<^verbatim>\<open>NULL\<close> keys and \<^verbatim>\<open>NULL\<close> values included.\<close>

theorem entry_message_roundtrip:
  assumes "outcomes h = []" "entry_sendable e"
  shows "\<exists>m h1 h2. entry_to_msg (Some e) h = Some (Some m, h1) \<and>
    msg_to_entry (Some m) h1 =
      Some (Some \<lparr>e_key = e_key e, e_value = map_option data_copy (e_value e)\<rparr>, h2)"
proof -
  have "entry_of_msg (msg_of_entry e) = \<lparr>e_key = e_key e, e_value = map_option data_copy (e_value e)\<rparr>"
    using assms(2)
    by (cases "e_key e"; cases "e_value e")
       (simp_all add: entry_of_msg_def msg_of_entry_def entry_sendable_def)
  with assms show ?thesis
    by (simp add: entry_to_msg_ok msg_to_entry_ok msg_of_entry_ok)
qed

theorem entry_message_roundtrip_witness:
  "\<exists>m h1 h2. entry_to_msg (Some \<lparr>e_key = Some ''k'', e_value = Some ex_data\<rparr>) ex_heap = Some (Some m, h1) \<and>
    msg_to_entry (Some m) h1 =
      Some (Some \<lparr>e_key = e_key \<lparr>e_key = Some ''k'', e_value = Some ex_data\<rparr>,
                  e_value = map_option data_copy (e_value \<lparr>e_key = Some ''k'', e_value = Some ex_data\<rparr>)\<rparr>, h2)"
  by (rule entry_message_roundtrip) (simp_all add: entry_sendable_def ex_data_ok nul_free_def)

text \<open>An array of keys that is turned into a message and back is the same array, with its closing
  \<^verbatim>\<open>NULL\<close>, the empty array included.\<close>

theorem keys_message_roundtrip:
  assumes "outcomes h = []" "int (length ks) < INT_MAX"
  shows "\<exists>m h1 h2. keys_to_msg (Some (keys_array_of ks)) h = Some (Some m, h1) \<and>
    msg_to_keys (Some m) h1 = Some (Some (keys_array_of ks), h2)"
  using assms by (simp add: keys_to_msg_ok msg_to_keys_ok)

theorem keys_message_roundtrip_witness:
  "\<exists>m h1 h2. keys_to_msg (Some (keys_array_of [''a'', ''b''])) ex_heap = Some (Some m, h1) \<and>
    msg_to_keys (Some m) h1 = Some (Some (keys_array_of [''a'', ''b'']), h2)"
  by (rule keys_message_roundtrip) (simp_all add: INT_MAX_def)

end
