(* ===== verification/KV_Wire.thy ===== *)
theory KV_Wire
  imports KV_Message
begin

text \<open>
  The wire format of \<^verbatim>\<open>sdmessage.proto\<close>: base-128 varints, tagged fields, nested messages as
  length-delimited fields, with the field numbers of the descriptors in \<^verbatim>\<open>sdmessage.pb-c.c\<close>. The
  theory builds from them one concrete serialization and proves that it keeps the contract
  \<^verbatim>\<open>protobuf_ok\<close>, so that the contract can be met and every theorem that assumes it applies to a
  real encoding. No other definition of the development depends on it.
\<close>

section \<open>Varints and fields\<close>

fun varint :: "nat \<Rightarrow> byte list" where
  "varint n = (if n < 128 then [of_nat n] else of_nat (n mod 128 + 128) # varint (n div 128))"

declare varint.simps [simp del]

fun unvarint :: "byte list \<Rightarrow> (nat \<times> byte list) option" where
  "unvarint [] = None"
| "unvarint (b # bs) =
    (if unat b < 128 then Some (unat b, bs)
     else do { (n, rest) \<leftarrow> unvarint bs; Some (unat b - 128 + 128 * n, rest) })"

lemma unat_byte: "k < 256 \<Longrightarrow> unat (of_nat k :: byte) = k"
  by (simp add: unat_of_nat)

lemma unvarint_varint [simp]: "unvarint (varint n @ rest) = Some (n, rest)"
proof (induction n rule: varint.induct)
  case (1 n)
  show ?case
  proof (cases "n < 128")
    case True
    then show ?thesis by (simp add: varint.simps [of n] unat_byte)
  next
    case False
    then have "unvarint (varint (n div 128) @ rest) = Some (n div 128, rest)" by (rule "1.IH")
    moreover have "unat (of_nat (n mod 128 + 128) :: byte) = n mod 128 + 128"
      using mod_less_divisor [of 128 n] by (intro unat_byte) simp
    ultimately show ?thesis
      using False by (simp add: varint.simps [of n] del: of_nat_add)
  qed
qed

lemma varint_short: "n < 128 \<Longrightarrow> varint n = [of_nat n]"
  "128 \<le> n \<Longrightarrow> n < 16384 \<Longrightarrow> varint n = [of_nat (n mod 128 + 128), of_nat (n div 128)]"
  by (simp_all add: varint.simps [of n] varint.simps [of "n div 128"])

lemma varint_nonempty [simp]: "varint n \<noteq> []"
  by (subst varint.simps) simp

datatype field = Varint nat | Bytes "byte list"

fun enc_field :: "nat \<times> field \<Rightarrow> byte list" where
  "enc_field (num, Varint v) = varint (num * 8) @ varint v"
| "enc_field (num, Bytes b) = varint (num * 8 + 2) @ varint (length b) @ b"

definition dec_field :: "byte list \<Rightarrow> ((nat \<times> field) \<times> byte list) option" where
  "dec_field bs = do {
     (tag, bs) \<leftarrow> unvarint bs;
     if tag mod 8 = 0 then do { (v, bs) \<leftarrow> unvarint bs; Some ((tag div 8, Varint v), bs) }
     else if tag mod 8 = 2 then do {
       (n, bs) \<leftarrow> unvarint bs;
       if n \<le> length bs then Some ((tag div 8, Bytes (take n bs)), drop n bs) else None
     }
     else None
   }"

fun dec_fields :: "nat \<Rightarrow> byte list \<Rightarrow> (nat \<times> field) list option" where
  "dec_fields fuel [] = Some []"
| "dec_fields 0 (b # bs) = None"
| "dec_fields (Suc fuel) (b # bs) = do {
     (x, rest) \<leftarrow> dec_field (b # bs);
     xs \<leftarrow> dec_fields fuel rest;
     Some (x # xs)
   }"

definition enc_fields :: "(nat \<times> field) list \<Rightarrow> byte list" where
  "enc_fields fs = concat (map enc_field fs)"

definition parse_fields :: "byte list \<Rightarrow> (nat \<times> field) list option" where
  "parse_fields bs = dec_fields (length bs) bs"

lemma dec_enc_field: "dec_field (enc_field x @ rest) = Some (x, rest)"
  by (cases x rule: enc_field.cases) (simp_all add: dec_field_def, presburger)

lemma enc_field_nonempty [simp]: "enc_field x \<noteq> []"
  by (cases x rule: enc_field.cases) simp_all

lemma dec_fields_enc: "length fs \<le> fuel \<Longrightarrow> dec_fields fuel (enc_fields fs) = Some fs"
proof (induction fs arbitrary: fuel)
  case Nil
  then show ?case by (simp add: enc_fields_def)
next
  case (Cons x fs)
  then obtain f where f: "fuel = Suc f" "length fs \<le> f" by (cases fuel) auto
  obtain b bs where b: "enc_field x = b # bs" by (cases "enc_field x") auto
  have "dec_field (b # bs @ enc_fields fs) = Some (x, enc_fields fs)"
    using dec_enc_field [of x "enc_fields fs"] b by simp
  then show ?case
    using f Cons.IH [of f] b by (simp add: enc_fields_def)
qed

lemma length_enc_fields: "length fs \<le> length (enc_fields fs)"
proof (induction fs)
  case (Cons x fs)
  have "1 \<le> length (enc_field x)"
    using enc_field_nonempty [of x] by (cases "enc_field x") auto
  with Cons.IH show ?case by (simp add: enc_fields_def)
qed simp

lemma parse_enc_fields [simp]: "parse_fields (enc_fields fs) = Some fs"
  by (simp add: parse_fields_def dec_fields_enc length_enc_fields)

text \<open>The value of a field that is not repeated: its last occurrence.\<close>

definition last_field :: "nat \<Rightarrow> (nat \<times> field) list \<Rightarrow> field option" where
  "last_field num fs = map_of (rev fs) num"

section \<open>Messages as fields\<close>

definition string_bytes :: "string \<Rightarrow> byte list" where
  "string_bytes s = map byte_of_char s"

definition bytes_string :: "byte list \<Rightarrow> string" where
  "bytes_string b = map char_of_byte b"

lemma bytes_string_bytes [simp]: "bytes_string (string_bytes s) = s"
  by (simp add: bytes_string_def string_bytes_def comp_def)

lemma string_bytes_Nil [simp]: "string_bytes s = [] \<longleftrightarrow> s = []"
  by (simp add: string_bytes_def)

definition data_fields :: "data_message \<Rightarrow> (nat \<times> field) list" where
  "data_fields m =
    (case dm_data m of None \<Rightarrow> [] | Some b \<Rightarrow> if b = [] then [] else [(1, Bytes b)])"

definition fields_data :: "(nat \<times> field) list \<Rightarrow> data_message" where
  "fields_data fs =
    (case last_field 1 fs of
       Some (Bytes b) \<Rightarrow>
         if b = [] then \<lparr>dm_len = 0, dm_data = None\<rparr> else \<lparr>dm_len = length b, dm_data = Some b\<rparr>
     | _ \<Rightarrow> \<lparr>dm_len = 0, dm_data = None\<rparr>)"

definition wire_pack_data :: "data_message \<Rightarrow> byte list" where
  "wire_pack_data m = enc_fields (data_fields m)"

definition wire_unpack_data :: "byte list \<Rightarrow> data_message option" where
  "wire_unpack_data b = map_option fields_data (parse_fields b)"

definition nullable_fields :: "nullable_string \<Rightarrow> (nat \<times> field) list" where
  "nullable_fields m =
    (case ns_str m of None \<Rightarrow> [] | Some s \<Rightarrow> if s = [] then [] else [(1, Bytes (string_bytes s))])"

definition fields_nullable :: "(nat \<times> field) list \<Rightarrow> nullable_string" where
  "fields_nullable fs =
    \<lparr>ns_str = Some (case last_field 1 fs of Some (Bytes b) \<Rightarrow> bytes_string b | _ \<Rightarrow> [])\<rparr>"

definition wire_pack_entry :: "entry_message \<Rightarrow> byte list" where
  "wire_pack_entry m = enc_fields
    ((case em_key m of None \<Rightarrow> [] | Some ns \<Rightarrow> [(1, Bytes (enc_fields (nullable_fields ns)))]) @
     (case em_value m of None \<Rightarrow> [] | Some v \<Rightarrow> [(2, Bytes (wire_pack_data v))]))"

definition wire_unpack_entry :: "byte list \<Rightarrow> entry_message option" where
  "wire_unpack_entry b = do {
     fs \<leftarrow> parse_fields b;
     key \<leftarrow> (case last_field 1 fs of
              Some (Bytes k) \<Rightarrow> map_option (\<lambda>x. Some (fields_nullable x)) (parse_fields k)
            | _ \<Rightarrow> Some None);
     val \<leftarrow> (case last_field 2 fs of
              Some (Bytes v) \<Rightarrow> map_option Some (wire_unpack_data v)
            | _ \<Rightarrow> Some None);
     Some \<lparr>em_key = key, em_value = val\<rparr>
   }"

definition keys_of_slots :: "keys_array option \<Rightarrow> string list" where
  "keys_of_slots ks =
    (case ks of None \<Rightarrow> [] | Some xs \<Rightarrow> map (\<lambda>x. case x of Some (Some k) \<Rightarrow> k | _ \<Rightarrow> []) xs)"

definition wire_pack_keys :: "keys_message \<Rightarrow> byte list" where
  "wire_pack_keys m =
    enc_fields (map (\<lambda>k. (1, Bytes (string_bytes k))) (keys_of_slots (km_keys m)))"

definition wire_unpack_keys :: "byte list \<Rightarrow> keys_message option" where
  "wire_unpack_keys b = map_option
    (\<lambda>fs. keys_message_of (concat (map (\<lambda>(num, f). case f of Bytes k \<Rightarrow> [bytes_string k] | Varint _ \<Rightarrow> []) fs)))
    (parse_fields b)"

text \<open>Signed numbers: \<^verbatim>\<open>sint32\<close> is zigzag-coded, an enum is sign-extended to 64 bits.\<close>

definition zigzag :: "int \<Rightarrow> nat" where
  "zigzag n = (if 0 \<le> n then nat (2 * n) else nat (- 2 * n - 1))"

definition unzigzag :: "nat \<Rightarrow> int" where
  "unzigzag v = (if even v then int (v div 2) else - int ((v + 1) div 2))"

lemma unzigzag_zigzag [simp]: "unzigzag (zigzag n) = n"
proof (cases "0 \<le> n")
  case True
  then show ?thesis by (simp add: zigzag_def unzigzag_def nat_mult_distrib)
next
  case False
  then have "zigzag n = 2 * nat (- n - 1) + 1" by (simp add: zigzag_def)
  with False show ?thesis by (simp add: unzigzag_def)
qed

definition enum_varint :: "int \<Rightarrow> nat" where
  "enum_varint n = nat (n mod 2 ^ 64)"

definition varint_enum :: "nat \<Rightarrow> int" where
  "varint_enum v = int_of_size v"

lemma varint_enum_varint [simp]: "in_int n \<Longrightarrow> varint_enum (enum_varint n) = n"
proof -
  assume "in_int n"
  then have r: "- (2 ^ 31) \<le> n" "n < 2 ^ 31" by (simp_all add: int_range)
  have "(n mod 2 ^ 64) mod 2 ^ 32 = n mod (2::int) ^ 32"
    by (simp add: mod_mod_cancel le_imp_power_dvd)
  moreover have "n mod 2 ^ 32 = (if 0 \<le> n then n else n + 2 ^ 32)"
  proof (cases "0 \<le> n")
    case False
    have "(n + 2 ^ 32) mod 2 ^ 32 = n + 2 ^ 32" using r False by (intro mod_pos_pos_trivial) auto
    with False show ?thesis by simp
  qed (use r in simp)
  ultimately show ?thesis
    using r by (simp add: varint_enum_def enum_varint_def int_of_size_def Let_def)
qed

fun content_fields :: "content \<Rightarrow> (nat \<times> field) list" where
  "content_fields (CKey (Some s)) = [(10, Bytes (string_bytes s))]"
| "content_fields (CValue (Some v)) = [(20, Bytes (wire_pack_data v))]"
| "content_fields (CEntry (Some e)) = [(30, Bytes (wire_pack_entry e))]"
| "content_fields (CKeys (Some k)) = [(40, Bytes (wire_pack_keys k))]"
| "content_fields (CIntResult n) = [(50, Varint (zigzag n))]"
| "content_fields (COpId n) = [(60, Varint (zigzag n))]"
| "content_fields _ = []"

definition wire_pack_message :: "message \<Rightarrow> byte list" where
  "wire_pack_message m = enc_fields
    ((if m_op_code m = 0 then [] else [(1, Varint (enum_varint (m_op_code m)))]) @
     content_fields (m_content m))"

fun field_content :: "nat \<times> field \<Rightarrow> content option" where
  "field_content (num, Bytes b) =
    (if num = 10 then Some (CKey (Some (bytes_string b)))
     else if num = 20 then map_option (\<lambda>v. CValue (Some v)) (wire_unpack_data b)
     else if num = 30 then map_option (\<lambda>e. CEntry (Some e)) (wire_unpack_entry b)
     else if num = 40 then map_option (\<lambda>k. CKeys (Some k)) (wire_unpack_keys b)
     else Some CNone)"
| "field_content (num, Varint v) =
    (if num = 50 then Some (CIntResult (unzigzag v))
     else if num = 60 then Some (COpId (unzigzag v))
     else Some CNone)"

definition wire_unpack_message :: "byte list \<Rightarrow> message option" where
  "wire_unpack_message b = do {
     fs \<leftarrow> parse_fields b;
     let oneof = filter (\<lambda>(num, f). num \<in> {10, 20, 30, 40, 50, 60}) fs;
     c \<leftarrow> (if oneof = [] then Some CNone else field_content (last oneof));
     Some \<lparr>m_op_code = (case last_field 1 fs of Some (Varint v) \<Rightarrow> varint_enum v | _ \<Rightarrow> 0),
           m_content = c\<rparr>
   }"

section \<open>The contract\<close>

definition wire_protobuf :: protobuf where
  "wire_protobuf =
    \<lparr>pack_data = wire_pack_data, unpack_data = wire_unpack_data,
     release_data = (\<lambda>m. data_message_blocks (Some m)),
     pack_entry = wire_pack_entry, unpack_entry = wire_unpack_entry,
     release_entry = (\<lambda>m. entry_message_blocks (Some m)),
     pack_message = wire_pack_message, unpack_message = wire_unpack_message,
     release_message = (\<lambda>m. message_blocks (Some m))\<rparr>"

lemma wire_data: "data_message_ok m \<Longrightarrow> wire_unpack_data (wire_pack_data m) = Some (data_wire m)"
  by (cases "dm_data m"; cases m)
     (auto simp: wire_unpack_data_def wire_pack_data_def data_fields_def fields_data_def
        last_field_def data_wire_def data_message_ok_def)

lemma fields_nullable_fields:
  "ns_str ns = Some s \<Longrightarrow> fields_nullable (nullable_fields ns) = ns"
  by (cases ns) (auto simp: fields_nullable_def nullable_fields_def last_field_def)

lemma wire_entry: "entry_message_ok m \<Longrightarrow> wire_unpack_entry (wire_pack_entry m) = Some (entry_wire m)"
  by (cases "em_key m"; cases "em_value m"; cases m)
     (auto simp: wire_unpack_entry_def wire_pack_entry_def entry_message_ok_def last_field_def
        entry_wire_def fields_nullable_fields wire_data split: option.splits)

lemma keys_of_slots_map [simp]: "keys_of_slots (Some (map (\<lambda>k. Some (Some k)) ks)) = ks"
  by (simp add: keys_of_slots_def comp_def)

lemma wire_keys: "wire_unpack_keys (wire_pack_keys (keys_message_of ks)) = Some (keys_message_of ks)"
proof -
  have "keys_of_slots (km_keys (keys_message_of ks)) = ks"
    by (cases ks) (simp_all add: keys_message_of_def keys_of_slots_def comp_def)
  moreover have "concat (map (\<lambda>(num, f). case f of Bytes k \<Rightarrow> [bytes_string k] | Varint _ \<Rightarrow> [])
      (map (\<lambda>k. (1::nat, Bytes (string_bytes k))) ks)) = ks"
    by (induction ks) simp_all
  ultimately show ?thesis
    by (simp add: wire_unpack_keys_def wire_pack_keys_def)
qed

lemma field_content_wire:
  assumes "content_ok c" "content_fields c \<noteq> []"
  shows "field_content (last (content_fields c)) = Some (content_wire c)"
  using assms
  by (cases c rule: content_fields.cases)
     (auto simp: wire_data wire_entry wire_keys keys_message_ok_def)

lemma content_fields_cases:
  assumes "content_ok c"
  shows "(content_fields c = [] \<and> c = CNone) \<or>
    (\<exists>num f. content_fields c = [(num, f)] \<and> num \<in> {10, 20, 30, 40, 50, 60})"
  using assms by (cases c rule: content_fields.cases) auto

lemma wire_message:
  assumes "message_ok m"
  shows "wire_unpack_message (wire_pack_message m) = Some (message_wire m)"
proof -
  have op: "in_int (m_op_code m)" and c: "content_ok (m_content m)"
    using assms by (auto simp: message_ok_def)
  from content_fields_cases [OF c] show ?thesis
  proof (elim disjE exE conjE)
    assume "content_fields (m_content m) = []" "m_content m = CNone"
    then show ?thesis
      using op by (cases m) (auto simp: wire_unpack_message_def wire_pack_message_def
          last_field_def message_wire_def)
  next
    fix num f
    assume f: "content_fields (m_content m) = [(num, f)]" "num \<in> {10, 20, 30, 40, 50, 60}"
    have "field_content (num, f) = Some (content_wire (m_content m))"
      using field_content_wire [OF c] f by simp
    with f op show ?thesis
      by (cases m) (auto simp: wire_unpack_message_def wire_pack_message_def
          last_field_def message_wire_def Let_def)
  qed
qed

lemma protobuf_ok_wire: "protobuf_ok wire_protobuf"
  by (simp add: protobuf_ok_def wire_protobuf_def wire_data wire_entry wire_message)

definition ex_message :: message where
  "ex_message = \<lparr>m_op_code = OP_PUT + 1,
     m_content = CEntry (Some \<lparr>em_key = Some \<lparr>ns_str = Some ''k''\<rparr>,
                               em_value = Some \<lparr>dm_len = 2, dm_data = Some [7, 0]\<rparr>\<rparr>)\<rparr>"

lemma ex_message_ok: "message_ok ex_message"
  by (simp add: ex_message_def message_ok_def entry_message_ok_def data_message_ok_def nul_free_def
      op_codes int_range)

theorem Message_dup_faithful_witness:
  "\<exists>h'. Message_dup (Some ex_message) ex_heap = Some (Some ex_message, h') \<and>
    Message_destroy wire_protobuf (Some ex_message) h' = ex_heap"
  by (rule Message_dup_faithful [OF protobuf_ok_wire _ ex_message_ok]) simp

end
