(* ===== verification/KV_Bytes.thy ===== *)
theory KV_Bytes
  imports KV_Prelude
begin

text \<open>
  How the program moves numbers in and out of blocks of bytes: \<^verbatim>\<open>memcpy\<close> at an offset, the four
  bytes of an \<^verbatim>\<open>int\<close> on the little-endian machine the project is built for, and the network byte
  order of \<^verbatim>\<open>htonl\<close>. A locale states what reading a length back needs of such an encoding; it is
  interpreted for both byte orders.
\<close>

section \<open>Blocks\<close>

definition fresh_block :: "int \<Rightarrow> 'z heap_scheme \<Rightarrow> byte list" where
  "fresh_block n h = map (garbage h) [0..<nat n]"

text \<open>\<^verbatim>\<open>memcpy\<close> to and from a block at an offset; leaving the block is undefined.\<close>

definition write_at :: "int \<Rightarrow> byte list \<Rightarrow> byte list \<Rightarrow> byte list option" where
  "write_at off bs block =
    (if 0 \<le> off \<and> nat off + length bs \<le> length block
     then Some (take (nat off) block @ bs @ drop (nat off + length bs) block) else None)"

definition read_at :: "int \<Rightarrow> nat \<Rightarrow> byte list \<Rightarrow> byte list option" where
  "read_at off n block =
    (if 0 \<le> off \<and> nat off + n \<le> length block then Some (take n (drop (nat off) block)) else None)"

lemma length_fresh_block [simp]: "length (fresh_block n h) = nat n"
  by (simp add: fresh_block_def)

lemma write_at_all: "length block = length bs \<Longrightarrow> write_at 0 bs block = Some bs"
  by (simp add: write_at_def)

lemma write_at_append:
  "length pre = nat off \<Longrightarrow> 0 \<le> off \<Longrightarrow> length mid = length bs \<Longrightarrow>
    write_at off bs (pre @ mid @ post) = Some (pre @ bs @ post)"
  by (simp add: write_at_def)

lemma read_at_append:
  "length pre = nat off \<Longrightarrow> 0 \<le> off \<Longrightarrow> n = length bs \<Longrightarrow> read_at off n (pre @ bs @ post) = Some bs"
  by (simp add: read_at_def)

section \<open>Numbers of four bytes\<close>

definition int_bytes :: "int \<Rightarrow> byte list" where
  "int_bytes n = (let u = nat (n mod 2 ^ 32) in
     [of_nat (u mod 256), of_nat (u div 256 mod 256),
      of_nat (u div 256 div 256 mod 256), of_nat (u div 256 div 256 div 256)])"

fun bytes_nat :: "byte list \<Rightarrow> nat" where
  "bytes_nat [] = 0"
| "bytes_nat (b # bs) = unat b + 256 * bytes_nat bs"

definition int_wrap :: "int \<Rightarrow> int" where
  "int_wrap n = (let m = n mod 2 ^ 32 in if m < 2 ^ 31 then m else m - 2 ^ 32)"

definition bytes_int :: "byte list \<Rightarrow> int" where
  "bytes_int bs = int_wrap (int (bytes_nat bs))"

text \<open>\<^verbatim>\<open>htonl\<close> and \<^verbatim>\<open>ntohl\<close> reverse the four bytes.\<close>

definition htonl :: "int \<Rightarrow> int" where
  "htonl n = bytes_int (rev (int_bytes n))"

definition ntohl :: "int \<Rightarrow> int" where
  "ntohl n = bytes_int (rev (int_bytes n))"

lemma int_wrap_id [simp]: "in_int n \<Longrightarrow> int_wrap n = n"
proof -
  assume n: "in_int n"
  show ?thesis
  proof (cases "0 \<le> n")
    case True
    with n show ?thesis by (simp add: int_wrap_def int_range)
  next
    case False
    then have "(n + 2 ^ 32) mod 2 ^ 32 = n + 2 ^ 32"
      using n by (intro mod_pos_pos_trivial) (auto simp: int_range)
    with False n show ?thesis by (simp add: int_wrap_def int_range)
  qed
qed

lemma int_wrap_mod [simp]: "int_wrap (n mod 4294967296) = int_wrap n"
  by (simp add: int_wrap_def)

lemma length_int_bytes [simp]: "length (int_bytes n) = 4"
  by (simp add: int_bytes_def Let_def)

lemma unat_byte_less: "unat (b :: byte) < 256"
  using unsigned_less [of b] by simp

lemma bytes_nat_int_bytes: "bytes_nat (int_bytes n) = nat (n mod 2 ^ 32)"
proof -
  define u where "u = nat (n mod 2 ^ 32)"
  have "u < 2 ^ 32" using pos_mod_bound [of "2 ^ 32" n] by (simp add: u_def nat_less_iff)
  then have top: "u div 256 div 256 div 256 < 256"
    by (simp add: div_mult2_eq [symmetric] less_mult_imp_div_less)
  have "bytes_nat (int_bytes n) = u mod 256 + 256 * (u div 256 mod 256 +
      256 * (u div 256 div 256 mod 256 + 256 * (u div 256 div 256 div 256)))"
    unfolding int_bytes_def u_def [symmetric] Let_def using top by (simp add: unat_of_nat)
  also have "\<dots> = u" using mult_div_mod_eq [of 256] by (metis add.commute)
  finally show ?thesis unfolding u_def .
qed

lemma bytes_int_int_bytes [simp]: "in_int n \<Longrightarrow> bytes_int (int_bytes n) = n"
  by (simp add: bytes_int_def bytes_nat_int_bytes)

lemma bytes_nat_bound: "bytes_nat bs < 256 ^ length bs"
proof (induction bs)
  case (Cons b bs)
  have "unat b < 256" by (rule unat_byte_less)
  with Cons.IH show ?case by simp
qed simp

lemma digit_256:
  "a < 256 \<Longrightarrow> (a + 256 * x) mod 256 = a" "a < 256 \<Longrightarrow> (a + 256 * x) div 256 = (x :: nat)"
  by simp_all

lemma int_bytes_bytes_int: "length bs = 4 \<Longrightarrow> int_bytes (bytes_int bs) = bs"
proof -
  assume "length bs = 4"
  then obtain a b c d where bs: "bs = [a, b, c, d]"
    by (auto simp: numeral_eq_Suc length_Suc_conv)
  have lt: "unat a < 256" "unat b < 256" "unat c < 256" "unat d < 256"
    by (rule unat_byte_less)+
  define u where "u = unat a + 256 * (unat b + 256 * (unat c + 256 * unat d))"
  have u: "u < 2 ^ 32" using lt by (simp add: u_def)
  have "int_wrap (int u) mod 2 ^ 32 = int u"
    using u by (simp add: int_wrap_def Let_def)
  moreover have "bytes_nat bs = u" by (simp add: bs u_def)
  ultimately have "nat (bytes_int bs mod 2 ^ 32) = u"
    unfolding bytes_int_def by simp
  moreover have "u mod 256 = unat a" "u div 256 mod 256 = unat b"
    "u div 256 div 256 mod 256 = unat c" "u div 256 div 256 div 256 = unat d"
    unfolding u_def using lt by (simp_all only: digit_256 mod_less)
  ultimately show ?thesis by (simp add: int_bytes_def Let_def bs)
qed

lemma in_int_bytes_int: "in_int (bytes_int bs)"
proof -
  have "0 \<le> n mod 2 ^ 32" "n mod 2 ^ 32 < 2 ^ 32" for n :: int by simp_all
  then show ?thesis by (auto simp: bytes_int_def int_wrap_def int_range Let_def)
qed

lemma int_bytes_htonl: "int_bytes (htonl n) = rev (int_bytes n)"
  by (simp add: htonl_def int_bytes_bytes_int)

lemma ntohl_htonl [simp]: "in_int n \<Longrightarrow> ntohl (htonl n) = n"
  by (simp add: ntohl_def int_bytes_htonl)

section \<open>Reading a length back\<close>

text \<open>
  What both ends of a frame share: an encoding of numbers in a fixed number of bytes, and its
  decoding.
\<close>

locale length_codec =
  fixes enc :: "int \<Rightarrow> byte list" and dec :: "byte list \<Rightarrow> int" and width :: nat
  assumes length_enc: "length (enc n) = width"
    and dec_enc: "in_int n \<Longrightarrow> dec (enc n) = n"
begin

definition frame :: "byte list \<Rightarrow> byte list" where
  "frame payload = enc (int (length payload)) @ payload"

lemma length_frame: "length (frame payload) = width + length payload"
  by (simp add: frame_def length_enc)

lemma take_frame: "take width (frame payload @ rest) = enc (int (length payload))"
  by (simp add: frame_def length_enc)

lemma drop_frame: "drop width (frame payload @ rest) = payload @ rest"
  by (simp add: frame_def length_enc)

lemma dec_take_frame:
  "int (length payload) \<le> INT_MAX \<Longrightarrow> dec (take width (frame payload @ rest)) = int (length payload)"
  unfolding take_frame by (rule dec_enc) (simp add: int_range)

text \<open>Frames can be told apart: the first frame of a stream of bytes is determined by it.\<close>

lemma frame_inject:
  assumes "int (length p) \<le> INT_MAX" "int (length q) \<le> INT_MAX"
    and "frame p @ rest = frame q @ rest'"
  shows "p = q \<and> rest = rest'"
proof -
  have "length p = length q"
    using dec_take_frame [OF assms(1), of rest] dec_take_frame [OF assms(2), of rest'] assms(3) by simp
  with drop_frame [of p rest] drop_frame [of q rest'] assms(3) show ?thesis by simp
qed

end

interpretation host: length_codec int_bytes bytes_int 4
  by unfold_locales simp_all

interpretation network: length_codec "\<lambda>n. int_bytes (htonl n)" "\<lambda>b. ntohl (bytes_int b)" 4
  by unfold_locales (simp_all add: int_bytes_htonl ntohl_def htonl_def int_bytes_bytes_int)

end
