(* ===== verification/KV_Serialize.thy ===== *)
theory KV_Serialize
  imports KV_Wire KV_Bytes
begin

text \<open>
  \<^verbatim>\<open>source/serialization.c\<close>: blocks, entries, trees and messages as buffers of bytes and back. The
  functions of \<^verbatim>\<open>sdmessage.pb-c.c\<close> they call (\<^verbatim>\<open>pack\<close>, \<^verbatim>\<open>unpack\<close>, \<^verbatim>\<open>free_unpacked\<close> of a message
  type) are wrappers around the protobuf-c library, which is the parameter \<^verbatim>\<open>pb\<close>. The properties
  are the round trips; that of a tree shows that the pre-order dump rebuilds the same tree, node
  by node, and not only the same map.
\<close>

section \<open>Definitions\<close>

text \<open>Packing reads \<^verbatim>\<open>len\<close> bytes of every block and \<^verbatim>\<open>n_keys\<close> strings of an array of keys.\<close>

definition data_packable :: "data_message \<Rightarrow> bool" where
  "data_packable m \<longleftrightarrow> dm_len m \<le> (case dm_data m of None \<Rightarrow> 0 | Some b \<Rightarrow> length b)"

definition entry_packable :: "entry_message \<Rightarrow> bool" where
  "entry_packable m \<longleftrightarrow> (case em_value m of None \<Rightarrow> True | Some v \<Rightarrow> data_packable v)"

definition keys_packable :: "keys_message \<Rightarrow> bool" where
  "keys_packable m \<longleftrightarrow>
    km_n_keys m \<le> (case km_keys m of None \<Rightarrow> 0 | Some ks \<Rightarrow> length (takeWhile (\<lambda>k. k \<noteq> None) ks))"

fun content_packable :: "content \<Rightarrow> bool" where
  "content_packable (CValue (Some v)) = data_packable v"
| "content_packable (CEntry (Some e)) = entry_packable e"
| "content_packable (CKeys (Some k)) = keys_packable k"
| "content_packable _ = True"

definition data_message__pack :: "protobuf \<Rightarrow> data_message \<Rightarrow> byte list option" where
  "data_message__pack pb m = (if data_packable m then Some (pack_data pb m) else None)"

definition entry_message__pack :: "protobuf \<Rightarrow> entry_message \<Rightarrow> byte list option" where
  "entry_message__pack pb m = (if entry_packable m then Some (pack_entry pb m) else None)"

definition message__pack :: "protobuf \<Rightarrow> message \<Rightarrow> byte list option" where
  "message__pack pb m = (if content_packable (m_content m) then Some (pack_message pb m) else None)"

text \<open>
  Unpacking reads \<^verbatim>\<open>len\<close> bytes of the buffer and allocates the message it builds; it returns
  \<^verbatim>\<open>NULL\<close> when the bytes are no message or when it finds no memory.
\<close>

definition unpack_with ::
  "(byte list \<Rightarrow> 'm option) \<Rightarrow> ('m \<Rightarrow> int) \<Rightarrow> int \<Rightarrow> byte list \<Rightarrow> 'z heap_scheme
    \<Rightarrow> ('m option \<times> 'z heap_scheme) option" where
  "unpack_with unpack release len buffer h = do {
     bytes \<leftarrow> read_at 0 (size_of_int len) buffer;
     case unpack bytes of
       None \<Rightarrow> Some (None, h)
     | Some m \<Rightarrow>
         (case malloc (release m) h of (ok, h) \<Rightarrow>
           if ok then Some (Some m, h\<lparr>live := live h - 1 + release m\<rparr>) else Some (None, h))
   }"

definition data_message__unpack ::
  "protobuf \<Rightarrow> int \<Rightarrow> byte list \<Rightarrow> 'z heap_scheme \<Rightarrow> (data_message option \<times> 'z heap_scheme) option" where
  "data_message__unpack pb = unpack_with (unpack_data pb) (release_data pb)"

definition entry_message__unpack ::
  "protobuf \<Rightarrow> int \<Rightarrow> byte list \<Rightarrow> 'z heap_scheme \<Rightarrow> (entry_message option \<times> 'z heap_scheme) option" where
  "entry_message__unpack pb = unpack_with (unpack_entry pb) (release_entry pb)"

definition message__unpack ::
  "protobuf \<Rightarrow> int \<Rightarrow> byte list \<Rightarrow> 'z heap_scheme \<Rightarrow> (message option \<times> 'z heap_scheme) option" where
  "message__unpack pb = unpack_with (unpack_message pb) (release_message pb)"

definition data_message__free_unpacked ::
  "protobuf \<Rightarrow> data_message option \<Rightarrow> 'z heap_scheme \<Rightarrow> 'z heap_scheme" where
  "data_message__free_unpacked pb msg h =
    (case msg of None \<Rightarrow> h | Some m \<Rightarrow> h\<lparr>live := live h - release_data pb m\<rparr>)"

definition entry_message__free_unpacked ::
  "protobuf \<Rightarrow> entry_message option \<Rightarrow> 'z heap_scheme \<Rightarrow> 'z heap_scheme" where
  "entry_message__free_unpacked pb msg h =
    (case msg of None \<Rightarrow> h | Some m \<Rightarrow> h\<lparr>live := live h - release_entry pb m\<rparr>)"

text \<open>
  A \<^verbatim>\<open>char*\<close> variable is the block it points to, \<^verbatim>\<open>None\<close> while nothing has been stored in it. An
  output parameter \<^verbatim>\<open>char**\<close> is \<^verbatim>\<open>NULL\<close> or such a variable, returned with what it holds after.
\<close>

type_synonym buffer_var = "byte list option"

text \<open>The steps that the three functions \<^verbatim>\<open>*_to_buffer\<close> share: allocate \<^verbatim>\<open>buffer_size\<close> bytes and pack
  into them; the inner \<^verbatim>\<open>None\<close> is a failed allocation.\<close>

definition pack_buffer ::
  "byte list \<Rightarrow> 'z heap_scheme \<Rightarrow> ((int \<times> byte list) option \<times> 'z heap_scheme) option" where
  "pack_buffer bytes h =
    (let buffer_size = int_of_size (length bytes) in
     case malloc buffer_size h of (ok, h') \<Rightarrow>
       if \<not> ok then Some (None, h')
       else do {
         buffer \<leftarrow> write_at 0 bytes (fresh_block buffer_size h);
         Some (Some (buffer_size, buffer), h')
       })"

definition data_to_buffer ::
  "protobuf \<Rightarrow> data_t option \<Rightarrow> buffer_var option \<Rightarrow> 'z heap_scheme
    \<Rightarrow> (int \<times> buffer_var option \<times> 'z heap_scheme) option" where
  "data_to_buffer pb dataStruct data_buf h =
    (if dataStruct = None \<or> data_buf = None then Some (-1, data_buf, h)
     else do {
       (msg, h) \<leftarrow> data_to_msg dataStruct h;
       case msg of
         None \<Rightarrow> Some (-1, data_buf, h)
       | Some m \<Rightarrow> do {
           bytes \<leftarrow> data_message__pack pb m;
           (packed, h) \<leftarrow> pack_buffer bytes h;
           case packed of
             None \<Rightarrow> Some (-1, data_buf, h)
           | Some (buffer_size, buffer) \<Rightarrow>
               (let h = data_message__free_unpacked pb msg h
                in Some (buffer_size, Some (Some buffer), h))
         }
     })"

definition buffer_to_data ::
  "protobuf \<Rightarrow> byte list option \<Rightarrow> int \<Rightarrow> 'z heap_scheme \<Rightarrow> (data_t option \<times> 'z heap_scheme) option" where
  "buffer_to_data pb buffer buffer_size h =
    (case buffer of
       None \<Rightarrow> Some (None, h)
     | Some b \<Rightarrow>
         if buffer_size < 0 then Some (None, h)
         else do {
           (msg, h) \<leftarrow> data_message__unpack pb buffer_size b h;
           (data, h) \<leftarrow> msg_to_data msg h;
           let h = data_message__free_unpacked pb msg h;
           Some (data, h)
         })"

definition entry_to_buffer ::
  "protobuf \<Rightarrow> entry_t option \<Rightarrow> buffer_var option \<Rightarrow> 'z heap_scheme
    \<Rightarrow> (int \<times> buffer_var option \<times> 'z heap_scheme) option" where
  "entry_to_buffer pb entry entry_buf h =
    (if entry = None \<or> entry_buf = None then Some (-1, entry_buf, h)
     else do {
       (msg, h) \<leftarrow> entry_to_msg entry h;
       case msg of
         None \<Rightarrow> Some (-1, entry_buf, h)
       | Some m \<Rightarrow> do {
           bytes \<leftarrow> entry_message__pack pb m;
           (packed, h) \<leftarrow> pack_buffer bytes h;
           case packed of
             None \<Rightarrow> Some (-1, entry_buf, h)
           | Some (buffer_size, buffer) \<Rightarrow>
               (let h = entry_message__free_unpacked pb msg h
                in Some (buffer_size, Some (Some buffer), h))
         }
     })"

definition buffer_to_entry ::
  "protobuf \<Rightarrow> byte list option \<Rightarrow> int \<Rightarrow> 'z heap_scheme \<Rightarrow> (entry_t option \<times> 'z heap_scheme) option" where
  "buffer_to_entry pb buffer buffer_size h =
    (case buffer of
       None \<Rightarrow> Some (None, h)
     | Some b \<Rightarrow>
         if buffer_size < 0 then Some (None, h)
         else do {
           (msg, h) \<leftarrow> entry_message__unpack pb buffer_size b h;
           (entry, h) \<leftarrow> msg_to_entry msg h;
           let h = entry_message__free_unpacked pb msg h;
           Some (entry, h)
         })"

text \<open>
  The two local arrays of \<^verbatim>\<open>tree_to_buffer\<close> start with unwritten slots; reading such a slot, or
  leaving an array, is undefined. For an empty tree they have no slots, which the compiler of the
  project allows.
\<close>

fun collect_entry_bufs ::
  "protobuf \<Rightarrow> tree_node \<Rightarrow> buffer_var list \<Rightarrow> int option list \<Rightarrow> nat \<Rightarrow> 'z heap_scheme
    \<Rightarrow> (nat \<times> buffer_var list \<times> int option list \<times> 'z heap_scheme) option" where
  "collect_entry_bufs pb NullNode bufs lens next_index h = Some (next_index, bufs, lens, h)"
| "collect_entry_bufs pb (Node e l r) bufs lens next_index h =
    (if next_index < length bufs \<and> next_index < length lens then do {
       (n, entry_buf, h) \<leftarrow> entry_to_buffer pb e (Some (bufs ! next_index)) h;
       buf \<leftarrow> entry_buf;
       (i, bufs, lens, h) \<leftarrow>
         collect_entry_bufs pb l (bufs[next_index := buf]) (lens[next_index := Some n])
           (next_index + 1) h;
       collect_entry_bufs pb r bufs lens i h
     }
     else None)"

text \<open>\<^verbatim>\<open>SIZE_OF_INT\<close> is a \<^verbatim>\<open>size_t\<close>: adding it to an \<^verbatim>\<open>int\<close> computes with 64 bits and converts back.\<close>

definition SIZE_OF_INT :: nat where "SIZE_OF_INT = 4"

fun sum_lens :: "int option list \<Rightarrow> int \<Rightarrow> int option" where
  "sum_lens [] len_buffer = Some len_buffer"
| "sum_lens (slot # lens) len_buffer = do {
     len \<leftarrow> slot;
     len_buffer \<leftarrow> iadd (int_of_size (size_of_int len_buffer + SIZE_OF_INT)) len;
     sum_lens lens len_buffer
   }"

definition advance :: "int \<Rightarrow> int \<Rightarrow> int" where
  "advance current_index len =
    int_of_size (size_of_int current_index + (SIZE_OF_INT + size_of_int len))"

fun copy_entry_bufs ::
  "buffer_var list \<Rightarrow> int option list \<Rightarrow> int \<Rightarrow> byte list \<Rightarrow> 'z heap_scheme
    \<Rightarrow> (byte list \<times> 'z heap_scheme) option" where
  "copy_entry_bufs [] [] current_index buffer h = Some (buffer, h)"
| "copy_entry_bufs (buf # bufs) (slot # lens) current_index buffer h = do {
     len \<leftarrow> slot;
     buffer \<leftarrow> write_at current_index (int_bytes len) buffer;
     b \<leftarrow> buf;
     bytes \<leftarrow> read_at 0 (size_of_int len) b;
     buffer \<leftarrow> write_at (current_index + int SIZE_OF_INT) bytes buffer;
     copy_entry_bufs bufs lens (advance current_index len) buffer (free buf h)
   }"
| "copy_entry_bufs _ _ current_index buffer h = None"

definition tree_to_buffer ::
  "protobuf \<Rightarrow> tree_t option \<Rightarrow> buffer_var option \<Rightarrow> 'z heap_scheme
    \<Rightarrow> (int \<times> buffer_var option \<times> 'z heap_scheme) option" where
  "tree_to_buffer pb tree tree_buf h =
    (case tree of
       None \<Rightarrow> Some (-1, tree_buf, h)
     | Some t \<Rightarrow>
         if tree_buf = None then Some (-1, tree_buf, h)
         else if t_size t < 0 then None
         else do {
           let n = nat (t_size t);
           (i, bufs, lens, h) \<leftarrow>
             collect_entry_bufs pb (t_root t) (replicate n None) (replicate n None) 0 h;
           len_buffer \<leftarrow> sum_lens lens 0;
           let (ok, h') = malloc len_buffer h;
           if \<not> ok then Some (-1, tree_buf, h')
           else do {
             (buffer, h') \<leftarrow> copy_entry_bufs bufs lens 0 (fresh_block len_buffer h) h';
             Some (len_buffer, Some (Some buffer), h')
           }
         })"

text \<open>
  The loop of \<^verbatim>\<open>buffer_to_tree\<close>. An entry that could not be read is dereferenced all the same. An
  execution that does not leave the loop is \<^verbatim>\<open>None\<close>.
\<close>

partial_function (option) buffer_to_tree_loop ::
  "protobuf \<Rightarrow> byte list \<Rightarrow> int \<Rightarrow> tree_t option \<Rightarrow> int \<Rightarrow> 'z heap_scheme
    \<Rightarrow> (tree_t option \<times> 'z heap_scheme) option" where
  "buffer_to_tree_loop pb buffer buffer_size tree current_index h =
    (if current_index < buffer_size then do {
       len_bytes \<leftarrow> read_at current_index SIZE_OF_INT buffer;
       let len_entry = bytes_int len_bytes;
       (entry, h) \<leftarrow>
         buffer_to_entry pb (Some (drop (nat current_index + SIZE_OF_INT) buffer)) len_entry h;
       e \<leftarrow> entry;
       (result, tree, h) \<leftarrow> tree_put tree (e_key e) (e_value e) h;
       let h = entry_destroy entry h;
       buffer_to_tree_loop pb buffer buffer_size tree (advance current_index len_entry) h
     }
     else Some (tree, h))"

definition buffer_to_tree ::
  "protobuf \<Rightarrow> byte list option \<Rightarrow> int \<Rightarrow> 'z heap_scheme \<Rightarrow> (tree_t option \<times> 'z heap_scheme) option" where
  "buffer_to_tree pb buffer buffer_size h =
    (case buffer of
       None \<Rightarrow> Some (None, h)
     | Some b \<Rightarrow>
         if buffer_size \<le> 0 then Some (None, h)
         else (case tree_create h of (tree, h) \<Rightarrow>
           buffer_to_tree_loop pb b buffer_size tree 0 h))"

definition message_to_buffer ::
  "protobuf \<Rightarrow> message_t option \<Rightarrow> buffer_var option \<Rightarrow> 'z heap_scheme
    \<Rightarrow> (int \<times> buffer_var option \<times> 'z heap_scheme) option" where
  "message_to_buffer pb message message_buf h =
    (case message of
       None \<Rightarrow> Some (-1, message_buf, h)
     | Some message \<Rightarrow>
         if message_buf = None then Some (-1, message_buf, h)
         else (case mt_msg message of
             None \<Rightarrow> Some (-1, message_buf, h)
           | Some msg \<Rightarrow> do {
               bytes \<leftarrow> message__pack pb msg;
               (packed, h) \<leftarrow> pack_buffer bytes h;
               case packed of
                 None \<Rightarrow> Some (-1, message_buf, h)
               | Some (buffer_size, buffer) \<Rightarrow> Some (buffer_size, Some (Some buffer), h)
             }))"

definition buffer_to_message ::
  "protobuf \<Rightarrow> byte list option \<Rightarrow> int \<Rightarrow> 'z heap_scheme \<Rightarrow> (message_t option \<times> 'z heap_scheme) option" where
  "buffer_to_message pb buffer buffer_size h =
    (case buffer of
       None \<Rightarrow> Some (None, h)
     | Some b \<Rightarrow>
         if buffer_size < 0 then Some (None, h)
         else do {
           (msg, h) \<leftarrow> message__unpack pb buffer_size b h;
           let (ok, h) = malloc SIZE_OF_MESSAGE_T h;
           if \<not> ok then Some (None, h) else Some (Some \<lparr>mt_msg = msg\<rparr>, h)
         })"


section \<open>Packing and unpacking one message\<close>

lemma data_packable_ok: "data_message_ok m \<Longrightarrow> data_packable m"
  by (auto simp: data_message_ok_def data_packable_def split: option.splits)

lemma entry_packable_ok: "entry_message_ok m \<Longrightarrow> entry_packable m"
  by (auto simp: entry_message_ok_def entry_packable_def data_packable_ok split: option.splits)

lemma takeWhile_True [simp]: "takeWhile (\<lambda>x. True) xs = xs"
  by (induction xs) simp_all

lemma content_packable_ok: "content_ok c \<Longrightarrow> content_packable c"
proof (cases c rule: content_packable.cases)
  case (3 k)
  assume "content_ok c"
  then obtain ks where "k = keys_message_of ks" using 3 by (auto simp: keys_message_ok_def)
  then show ?thesis
    using 3 by (simp add: keys_packable_def keys_message_of_def takeWhile_map comp_def)
qed (auto simp: data_packable_ok entry_packable_ok)

lemma data_wire_ok: "data_message_ok m \<Longrightarrow> data_message_ok (data_wire m)"
  by (auto simp: data_message_ok_def data_wire_def INT_MAX_def split: option.splits)

lemma entry_wire_ok: "entry_message_ok m \<Longrightarrow> entry_message_ok (entry_wire m)"
  by (auto simp: entry_message_ok_def entry_wire_def data_wire_ok split: option.splits)

lemma blocks_nonneg [simp]: "0 \<le> data_message_blocks p" "0 \<le> entry_message_blocks q"
    "0 \<le> keys_message_blocks k" "0 \<le> content_blocks c" "0 \<le> message_blocks m"
proof -
  show d: "0 \<le> data_message_blocks p" for p
    by (simp add: data_message_blocks_def split: option.splits)
  show e: "0 \<le> entry_message_blocks q" for q
    using d by (auto simp: entry_message_blocks_def split: option.splits intro: add_nonneg_nonneg)
  show k: "0 \<le> keys_message_blocks k" for k
    by (simp add: keys_message_blocks_def split: option.splits)
  show "0 \<le> content_blocks c" for c
    by (cases c) (simp_all add: d e k)
  then show "0 \<le> message_blocks m"
    by (simp add: message_blocks_def split: option.splits)
qed

lemma pack_buffer_ok [alloc_simps]:
  "outcomes h = [] \<Longrightarrow> int (length bytes) \<le> INT_MAX \<Longrightarrow>
    pack_buffer bytes h = Some (Some (int (length bytes), bytes), h\<lparr>live := live h + 1\<rparr>)"
  by (simp add: pack_buffer_def int_of_size_id alloc_simps write_at_all)

lemma unpack_with_ok:
  assumes "outcomes h = []" "unpack b = Some m" "0 \<le> release m" "int (length b) \<le> INT_MAX"
  shows "unpack_with unpack release (int (length b)) (b @ rest) h =
    Some (Some m, h\<lparr>live := live h + release m\<rparr>)"
  using assms read_at_append [of "[]" 0 "length b" b rest]
  by (simp add: unpack_with_def size_of_int_id alloc_simps)

text \<open>What the receiver of a block gets: the declared bytes, and no block for an empty value.\<close>

definition data_received :: "data_t \<Rightarrow> data_t" where
  "data_received d = (if d_size d = 0 then \<lparr>d_size = 0, d_data = None\<rparr> else data_copy d)"

definition entry_received :: "entry_t \<Rightarrow> entry_t" where
  "entry_received e = \<lparr>e_key = e_key e, e_value = map_option data_received (e_value e)\<rparr>"

lemma data_received_ok: "data_ok d \<Longrightarrow> data_ok (data_received d) \<and> data_copy (data_received d) = data_received d"
  by (auto simp: data_received_def) (simp_all add: data_ok_def data_copy_def INT_MAX_def)

lemma data_bytes_received [simp]: "data_ok d \<Longrightarrow> data_bytes (data_received d) = data_bytes d"
  by (auto simp: data_received_def) (auto simp: data_bytes_def data_ok_def split: option.splits)

lemma data_of_received_msg:
  "data_ok d \<Longrightarrow> data_of_msg (data_wire (msg_of_data d)) = data_received d"
  by (auto simp: data_received_def data_wire_def data_of_msg_def msg_of_data_def data_copy_def data_ok_def)

lemma entry_of_received_msg:
  "entry_sendable e \<Longrightarrow> entry_of_msg (entry_wire (msg_of_entry e)) = entry_received e"
  by (cases "e_key e"; cases "e_value e")
     (simp_all add: entry_of_msg_def entry_wire_def msg_of_entry_def entry_received_def
        data_of_received_msg entry_sendable_def)

lemma data_to_buffer_ok:
  assumes "protobuf_ok pb" "outcomes h = []" "data_ok d"
    and "int (length (pack_data pb (msg_of_data d))) \<le> INT_MAX"
  shows "data_to_buffer pb (Some d) (Some v) h =
    Some (int (length (pack_data pb (msg_of_data d))), Some (Some (pack_data pb (msg_of_data d))),
          h\<lparr>live := live h + 1\<rparr>)"
  using assms msg_of_data_ok [OF assms(3)]
  by (simp add: data_to_buffer_def alloc_simps data_message__pack_def data_packable_ok
      data_message__free_unpacked_def protobuf_ok_def data_message_blocks_def data_blocks_def
      msg_of_data_def data_copy_def)

lemma buffer_to_data_ok:
  assumes "protobuf_ok pb" "outcomes h = []" "data_message_ok m"
    and "int (length (pack_data pb m)) \<le> INT_MAX"
  shows "buffer_to_data pb (Some (pack_data pb m @ rest)) (int (length (pack_data pb m))) h =
    Some (Some (data_of_msg (data_wire m)),
          h\<lparr>live := live h + data_blocks (Some (data_of_msg (data_wire m)))\<rparr>)"
proof -
  have pb: "unpack_data pb (pack_data pb m) = Some (data_wire m)"
      "release_data pb = (\<lambda>m. data_message_blocks (Some m))"
    using assms(1,3) by (auto simp: protobuf_ok_def)
  have "data_message__unpack pb (int (length (pack_data pb m))) (pack_data pb m @ rest) h =
      Some (Some (data_wire m), h\<lparr>live := live h + data_message_blocks (Some (data_wire m))\<rparr>)"
    unfolding data_message__unpack_def using assms pb by (subst unpack_with_ok) auto
  with assms(2,3) show ?thesis
    by (simp add: buffer_to_data_def msg_to_data_ok data_wire_ok data_message__free_unpacked_def pb)
qed

lemma entry_to_buffer_ok:
  assumes "protobuf_ok pb" "outcomes h = []" "entry_sendable e"
    and "int (length (pack_entry pb (msg_of_entry e))) \<le> INT_MAX"
  shows "entry_to_buffer pb (Some e) (Some v) h =
    Some (int (length (pack_entry pb (msg_of_entry e))), Some (Some (pack_entry pb (msg_of_entry e))),
          h\<lparr>live := live h + 1\<rparr>)"
  using assms msg_of_entry_ok [OF assms(3)]
  by (simp add: entry_to_buffer_def alloc_simps entry_message__pack_def entry_packable_ok
      entry_message__free_unpacked_def protobuf_ok_def)

lemma buffer_to_entry_ok:
  assumes "protobuf_ok pb" "outcomes h = []" "entry_message_ok m"
    and "int (length (pack_entry pb m)) \<le> INT_MAX"
  shows "buffer_to_entry pb (Some (pack_entry pb m @ rest)) (int (length (pack_entry pb m))) h =
    Some (Some (entry_of_msg (entry_wire m)),
          h\<lparr>live := live h + entry_blocks (Some (entry_of_msg (entry_wire m)))\<rparr>)"
proof -
  have pb: "unpack_entry pb (pack_entry pb m) = Some (entry_wire m)"
      "release_entry pb = (\<lambda>m. entry_message_blocks (Some m))"
    using assms(1,3) by (auto simp: protobuf_ok_def)
  have "entry_message__unpack pb (int (length (pack_entry pb m))) (pack_entry pb m @ rest) h =
      Some (Some (entry_wire m), h\<lparr>live := live h + entry_message_blocks (Some (entry_wire m))\<rparr>)"
    unfolding entry_message__unpack_def using assms pb by (subst unpack_with_ok) auto
  with assms(2,3) show ?thesis
    by (simp add: buffer_to_entry_def msg_to_entry_ok entry_wire_ok entry_message__free_unpacked_def pb)
qed

lemma message_to_buffer_ok:
  assumes "outcomes h = []" "message_ok m" "int (length (pack_message pb m)) \<le> INT_MAX"
  shows "message_to_buffer pb (Some \<lparr>mt_msg = Some m\<rparr>) (Some v) h =
    Some (int (length (pack_message pb m)), Some (Some (pack_message pb m)), h\<lparr>live := live h + 1\<rparr>)"
  using assms
  by (simp add: message_to_buffer_def alloc_simps message__pack_def content_packable_ok message_ok_def)

lemma buffer_to_message_ok:
  assumes "protobuf_ok pb" "outcomes h = []" "message_ok m"
    and "int (length (pack_message pb m)) \<le> INT_MAX"
  shows "buffer_to_message pb (Some (pack_message pb m @ rest)) (int (length (pack_message pb m))) h =
    Some (Some \<lparr>mt_msg = Some (message_wire m)\<rparr>,
          h\<lparr>live := live h + message_blocks (Some (message_wire m)) + 1\<rparr>)"
proof -
  have pb: "unpack_message pb (pack_message pb m) = Some (message_wire m)"
      "release_message pb = (\<lambda>m. message_blocks (Some m))"
    using assms(1,3) by (auto simp: protobuf_ok_def)
  have "message__unpack pb (int (length (pack_message pb m))) (pack_message pb m @ rest) h =
      Some (Some (message_wire m), h\<lparr>live := live h + message_blocks (Some (message_wire m))\<rparr>)"
    unfolding message__unpack_def using assms pb by (subst unpack_with_ok) auto
  with assms(2) show ?thesis
    by (simp add: buffer_to_message_def alloc_simps message_sizes)
qed


section \<open>The dump of a tree\<close>

fun entries_of :: "tree_node \<Rightarrow> entry_t list" where
  "entries_of NullNode = []"
| "entries_of (Node e l r) = (case e of None \<Rightarrow> [] | Some x \<Rightarrow> [x]) @ entries_of l @ entries_of r"

definition entry_dump :: "protobuf \<Rightarrow> entry_t \<Rightarrow> byte list" where
  "entry_dump pb e = pack_entry pb (msg_of_entry e)"

definition dump :: "protobuf \<Rightarrow> entry_t list \<Rightarrow> byte list" where
  "dump pb es = concat (map (\<lambda>e. host.frame (entry_dump pb e)) es)"

lemma dump_simps [simp]:
  "dump pb [] = []"
  "dump pb (e # es) = host.frame (entry_dump pb e) @ dump pb es"
  by (simp_all add: dump_def)

lemma dump_append [simp]: "dump pb (es @ es') = dump pb es @ dump pb es'"
  by (simp add: dump_def)

lemma length_dump: "int (length (dump pb es)) = (\<Sum>e\<leftarrow>es. 4 + int (length (entry_dump pb e)))"
  by (induction es) (simp_all add: host.length_frame)

lemma length_dump_ge: "4 * length es \<le> length (dump pb es)"
  by (induction es) (simp_all add: host.length_frame)

lemma entries_of_length: "node_ok n \<Longrightarrow> int (length (entries_of n)) = node_size n"
  by (induction n) (auto split: option.splits)

lemma entry_dump_le: "e \<in> set es \<Longrightarrow> length (entry_dump pb e) \<le> length (dump pb es)"
  by (induction es) (auto simp: host.length_frame)

lemma advance_ok:
  "0 \<le> i \<Longrightarrow> 0 \<le> n \<Longrightarrow> i + 4 + n \<le> INT_MAX \<Longrightarrow> advance i n = i + 4 + n"
  by (simp add: advance_def SIZE_OF_INT_def size_of_int_id int_of_size_id)

text \<open>The slots that a run of entries fills.\<close>

definition bufs_of :: "protobuf \<Rightarrow> entry_t list \<Rightarrow> buffer_var list" where
  "bufs_of pb es = map (\<lambda>e. Some (entry_dump pb e)) es"

definition lens_of :: "protobuf \<Rightarrow> entry_t list \<Rightarrow> int option list" where
  "lens_of pb es = map (\<lambda>e. Some (int (length (entry_dump pb e)))) es"

lemma bufs_lens_simps [simp]:
  "bufs_of pb [] = []" "bufs_of pb (e # es) = Some (entry_dump pb e) # bufs_of pb es"
  "lens_of pb [] = []" "lens_of pb (e # es) = Some (int (length (entry_dump pb e))) # lens_of pb es"
  "bufs_of pb (es @ es') = bufs_of pb es @ bufs_of pb es'"
  "lens_of pb (es @ es') = lens_of pb es @ lens_of pb es'"
  "length (bufs_of pb es) = length es" "length (lens_of pb es) = length es"
  by (simp_all add: bufs_of_def lens_of_def)

definition entries_sendable :: "protobuf \<Rightarrow> entry_t list \<Rightarrow> bool" where
  "entries_sendable pb es \<longleftrightarrow>
    (\<forall>e \<in> set es. entry_sendable e \<and> int (length (entry_dump pb e)) \<le> INT_MAX)"

lemma collect_entry_bufs_eq:
  assumes "node_ok n" "protobuf_ok pb" "outcomes h = []" "entries_sendable pb (entries_of n)"
    and "length (entries_of n) \<le> m"
  shows "collect_entry_bufs pb n (bufs_of pb es @ replicate m None)
      (lens_of pb es @ replicate m None) (length es) h =
    Some (length (es @ entries_of n),
          bufs_of pb (es @ entries_of n) @ replicate (m - length (entries_of n)) None,
          lens_of pb (es @ entries_of n) @ replicate (m - length (entries_of n)) None,
          h\<lparr>live := live h + int (length (entries_of n))\<rparr>)"
  using assms(1,3-)
proof (induction n arbitrary: es m h)
  case NullNode
  then show ?case by simp
next
  case (Node e l r)
  obtain x where x: "e = Some x" "node_ok l" "node_ok r"
    using Node.prems(1) by (auto split: option.splits)
  obtain m' where m: "m = Suc m'" "length (entries_of l) \<le> m'"
      "length (entries_of r) \<le> m' - length (entries_of l)"
    using Node.prems(4) x by (cases m) auto
  have send: "entries_sendable pb (entries_of l)" "entries_sendable pb (entries_of r)"
      "entry_sendable x" "int (length (entry_dump pb x)) \<le> INT_MAX"
    using Node.prems(3) x by (auto simp: entries_sendable_def)
  have e: "entry_to_buffer pb (Some x) (Some None) h =
      Some (int (length (entry_dump pb x)), Some (Some (entry_dump pb x)), h\<lparr>live := live h + 1\<rparr>)"
    using entry_to_buffer_ok [OF assms(2) Node.prems(2) send(3)] send(4) by (simp add: entry_dump_def)
  have l: "collect_entry_bufs pb l (bufs_of pb (es @ [x]) @ replicate m' None)
        (lens_of pb (es @ [x]) @ replicate m' None) (length (es @ [x])) (h\<lparr>live := live h + 1\<rparr>) =
      Some (length ((es @ [x]) @ entries_of l),
          bufs_of pb ((es @ [x]) @ entries_of l) @ replicate (m' - length (entries_of l)) None,
          lens_of pb ((es @ [x]) @ entries_of l) @ replicate (m' - length (entries_of l)) None,
          h\<lparr>live := live h + 1 + int (length (entries_of l))\<rparr>)"
    using Node.IH(1) [OF x(2) _ send(1) m(2), of "h\<lparr>live := live h + 1\<rparr>" "es @ [x]"] Node.prems(2)
    by simp
  have r: "collect_entry_bufs pb r
        (bufs_of pb ((es @ [x]) @ entries_of l) @ replicate (m' - length (entries_of l)) None)
        (lens_of pb ((es @ [x]) @ entries_of l) @ replicate (m' - length (entries_of l)) None)
        (length ((es @ [x]) @ entries_of l)) (h\<lparr>live := live h + 1 + int (length (entries_of l))\<rparr>) =
      Some (length (((es @ [x]) @ entries_of l) @ entries_of r),
          bufs_of pb (((es @ [x]) @ entries_of l) @ entries_of r) @
            replicate (m' - length (entries_of l) - length (entries_of r)) None,
          lens_of pb (((es @ [x]) @ entries_of l) @ entries_of r) @
            replicate (m' - length (entries_of l) - length (entries_of r)) None,
          h\<lparr>live := live h + 1 + int (length (entries_of l)) + int (length (entries_of r))\<rparr>)"
    by (subst Node.IH(2) [OF x(3) _ send(2) m(3)]) (use Node.prems(2) in simp_all)
  show ?case
    using l r by (simp add: x(1) m(1) e nth_append list_update_append add.assoc)
qed

lemma sum_lens_eq:
  assumes "0 \<le> acc" "acc + int (length (dump pb es)) \<le> INT_MAX"
  shows "sum_lens (lens_of pb es) acc = Some (acc + int (length (dump pb es)))"
  using assms
proof (induction es arbitrary: acc)
  case (Cons e es)
  have "in_int (acc + 4 + int (length (entry_dump pb e)))"
    and "int_of_size (size_of_int acc + 4) = acc + 4"
    using Cons.prems by (simp_all add: int_range host.length_frame size_of_int_id int_of_size_id)
  then show ?case
    using Cons.prems Cons.IH [of "acc + 4 + int (length (entry_dump pb e))"]
    by (simp add: host.length_frame SIZE_OF_INT_def)
qed simp

lemma copy_entry_bufs_eq:
  assumes "int (length pre) + int (length (dump pb es)) \<le> INT_MAX"
    and "length rest = length (dump pb es)"
  shows "copy_entry_bufs (bufs_of pb es) (lens_of pb es) (int (length pre)) (pre @ rest) h =
    Some (pre @ dump pb es, h\<lparr>live := live h - int (length es)\<rparr>)"
  using assms
proof (induction es arbitrary: pre rest h)
  case (Cons e es)
  let ?b = "entry_dump pb e"
  obtain r1 r2 r3 where rest: "rest = r1 @ r2 @ r3" "length r1 = 4" "length r2 = length ?b"
      "length r3 = length (dump pb es)"
  proof (rule that)
    show "rest = take 4 rest @ take (length ?b) (drop 4 rest) @ drop (length ?b) (drop 4 rest)"
      by (metis append_take_drop_id)
  qed (use Cons.prems(2) in \<open>simp_all add: host.length_frame\<close>)
  let ?pre = "(pre @ int_bytes (int (length ?b))) @ ?b"
  have w1: "write_at (int (length pre)) (int_bytes (int (length ?b))) (pre @ rest) =
      Some (pre @ int_bytes (int (length ?b)) @ r2 @ r3)"
    using write_at_append [of pre "int (length pre)" r1 "int_bytes (int (length ?b))" "r2 @ r3"] rest
    by simp
  have w2: "write_at (int (length pre) + 4) ?b (pre @ int_bytes (int (length ?b)) @ r2 @ r3) =
      Some (?pre @ r3)"
    using write_at_append [of "pre @ int_bytes (int (length ?b))" "int (length pre) + 4" r2 ?b r3] rest
    by (simp add: nat_add_distrib)
  have adv: "advance (int (length pre)) (int (length ?b)) = int (length ?pre)"
    using Cons.prems(1) by (simp add: advance_ok host.length_frame)
  have "size_of_int (int (length ?b)) = length ?b"
    using Cons.prems(1) by (simp add: size_of_int_id host.length_frame)
  moreover have "read_at 0 (length ?b) ?b = Some ?b"
    using read_at_append [of "[]" 0 "length ?b" ?b "[]"] by simp
  moreover have "copy_entry_bufs (bufs_of pb es) (lens_of pb es) (int (length ?pre)) (?pre @ r3)
      (h\<lparr>live := live h - 1\<rparr>) = Some (?pre @ dump pb es, h\<lparr>live := live h - 1 - int (length es)\<rparr>)"
    using Cons.prems(1) rest(4) by (subst Cons.IH) (simp_all add: host.length_frame)
  ultimately show ?case
    unfolding bufs_lens_simps copy_entry_bufs.simps
    by (simp add: w1 w2 adv SIZE_OF_INT_def host.frame_def del: length_append append_assoc)
qed simp


section \<open>Rebuilding a tree from its dump\<close>

definition entry_insert :: "entry_t \<Rightarrow> tree_node \<Rightarrow> tree_node" where
  "entry_insert e n =
    (case e_key e of None \<Rightarrow> n
     | Some k \<Rightarrow> (case e_value e of None \<Rightarrow> n | Some d \<Rightarrow> node_insert k d n))"

fun node_received :: "tree_node \<Rightarrow> tree_node" where
  "node_received NullNode = NullNode"
| "node_received (Node e l r) =
    Node (map_option entry_received e) (node_received l) (node_received r)"

lemma entry_received_ok: "entry_ok e \<Longrightarrow> entry_ok (entry_received e)"
  by (auto elim!: entry_okE simp: entry_received_def entry_ok_def data_received_ok)

lemma entry_received_key [simp]: "e_key (entry_received e) = e_key e"
  by (simp add: entry_received_def)

lemma node_received_keys [simp]: "node_keys (node_received n) = node_keys n"
  by (induction n) (auto split: option.splits)

lemma node_received_ok: "node_ok n \<Longrightarrow> node_ok (node_received n)"
  by (induction n) (auto split: option.splits simp: entry_received_ok)

lemma node_received_size [simp]: "node_size (node_received n) = node_size n"
  by (induction n) simp_all

lemma node_received_height [simp]: "node_height (node_received n) = node_height n"
  by (induction n) simp_all

lemma entries_received: "entries_of (node_received n) = map entry_received (entries_of n)"
  by (induction n) (auto split: option.splits)

lemma node_map_received:
  "node_ok n \<Longrightarrow> node_map (node_received n) k = map_option data_received (node_map n k)"
proof (induction n)
  case (Node e l r)
  from Node.prems show ?case
    by (rule node_okE) (auto simp: Node.IH entry_received_def map_add_def split: option.splits)
qed simp

text \<open>Inserting smaller keys into a node changes its left subtree only, larger keys its right one.\<close>

lemma foldl_insert_left:
  assumes "\<forall>x \<in> set es. entry_ok x \<and> e_key x < entry_key e"
  shows "foldl (\<lambda>n x. entry_insert x n) (Node e l r) es =
    Node e (foldl (\<lambda>n x. entry_insert x n) l es) r"
  using assms
proof (induction es arbitrary: l)
  case (Cons x es)
  then have "entry_ok x" "e_key x < entry_key e" by auto
  then show ?case using Cons by (auto elim!: entry_okE simp: entry_insert_def)
qed simp

lemma foldl_insert_right:
  assumes "\<forall>x \<in> set es. entry_ok x \<and> entry_key e < e_key x"
  shows "foldl (\<lambda>n x. entry_insert x n) (Node e l r) es =
    Node e l (foldl (\<lambda>n x. entry_insert x n) r es)"
  using assms
proof (induction es arbitrary: r)
  case (Cons x es)
  then have "entry_ok x" "entry_key e < e_key x" by auto
  then show ?case using Cons by (auto elim!: entry_okE simp: entry_insert_def)
qed simp

lemma entries_of_ok: "node_ok n \<Longrightarrow> x \<in> set (entries_of n) \<Longrightarrow> entry_ok x \<and> e_key x \<in> node_keys n"
  by (induction n) (auto split: option.splits)

lemma foldl_insert_preorder:
  "node_ok n \<Longrightarrow> foldl (\<lambda>n x. entry_insert x n) NullNode (entries_of n) = n"
proof (induction n)
  case (Node e l r)
  from Node.prems show ?case
  proof (rule node_okE)
    fix k d
    assume e: "e = Some \<lparr>e_key = Some k, e_value = Some d\<rparr>" and ok: "node_ok l" "node_ok r"
      and "\<forall>x \<in> node_keys l. x < Some k" "\<forall>x \<in> node_keys r. Some k < x"
    then have "\<forall>x \<in> set (entries_of l). entry_ok x \<and> e_key x < entry_key e"
      "\<forall>x \<in> set (entries_of r). entry_ok x \<and> entry_key e < e_key x"
      using entries_of_ok by auto
    moreover have "entry_insert \<lparr>e_key = Some k, e_value = Some d\<rparr> NullNode = Node e NullNode NullNode"
      using e by (simp add: entry_insert_def)
    ultimately show ?thesis
      using e Node.IH ok by (simp add: foldl_insert_left foldl_insert_right)
  qed
qed simp

lemma entry_insert_tree:
  "tree_ok t \<Longrightarrow> entry_ok e \<Longrightarrow> t_size t < INT_MAX \<Longrightarrow>
    tree_ok (tree_of (entry_insert e (t_root t))) \<and>
    t_size (tree_of (entry_insert e (t_root t))) \<le> t_size t + 1"
  using tree_ok_insert [of t "the (e_value e)" "the (e_key e)"]
  by (auto elim!: entry_okE simp: entry_insert_def tree_insert_def node_size_insert tree_ok_def)

lemma buffer_to_tree_loop_eq:
  assumes "protobuf_ok pb" "outcomes h = []" "entries_sendable pb es" "\<forall>e \<in> set es. entry_ok e"
    and "tree_ok t" "t_size t + int (length es) \<le> INT_MAX"
    and "int (length pre) + int (length (dump pb es)) \<le> INT_MAX"
  shows "buffer_to_tree_loop pb (pre @ dump pb es) (int (length pre) + int (length (dump pb es)))
      (Some t) (int (length pre)) h =
    (let t' = tree_of (foldl (\<lambda>n x. entry_insert x n) (t_root t) (map entry_received es))
     in Some (Some t', h\<lparr>live := live h + tree_blocks (Some t') - tree_blocks (Some t)\<rparr>))"
  using assms(2-)
proof (induction es arbitrary: pre t h)
  case Nil
  then show ?case
    using tree_ok_of [of t] by (subst buffer_to_tree_loop.simps) simp
next
  case (Cons e es)
  let ?b = "entry_dump pb e"
  let ?pre = "pre @ host.frame ?b"
  have len: "int (length pre) + 4 + int (length ?b) + int (length (dump pb es)) \<le> INT_MAX"
    using Cons.prems(6) by (simp add: host.length_frame)
  have e: "entry_sendable e" "entry_ok e" "int (length ?b) \<le> INT_MAX" and es: "entries_sendable pb es"
    using Cons.prems(2,3) by (auto simp: entries_sendable_def)
  obtain k d where r: "entry_received e = \<lparr>e_key = Some k, e_value = Some d\<rparr>"
      "data_ok d" "data_copy d = d"
    using entry_okE [OF entry_received_ok [OF e(2)]] .
  define t1 where "t1 = tree_insert k d t"
  have t1: "tree_ok t1" "t_size t1 \<le> t_size t + 1" "t1 = tree_of (entry_insert (entry_received e) (t_root t))"
    using entry_insert_tree [OF Cons.prems(4) entry_received_ok [OF e(2)]] Cons.prems(5)
    by (simp_all add: t1_def r(1) entry_insert_def tree_insert_def)
  have read: "read_at (int (length pre)) 4 (pre @ host.frame ?b @ dump pb es) =
      Some (int_bytes (int (length ?b)))"
    using read_at_append [of pre "int (length pre)" 4 "int_bytes (int (length ?b))" "?b @ dump pb es"]
    by (simp add: host.frame_def)
  have entry: "buffer_to_entry pb (Some (drop (length pre + 4) (pre @ host.frame ?b @ dump pb es)))
      (int (length ?b)) h =
    Some (Some (entry_received e), h\<lparr>live := live h + entry_blocks (Some (entry_received e))\<rparr>)"
    using buffer_to_entry_ok [OF assms(1) Cons.prems(1) msg_of_entry_ok [OF e(1)], of "dump pb es"] e
    by (simp add: host.frame_def entry_dump_def entry_of_received_msg)
  have put: "tree_put (Some t) (Some k) (Some d) h' =
      Some (0, Some t1, h'\<lparr>live := live h' + tree_blocks (Some t1) - tree_blocks (Some t)\<rparr>)"
    if "outcomes h' = []" for h' :: "'z heap_scheme"
    using tree_put_eq [OF Cons.prems(4) r(2) that, of k] Cons.prems(5) r(3) by (simp add: t1_def)
  have adv: "advance (int (length pre)) (int (length ?b)) = int (length ?pre)"
    using len by (simp add: advance_ok host.length_frame)
  define B where "B = pre @ dump pb (e # es)"
  define S where "S = int (length pre) + int (length (dump pb (e # es)))"
  have B: "B = ?pre @ dump pb es" and S: "S = int (length ?pre) + int (length (dump pb es))"
    by (simp_all add: B_def S_def)
  have more: "int (length pre) < S" by (simp add: S_def host.length_frame)
  have read': "read_at (int (length pre)) SIZE_OF_INT B = Some (int_bytes (int (length ?b)))"
    using read by (simp add: B SIZE_OF_INT_def)
  have entry': "buffer_to_entry pb (Some (drop (length pre + SIZE_OF_INT) B)) (int (length ?b)) h =
      Some (Some (entry_received e), h\<lparr>live := live h + entry_blocks (Some (entry_received e))\<rparr>)"
    using entry by (simp add: B SIZE_OF_INT_def)
  have "bytes_int (int_bytes (int (length ?b))) = int (length ?b)"
    using e(3) by (simp add: int_range)
  then have step: "buffer_to_tree_loop pb B S (Some t) (int (length pre)) h =
      buffer_to_tree_loop pb B S (Some t1) (int (length ?pre))
        (h\<lparr>live := live h + tree_blocks (Some t1) - tree_blocks (Some t)\<rparr>)"
    using Cons.prems(1) more put [of "h\<lparr>live := live h + entry_blocks (Some (entry_received e))\<rparr>"]
    by (subst buffer_to_tree_loop.simps) (simp add: read' entry' adv r(1) Let_def add_diff_eq)
  show ?case
    unfolding B_def [symmetric] S_def [symmetric] step unfolding B S
    using Cons.prems(1,3,5) es t1 len
    by (subst Cons.IH) (simp_all add: host.length_frame Let_def)
qed


definition tree_received :: "tree_t \<Rightarrow> tree_t" where
  "tree_received t = tree_of (node_received (t_root t))"

lemma tree_received_ok:
  assumes "tree_ok t"
  shows "tree_ok (tree_received t)" "tree_map (tree_received t) = map_option data_received \<circ> tree_map t"
  using assms
  by (auto simp: tree_ok_def tree_received_def node_received_ok tree_map_def node_map_received fun_eq_iff)

definition tree_dump :: "protobuf \<Rightarrow> tree_t \<Rightarrow> byte list" where
  "tree_dump pb t = dump pb (entries_of (t_root t))"

lemma entries_of_sendable:
  assumes "tree_ok t" "\<forall>k \<in> dom (tree_map t). nul_free k" "int (length (tree_dump pb t)) \<le> INT_MAX"
  shows "entries_sendable pb (entries_of (t_root t))"
proof -
  have ok: "node_ok (t_root t)" using assms(1) by (simp add: tree_ok_def)
  have "entry_sendable e" if e: "e \<in> set (entries_of (t_root t))" for e
  proof -
    obtain k d where k: "e = \<lparr>e_key = Some k, e_value = Some d\<rparr>" "data_ok d"
      using entries_of_ok [OF ok e] by (auto elim: entry_okE)
    then have "Some k \<in> dom (node_map (t_root t))"
      using entries_of_ok [OF ok e] by (simp add: dom_node_map [OF ok])
    then have "k \<in> dom (tree_map t)" by (auto simp: tree_map_def)
    with k assms(2) show ?thesis by (simp add: entry_sendable_def)
  qed
  moreover have "int (length (entry_dump pb e)) \<le> INT_MAX" if "e \<in> set (entries_of (t_root t))" for e
    using entry_dump_le [OF that, of pb] assms(3) by (simp add: tree_dump_def)
  ultimately show ?thesis by (simp add: entries_sendable_def)
qed

lemma tree_to_buffer_ok:
  assumes "protobuf_ok pb" "outcomes h = []" "tree_ok t" "entries_sendable pb (entries_of (t_root t))"
    and "int (length (tree_dump pb t)) \<le> INT_MAX"
  shows "tree_to_buffer pb (Some t) (Some v) h =
    Some (int (length (tree_dump pb t)), Some (Some (tree_dump pb t)), h\<lparr>live := live h + 1\<rparr>)"
proof -
  let ?es = "entries_of (t_root t)" and ?D = "tree_dump pb t"
  have ok: "node_ok (t_root t)" and sz: "t_size t = int (length ?es)"
    using assms(3) entries_of_length [of "t_root t"] by (auto simp: tree_ok_def)
  have collect: "collect_entry_bufs pb (t_root t) (replicate (length ?es) None)
      (replicate (length ?es) None) 0 h =
    Some (length ?es, bufs_of pb ?es, lens_of pb ?es, h\<lparr>live := live h + int (length ?es)\<rparr>)"
    using collect_entry_bufs_eq [OF ok assms(1,2,4), of "length ?es" "[]"] by simp
  have copy: "copy_entry_bufs (bufs_of pb ?es) (lens_of pb ?es) 0 (fresh_block (int (length ?D)) h')
      h'' = Some (?D, h''\<lparr>live := live h'' - int (length ?es)\<rparr>)" for h' h'' :: "'z heap_scheme"
    using copy_entry_bufs_eq [of "[]" pb ?es "fresh_block (int (length ?D)) h'" h''] assms(5)
    by (simp add: tree_dump_def)
  have "sum_lens (lens_of pb ?es) 0 = Some (int (length ?D))"
    using sum_lens_eq [of 0 pb ?es] assms(5) by (simp add: tree_dump_def)
  with assms(2) show ?thesis
    by (simp add: tree_to_buffer_def sz collect copy alloc_simps)
qed

lemma tree_create_ok:
  "outcomes h = [] \<Longrightarrow> tree_create h = (Some (tree_of NullNode), h\<lparr>live := live h + 1\<rparr>)"
  by (simp add: tree_create_def SIZE_OF_TREE_T_def alloc_simps tree_of_def)

lemma buffer_to_tree_ok:
  assumes "protobuf_ok pb" "outcomes h = []" "tree_ok t" "entries_sendable pb (entries_of (t_root t))"
    and "t_root t \<noteq> NullNode" "int (length (tree_dump pb t)) \<le> INT_MAX"
  shows "buffer_to_tree pb (Some (tree_dump pb t)) (int (length (tree_dump pb t))) h =
    Some (Some (tree_received t), h\<lparr>live := live h + tree_blocks (Some (tree_received t))\<rparr>)"
proof -
  let ?es = "entries_of (t_root t)"
  have ok: "node_ok (t_root t)" using assms(3) by (simp add: tree_ok_def)
  have pos: "0 < length ?es"
    using assms(5) entries_of_length [OF ok] node_size_0 [of "t_root t"] node_size_nonneg [of "t_root t"]
    by linarith
  have bound: "int (length ?es) \<le> INT_MAX" "0 < length (dump pb ?es)"
    using length_dump_ge [of ?es pb] assms(6) pos unfolding tree_dump_def by linarith+
  have "foldl (\<lambda>n x. entry_insert x n) NullNode (map entry_received ?es) = node_received (t_root t)"
    using foldl_insert_preorder [OF node_received_ok [OF ok]] by (simp add: entries_received)
  moreover note buffer_to_tree_loop_eq [OF assms(1) _ assms(4), where t = "tree_of NullNode" and pre = "[]"
    and h = "h\<lparr>live := live h + 1\<rparr>"]
  ultimately show ?thesis
    using assms(2,6) bound entries_of_ok [OF ok] tree_ok_empty
    by (simp add: buffer_to_tree_def tree_create_ok tree_dump_def tree_received_def)
qed

section \<open>Properties\<close>

text \<open>A block of data of any size that is written to a buffer and read back is a block with the
  same declared size and the same bytes; the buffer is the only memory left after writing.\<close>

theorem data_buffer_roundtrip:
  assumes "protobuf_ok pb" "outcomes h = []" "data_ok d"
    and "int (length (pack_data pb (msg_of_data d))) \<le> INT_MAX"
  shows "\<exists>b h1 d' h2. data_to_buffer pb (Some d) (Some v) h = Some (int (length b), Some (Some b), h1) \<and>
    live h1 = live h + 1 \<and>
    buffer_to_data pb (Some b) (int (length b)) h1 = Some (Some d', h2) \<and>
    data_ok d' \<and> d_size d' = d_size d \<and> data_bytes d' = data_bytes d \<and>
    live h2 = live h1 + data_blocks (Some d')"
proof -
  have "d_size (data_received d) = d_size d" by (simp add: data_received_def data_copy_def)
  with assms show ?thesis
    using buffer_to_data_ok [OF assms(1) _ msg_of_data_ok [OF assms(3)] assms(4),
        of "h\<lparr>live := live h + 1\<rparr>" "[]"]
    by (simp add: data_to_buffer_ok data_of_received_msg data_received_ok)
qed

theorem data_buffer_roundtrip_witness:
  "\<exists>b h1 d' h2. data_to_buffer wire_protobuf (Some ex_data) (Some None) ex_heap =
      Some (int (length b), Some (Some b), h1) \<and> live h1 = live ex_heap + 1 \<and>
    buffer_to_data wire_protobuf (Some b) (int (length b)) h1 = Some (Some d', h2) \<and>
    data_ok d' \<and> d_size d' = d_size ex_data \<and> data_bytes d' = data_bytes ex_data \<and>
    live h2 = live h1 + data_blocks (Some d')"
  by (rule data_buffer_roundtrip [OF protobuf_ok_wire _ ex_data_ok(1)])
     (simp_all add: wire_protobuf_def wire_pack_data_def data_fields_def msg_of_data_def
        ex_data_def data_copy_def enc_fields_def varint_short INT_MAX_def)



text \<open>A message of any content that is written to a buffer and read back arrives as the same
  message, up to the block of an empty value, in a new \<^verbatim>\<open>message_t\<close>.\<close>

theorem message_buffer_roundtrip:
  assumes "protobuf_ok pb" "outcomes h = []" "message_ok m"
    and "int (length (pack_message pb m)) \<le> INT_MAX"
  shows "\<exists>b h1 h2. message_to_buffer pb (Some \<lparr>mt_msg = Some m\<rparr>) (Some v) h =
      Some (int (length b), Some (Some b), h1) \<and>
    buffer_to_message pb (Some b) (int (length b)) h1 =
      Some (Some \<lparr>mt_msg = Some (message_wire m)\<rparr>, h2) \<and>
    live h1 = live h + 1 \<and> live h2 = live h1 + message_blocks (Some (message_wire m)) + 1"
  using assms buffer_to_message_ok [OF assms(1) _ assms(3,4), of "h\<lparr>live := live h + 1\<rparr>" "[]"]
  by (simp add: message_to_buffer_ok)

theorem message_buffer_roundtrip_witness:
  "\<exists>b h1 h2. message_to_buffer wire_protobuf (Some \<lparr>mt_msg = Some ex_message\<rparr>) (Some None) ex_heap =
      Some (int (length b), Some (Some b), h1) \<and>
    buffer_to_message wire_protobuf (Some b) (int (length b)) h1 =
      Some (Some \<lparr>mt_msg = Some (message_wire ex_message)\<rparr>, h2) \<and>
    live h1 = live ex_heap + 1 \<and> live h2 = live h1 + message_blocks (Some (message_wire ex_message)) + 1"
  by (rule message_buffer_roundtrip [OF protobuf_ok_wire _ ex_message_ok])
     (simp_all add: ex_message_def wire_protobuf_def wire_pack_message_def wire_pack_entry_def
        wire_pack_data_def nullable_fields_def data_fields_def enc_fields_def varint_short
        string_bytes_def INT_MAX_def op_codes enum_varint_def)

end
