(* ===== verification/KV_Inet.thy ===== *)
theory KV_Inet
  imports KV_Serialize
begin

text \<open>
  \<^verbatim>\<open>source/inet-private.c\<close>: addresses, connections, and messages over a socket. The network is a
  script per open descriptor: what the coming calls of \<^verbatim>\<open>read\<close> deliver and how many bytes the
  coming calls of \<^verbatim>\<open>write\<close> accept, interruptions (\<^verbatim>\<open>EINTR\<close>) and errors included. Scripts are finite
  (a call is not interrupted for ever), which is why the loops end. Lengths travel in network byte
  order in front of the packed message. The properties say that a message arrives whole however the
  network cuts the bytes up, and that no input makes the reader leave its buffer.
\<close>

section \<open>Sockets\<close>

datatype read_event =
    Chunk "byte list"   \<comment> \<open>these bytes are there\<close>
  | ReadIntr            \<comment> \<open>-1 with \<^verbatim>\<open>errno == EINTR\<close>\<close>
  | ReadErr             \<comment> \<open>-1 with another \<^verbatim>\<open>errno\<close>\<close>

datatype write_event =
    Accept nat          \<comment> \<open>at most so many bytes are accepted\<close>
  | WriteIntr
  | WriteErr

record socket =
  s_in :: "read_event list"     \<comment> \<open>after these the connection is closed by the peer\<close>
  s_out :: "write_event list"   \<comment> \<open>after these every call accepts all its bytes\<close>
  s_sent :: "byte list"         \<comment> \<open>accepted so far\<close>

datatype connect_event = Refused | Connected socket

record net = heap +
  socks :: "int \<Rightarrow> socket option"       \<comment> \<open>the open descriptors\<close>
  new_fds :: "int list"                 \<comment> \<open>what the coming calls of \<^verbatim>\<open>socket\<close> return; -1 after these\<close>
  connects :: "connect_event list"      \<comment> \<open>outcomes of the coming calls of \<^verbatim>\<open>connect\<close>; refused after these\<close>
  dialled :: "(string \<times> nat) list"      \<comment> \<open>addresses \<^verbatim>\<open>connect\<close> was called with, latest first\<close>
  closed :: "socket list"               \<comment> \<open>connections that were closed, latest first\<close>

datatype read_result = ReadBytes "byte list" | ReadFailed bool  \<comment> \<open>failed; whether interrupted\<close>
datatype write_result = Wrote nat | WriteFailed bool

fun next_read :: "read_event list \<Rightarrow> nat \<Rightarrow> read_result \<times> read_event list" where
  "next_read [] n = (ReadBytes [], [])"
| "next_read (Chunk bs # es) n =
    (ReadBytes (take n bs), if n < length bs then Chunk (drop n bs) # es else es)"
| "next_read (ReadIntr # es) n = (ReadFailed True, es)"
| "next_read (ReadErr # es) n = (ReadFailed False, es)"

fun next_write :: "write_event list \<Rightarrow> nat \<Rightarrow> write_result \<times> write_event list" where
  "next_write [] n = (Wrote n, [])"
| "next_write (Accept k # es) n = (Wrote (min k n), es)"
| "next_write (WriteIntr # es) n = (WriteFailed True, es)"
| "next_write (WriteErr # es) n = (WriteFailed False, es)"

definition read_call :: "int \<Rightarrow> nat \<Rightarrow> 'z net_scheme \<Rightarrow> read_result \<times> 'z net_scheme" where
  "read_call fd n s =
    (case socks s fd of
       None \<Rightarrow> (ReadFailed False, s)
     | Some k \<Rightarrow> (case next_read (s_in k) n of (r, es) \<Rightarrow>
         (r, s\<lparr>socks := (socks s)(fd \<mapsto> k\<lparr>s_in := es\<rparr>)\<rparr>)))"

definition write_call :: "int \<Rightarrow> byte list \<Rightarrow> 'z net_scheme \<Rightarrow> write_result \<times> 'z net_scheme" where
  "write_call fd bs s =
    (case socks s fd of
       None \<Rightarrow> (WriteFailed False, s)
     | Some k \<Rightarrow> (case next_write (s_out k) (length bs) of (r, es) \<Rightarrow>
         (r, s\<lparr>socks := (socks s)(fd \<mapsto> k\<lparr>s_out := es,
           s_sent := s_sent k @ (case r of Wrote n \<Rightarrow> take n bs | WriteFailed _ \<Rightarrow> [])\<rparr>)\<rparr>)))"

definition close_fd :: "int \<Rightarrow> 'z net_scheme \<Rightarrow> 'z net_scheme" where
  "close_fd fd s =
    (case socks s fd of
       None \<Rightarrow> s
     | Some k \<Rightarrow> s\<lparr>socks := (socks s)(fd := None), closed := k # closed s\<rparr>)"

definition socket_call :: "'z net_scheme \<Rightarrow> int \<times> 'z net_scheme" where
  "socket_call s =
    (case new_fds s of [] \<Rightarrow> (-1, s) | fd # fds \<Rightarrow> (fd, s\<lparr>new_fds := fds\<rparr>))"

definition connect_call :: "int \<Rightarrow> string \<Rightarrow> nat \<Rightarrow> 'z net_scheme \<Rightarrow> int \<times> 'z net_scheme" where
  "connect_call fd ip port s =
    (let s = s\<lparr>dialled := (ip, port) # dialled s\<rparr> in
     case connects s of
       [] \<Rightarrow> (-1, s)
     | Refused # cs \<Rightarrow> (-1, s\<lparr>connects := cs\<rparr>)
     | Connected k # cs \<Rightarrow> (0, s\<lparr>connects := cs, socks := (socks s)(fd \<mapsto> k)\<rparr>))"

section \<open>The C library on strings\<close>

text \<open>\<^verbatim>\<open>strtok\<close> with one separator: the next token and where the search goes on.\<close>

definition strtok :: "char \<Rightarrow> string \<Rightarrow> (string \<times> string) option" where
  "strtok sep s =
    (let s = dropWhile ((=) sep) s in
     if s = [] then None
     else Some (takeWhile ((\<noteq>) sep) s, drop 1 (dropWhile ((\<noteq>) sep) s)))"

definition is_digit :: "char \<Rightarrow> bool" where
  "is_digit c \<longleftrightarrow> (of_char c :: nat) \<in> {48..57}"

definition digit_value :: "char \<Rightarrow> nat" where
  "digit_value c = of_char c - 48"

definition is_space :: "char \<Rightarrow> bool" where
  "is_space c \<longleftrightarrow> c \<in> {CHR '' '', CHR 0x09, CHR 0x0A, CHR 0x0B, CHR 0x0C, CHR 0x0D}"

definition decimal :: "string \<Rightarrow> nat" where
  "decimal s = foldl (\<lambda>n c. 10 * n + digit_value c) 0 (takeWhile is_digit s)"

text \<open>\<^verbatim>\<open>atoi\<close> of glibc: \<^verbatim>\<open>strtol\<close> saturates at 64 bits, its result is cut to \<^verbatim>\<open>int\<close>.\<close>

definition atoi :: "string \<Rightarrow> int" where
  "atoi s =
    (let s = dropWhile is_space s;
         v = (case s of
                CHR ''-'' # t \<Rightarrow> - int (decimal t)
              | CHR ''+'' # t \<Rightarrow> int (decimal t)
              | _ \<Rightarrow> int (decimal s))
     in int_wrap (max (- (2 ^ 63)) (min (2 ^ 63 - 1) v)))"

text \<open>\<^verbatim>\<open>inet_pton(AF_INET, s)\<close> accepts four decimal numbers below 256 without leading zeros.\<close>

fun split_at :: "char \<Rightarrow> string \<Rightarrow> string list" where
  "split_at sep [] = [[]]"
| "split_at sep (c # cs) =
    (if c = sep then [] # split_at sep cs
     else (case split_at sep cs of [] \<Rightarrow> [[c]] | w # ws \<Rightarrow> (c # w) # ws))"

definition inet_pton :: "string \<Rightarrow> bool" where
  "inet_pton s =
    (let ws = split_at CHR ''.'' s in
     length ws = 4 \<and>
     list_all (\<lambda>w. w \<noteq> [] \<and> list_all is_digit w \<and> decimal w < 256 \<and> (hd w = CHR ''0'' \<longrightarrow> w = ''0'')) ws)"

section \<open>Definitions\<close>

definition AF_INET :: int where "AF_INET = 2"

text \<open>\<^verbatim>\<open>get_host\<close> over what \<^verbatim>\<open>gethostbyname\<close> returns for the name of the machine: nothing, or the
  type of address and the address.\<close>

definition get_host :: "(int \<times> 'a) option \<Rightarrow> 'a option option" where
  "get_host host = do {
     (h_addrtype, h_addr) \<leftarrow> host;
     if h_addrtype \<noteq> AF_INET then Some None else Some (Some h_addr)
   }"

definition ADDRESS_PORT_SEPARATOR :: char where "ADDRESS_PORT_SEPARATOR = CHR '':''"

text \<open>The two output variables are given and returned; \<^verbatim>\<open>None\<close> is a variable not written yet.\<close>

definition parse_address_port ::
  "string option \<Rightarrow> string option option \<Rightarrow> int option \<Rightarrow> 'z heap_scheme
    \<Rightarrow> int \<times> string option option \<times> int option \<times> 'z heap_scheme" where
  "parse_address_port address_port address_var port_var h =
    (case address_port of
       None \<Rightarrow> (-1, address_var, port_var, h)
     | Some s \<Rightarrow>
         (let ip_address = strtok ADDRESS_PORT_SEPARATOR s;
              port_str = (case ip_address of
                            None \<Rightarrow> None
                          | Some (_, rest) \<Rightarrow> strtok ADDRESS_PORT_SEPARATOR rest)
          in case (ip_address, port_str) of
               (Some (ip, _), Some (p, _)) \<Rightarrow>
                 (let port = atoi p in
                  if port = 0 then (-1, address_var, port_var, h)
                  else (case strdup ip h of (copied, h) \<Rightarrow> (0, Some copied, Some port, h)))
             | _ \<Rightarrow> (-1, address_var, port_var, h)))"

text \<open>\<^verbatim>\<open>htons\<close> keeps the low 16 bits of the port.\<close>

definition server_connect :: "string option \<Rightarrow> int \<Rightarrow> 'z net_scheme \<Rightarrow> (int \<times> 'z net_scheme) option" where
  "server_connect server_ip_address server_port s =
    (case socket_call s of (sockfd, s) \<Rightarrow>
      if sockfd < 0 then Some (-1, s)
      else do {
        ip \<leftarrow> server_ip_address;
        if \<not> inet_pton ip then Some (-1, close_fd sockfd s)
        else (case connect_call sockfd ip (nat (server_port mod 2 ^ 16)) s of (r, s) \<Rightarrow>
          if r < 0 then Some (-1, close_fd sockfd s) else Some (sockfd, s))
      })"

text \<open>What is left to read of a script bounds the reading loop, what is left to write bounds the
  writing one.\<close>

fun script_size :: "read_event list \<Rightarrow> nat" where
  "script_size [] = 0"
| "script_size (Chunk bs # es) = Suc (length bs + script_size es)"
| "script_size (_ # es) = Suc (script_size es)"

definition to_read :: "int \<Rightarrow> 'z net_scheme \<Rightarrow> nat" where
  "to_read fd s = (case socks s fd of None \<Rightarrow> 0 | Some k \<Rightarrow> script_size (s_in k))"

definition to_write :: "int \<Rightarrow> 'z net_scheme \<Rightarrow> nat" where
  "to_write fd s = (case socks s fd of None \<Rightarrow> 0 | Some k \<Rightarrow> length (s_out k))"

lemma next_read_less:
  assumes "next_read es n = (r, es')" "r \<noteq> ReadBytes []" "0 < n"
  shows "script_size es' < script_size es"
  using assms by (cases "(es, n)" rule: next_read.cases) (auto split: if_splits)

lemma to_read_less:
  assumes "read_call fd n s = (r, s')" "r \<noteq> ReadBytes []" "r \<noteq> ReadFailed False" "0 < n"
  shows "to_read fd s' < to_read fd s"
  using assms next_read_less
  by (fastforce simp: read_call_def to_read_def split: option.splits prod.splits)

lemma to_write_less:
  assumes "write_call fd bs s = (r, s')" "r \<noteq> WriteFailed False" "bs \<noteq> []"
  shows "to_write fd s' < to_write fd s \<or> (to_write fd s' = to_write fd s \<and> r = Wrote (length bs))"
proof -
  have "length es' < length es \<or> (length es' = length es \<and> q = Wrote n)"
    if "next_write es n = (q, es')" for es es' n q
    using that by (cases "(es, n)" rule: next_write.cases) auto
  with assms show ?thesis
    by (fastforce simp: write_call_def to_write_def split: option.splits prod.splits)
qed

function read_loop ::
  "int \<Rightarrow> byte list \<Rightarrow> int \<Rightarrow> int \<Rightarrow> 'z net_scheme \<Rightarrow> (byte list option \<times> 'z net_scheme) option" where
  "read_loop sockfd buffer read_size buffer_size s =
    (if read_size < buffer_size then
       (case read_call sockfd (nat (buffer_size - read_size)) s of
          (ReadFailed interrupted, s) \<Rightarrow>
            if interrupted then read_loop sockfd buffer read_size buffer_size s
            else Some (None, free (Some buffer) s)
        | (ReadBytes chunk, s) \<Rightarrow>
            if chunk = [] then Some (None, free (Some buffer) s)
            else do {
              buffer \<leftarrow> write_at read_size chunk buffer;
              read_loop sockfd buffer (read_size + int (length chunk)) buffer_size s
            })
     else Some (Some buffer, s))"
  by pat_completeness auto
termination
proof (relation "measure (\<lambda>(fd, _, _, _, s). to_read fd s)", goal_cases)
  case (2 fd buffer m n s x s' chunk buffer')
  then show ?case
    using to_read_less [of fd "nat (n - m)" s "ReadBytes chunk" s'] by simp
next
  case (3 fd buffer m n s x s' interrupted)
  then show ?case
    using to_read_less [of fd "nat (n - m)" s "ReadFailed True" s'] by simp
qed simp

declare read_loop.simps [simp del]

definition network_read_buffer ::
  "int \<Rightarrow> int \<Rightarrow> 'z net_scheme \<Rightarrow> (byte list option \<times> 'z net_scheme) option" where
  "network_read_buffer sockfd buffer_size s =
    (case malloc buffer_size s of (ok, s') \<Rightarrow>
      if \<not> ok then Some (None, s')
      else read_loop sockfd (fresh_block buffer_size s) 0 buffer_size s')"

definition network_receive_message ::
  "protobuf \<Rightarrow> int \<Rightarrow> 'z net_scheme \<Rightarrow> (message_t option \<times> 'z net_scheme) option" where
  "network_receive_message pb sockfd s = do {
     (read_message_size, s) \<leftarrow> network_read_buffer sockfd (int SIZE_OF_INT) s;
     case read_message_size of
       None \<Rightarrow> Some (None, s)
     | Some size_bytes \<Rightarrow>
         (let message_size = ntohl (bytes_int size_bytes);
              s = free read_message_size s
          in if message_size < 0 then Some (None, s)
             else do {
               (read_message_buffer, s) \<leftarrow> network_read_buffer sockfd message_size s;
               if read_message_buffer = None then Some (None, s)
               else do {
                 (message, s) \<leftarrow> buffer_to_message pb read_message_buffer message_size s;
                 let s = free read_message_buffer s;
                 Some (message, s)
               }
             })
   }"

function send_loop ::
  "int \<Rightarrow> byte list \<Rightarrow> nat \<Rightarrow> nat \<Rightarrow> 'z net_scheme \<Rightarrow> (int \<times> 'z net_scheme) option" where
  "send_loop sockfd buffer written_size buffer_size s =
    (if written_size < buffer_size then do {
       bytes \<leftarrow> read_at (int written_size) (buffer_size - written_size) buffer;
       (case write_call sockfd bytes s of
          (WriteFailed interrupted, s) \<Rightarrow>
            if interrupted then send_loop sockfd buffer written_size buffer_size s
            else Some (-1, s)
        | (Wrote n, s) \<Rightarrow> send_loop sockfd buffer (written_size + n) buffer_size s)
     }
     else Some (0, s))"
  by pat_completeness auto
termination
proof (relation "measures [\<lambda>(fd, _, _, _, s). to_write fd s, \<lambda>(_, _, w, n, _). n - w]", goal_cases)
  case (2 fd buffer w n s bytes x s' k)
  then show ?case
    using to_write_less [of fd bytes s "Wrote k" s'] by (auto simp: read_at_def split: if_splits)
next
  case (3 fd buffer w n s bytes x s' interrupted)
  then show ?case
    using to_write_less [of fd bytes s "WriteFailed True" s'] by (auto simp: read_at_def split: if_splits)
qed simp

declare send_loop.simps [simp del]

definition network_send_buffer ::
  "int \<Rightarrow> byte list \<Rightarrow> int \<Rightarrow> 'z net_scheme \<Rightarrow> (int \<times> 'z net_scheme) option" where
  "network_send_buffer sockfd buffer buffer_size = send_loop sockfd buffer 0 (nat buffer_size)"

definition network_send_message ::
  "protobuf \<Rightarrow> int \<Rightarrow> message_t option \<Rightarrow> 'z net_scheme \<Rightarrow> (int \<times> 'z net_scheme) option" where
  "network_send_message pb sockfd message s = do {
     (buffer_size, buffer_var, s) \<leftarrow> message_to_buffer pb message (Some None) s;
     if buffer_size < 0 then Some (-1, s)
     else do {
       buffer \<leftarrow> Option.bind buffer_var id;
       (r, s) \<leftarrow> network_send_buffer sockfd (int_bytes (htonl buffer_size)) (int SIZE_OF_INT) s;
       if r < 0 then Some (-1, s)
       else do {
         (r, s) \<leftarrow> network_send_buffer sockfd buffer buffer_size s;
         if r \<noteq> 0 then Some (-1, free (Some buffer) s)
         else Some (0, free (Some buffer) s)
       }
     }
   }"


section \<open>What the loops do with a script\<close>

text \<open>Reading \<^verbatim>\<open>n\<close> bytes from a script: the bytes, unless it fails or ends first, and the script left.\<close>

fun consume :: "read_event list \<Rightarrow> nat \<Rightarrow> byte list option \<times> read_event list" where
  "consume es 0 = (Some [], es)"
| "consume [] (Suc n) = (None, [])"
| "consume (Chunk bs # es) (Suc n) =
    (if bs = [] then (None, es)
     else if Suc n < length bs then (Some (take (Suc n) bs), Chunk (drop (Suc n) bs) # es)
     else (case consume es (Suc n - length bs) of (r, es') \<Rightarrow> (map_option ((@) bs) r, es')))"
| "consume (ReadIntr # es) (Suc n) = consume es (Suc n)"
| "consume (ReadErr # es) (Suc n) = (None, es)"

text \<open>A script that delivers a stream of bytes, in pieces and with interruptions, without an error.\<close>

fun stream :: "read_event list \<Rightarrow> byte list option" where
  "stream [] = Some []"
| "stream (Chunk bs # es) = (if bs = [] then None else map_option ((@) bs) (stream es))"
| "stream (ReadIntr # es) = stream es"
| "stream (ReadErr # es) = None"

lemma consume_length: "consume es n = (Some bs, es') \<Longrightarrow> length bs = n"
proof (induction es n arbitrary: bs es' rule: consume.induct)
  case (3 b es n)
  show ?case
  proof (cases "b = [] \<or> Suc n < length b")
    case True
    with "3.prems" show ?thesis by (auto split: if_splits)
  next
    case False
    then obtain c where "consume es (Suc n - length b) = (Some c, es')" "bs = b @ c"
      using "3.prems" by (auto split: prod.splits)
    with False "3.IH" show ?thesis by simp
  qed
qed auto

lemma consume_stream:
  "stream es = Some (a @ b) \<Longrightarrow> \<exists>es'. consume es (length a) = (Some a, es') \<and> stream es' = Some b"
proof (induction es arbitrary: a)
  case Nil
  then show ?case by simp
next
  case (Cons e es)
  show ?case
  proof (cases "a = []")
    case True
    with Cons.prems show ?thesis by (intro exI [of _ "e # es"]) simp
  next
    case False
    then obtain n where n: "length a = Suc n" by (cases a) auto
    show ?thesis
    proof (cases e)
      case (Chunk bs)
      then obtain t where t: "bs \<noteq> []" "stream es = Some t" "bs @ t = a @ b"
        using Cons.prems by (auto split: if_splits)
      show ?thesis
      proof (cases "length a < length bs")
        case True
        then have "take (length a) bs = a" "drop (length a) bs @ t = b"
          using arg_cong [OF t(3), of "take (length a)"] arg_cong [OF t(3), of "drop (length a)"]
          by simp_all
        with True Chunk t n show ?thesis
          by (intro exI [of _ "Chunk (drop (length a) bs) # es"]) simp
      next
        case False
        define c where "c = drop (length bs) a"
        have le: "length bs \<le> length a" using False by simp
        have bs: "take (length bs) a = bs"
          using arg_cong [OF t(3), of "take (length bs)"] le by simp
        have "t = c @ b"
          using arg_cong [OF t(3), of "drop (length bs)"] le by (simp add: c_def)
        moreover have "length c = Suc n - length bs" using n by (simp add: c_def)
        ultimately obtain es' where es': "consume es (Suc n - length bs) = (Some c, es')" "stream es' = Some b"
          using Cons.IH [of c] t(2) by auto
        have "bs @ c = a" unfolding c_def using append_take_drop_id [of "length bs" a] bs by simp
        with False Chunk t(1) n es' show ?thesis by simp
      qed
    next
      case ReadIntr
      with Cons.prems Cons.IH [of a] n show ?thesis by simp
    next
      case ReadErr
      with Cons.prems show ?thesis by simp
    qed
  qed
qed

lemma consume_next:
  assumes "0 < n"
  shows "consume es n =
    (case next_read es n of
       (ReadFailed intr, es') \<Rightarrow> if intr then consume es' n else (None, es')
     | (ReadBytes bs, es') \<Rightarrow>
         if bs = [] then (None, es')
         else (case consume es' (n - length bs) of (r, es'') \<Rightarrow> (map_option ((@) bs) r, es'')))"
proof -
  obtain m where n: "n = Suc m" using assms by (cases n) auto
  show ?thesis
  proof (cases es)
    case (Cons e es')
    then show ?thesis
      using n by (cases e) (auto split: prod.splits)
  qed (simp add: n)
qed

lemma next_read_length: "next_read es n = (ReadBytes bs, es') \<Longrightarrow> length bs \<le> n"
  by (cases "(es, n)" rule: next_read.cases) auto

text \<open>The state after reading a socket up to a script.\<close>

definition set_in :: "int \<Rightarrow> read_event list \<Rightarrow> 'z net_scheme \<Rightarrow> 'z net_scheme" where
  "set_in fd es s = s\<lparr>socks := (socks s)(fd := map_option (s_in_update (\<lambda>_. es)) (socks s fd))\<rparr>"

definition read_outcome ::
  "int \<Rightarrow> byte list \<Rightarrow> 'z net_scheme \<Rightarrow> byte list option \<times> read_event list
    \<Rightarrow> byte list option \<times> 'z net_scheme" where
  "read_outcome fd start s r =
    (case r of
       (Some bs, es) \<Rightarrow> (Some (start @ bs), set_in fd es s)
     | (None, es) \<Rightarrow> (None, (set_in fd es s)\<lparr>live := live s - 1\<rparr>))"

lemma set_in_simps [simp]:
  "set_in fd es' (set_in fd es s) = set_in fd es' s"
  "live (set_in fd es s) = live s" "outcomes (set_in fd es s) = outcomes s"
  "garbage (set_in fd es s) = garbage s"
  "socks (set_in fd es s) fd = map_option (s_in_update (\<lambda>_. es)) (socks s fd)"
  by (simp_all add: set_in_def option.map_comp comp_def)

lemma set_in_same: "socks s fd = Some k \<Longrightarrow> set_in fd (s_in k) s = s"
  by (simp add: set_in_def fun_upd_idem)

lemma read_call_eq:
  "socks s fd = Some k \<Longrightarrow> read_call fd n s = (case next_read (s_in k) n of (r, es) \<Rightarrow> (r, set_in fd es s))"
  by (simp add: read_call_def set_in_def split: prod.splits)

lemma read_loop_eq:
  assumes "socks s fd = Some k" "int (length buffer) = sz" "0 \<le> m" "m \<le> sz"
  shows "read_loop fd buffer m sz s =
    Some (read_outcome fd (take (nat m) buffer) s (consume (s_in k) (nat (sz - m))))"
  using assms
proof (induction fd buffer m sz s arbitrary: k rule: read_loop.induct)
  case (1 fd buffer m sz s)
  show ?case
  proof (cases "m < sz")
    case False
    with "1.prems" show ?thesis
      by (simp add: read_loop.simps read_outcome_def set_in_same)
  next
    case True
    obtain r es where next_r: "next_read (s_in k) (nat (sz - m)) = (r, es)" by fastforce
    let ?s = "set_in fd es s"
    have call: "read_call fd (nat (sz - m)) s = (r, ?s)"
      using read_call_eq [OF "1.prems"(1)] next_r by simp
    have sock: "socks ?s fd = Some (k\<lparr>s_in := es\<rparr>)" using "1.prems"(1) by simp
    note c = consume_next [of "nat (sz - m)" "s_in k", unfolded next_r prod.case]
    show ?thesis
    proof (cases r)
      case (ReadFailed intr)
      show ?thesis
      proof (cases intr)
        case True
        then show ?thesis
          using \<open>m < sz\<close> call c ReadFailed
            "1.IH"(2) [OF \<open>m < sz\<close> call [symmetric] ReadFailed True sock "1.prems"(2-4)]
          by (subst read_loop.simps) (simp add: read_outcome_def split: prod.splits option.splits)
      qed (use \<open>m < sz\<close> call c ReadFailed in
          \<open>subst read_loop.simps, simp add: read_outcome_def\<close>)
    next
      case (ReadBytes bs)
      show ?thesis
      proof (cases "bs = []")
        case True
        with \<open>m < sz\<close> call c ReadBytes show ?thesis
          by (subst read_loop.simps) (simp add: read_outcome_def)
      next
        case False
        have len: "length bs \<le> nat (sz - m)" using next_read_length [of "s_in k"] next_r ReadBytes by simp
        define buffer' where "buffer' = take (nat m) buffer @ bs @ drop (nat m + length bs) buffer"
        have w: "write_at m bs buffer = Some buffer'"
          using len "1.prems" by (simp add: write_at_def buffer'_def)
        have b: "int (length buffer') = sz" "take (nat (m + int (length bs))) buffer' = take (nat m) buffer @ bs"
          using len "1.prems" by (simp_all add: buffer'_def nat_add_distrib)
        have n: "nat (sz - (m + int (length bs))) = nat (sz - m) - length bs"
            "0 \<le> m + int (length bs)" "m + int (length bs) \<le> sz"
          using len "1.prems" by simp_all
        note IH = "1.IH"(1) [OF \<open>m < sz\<close> call [symmetric] ReadBytes False w sock b(1) n(2,3),
          unfolded b(2) n(1)]
        obtain q es' where q: "consume es (nat (sz - m) - length bs) = (q, es')" by fastforce
        with IH show ?thesis
          using \<open>m < sz\<close> call c ReadBytes False w
          by (subst read_loop.simps) (cases q; simp add: read_outcome_def)
      qed
    qed
  qed
qed

lemma read_loop_closed:
  assumes "socks s fd = None" "m < sz"
  shows "read_loop fd buffer m sz s = Some (None, free (Some buffer) s)"
  using assms by (subst read_loop.simps) (simp add: read_call_def)


text \<open>Writing \<^verbatim>\<open>n\<close> bytes against a script: whether it succeeds, how many bytes are accepted, and the
  script left.\<close>

fun accept :: "write_event list \<Rightarrow> nat \<Rightarrow> bool \<times> nat \<times> write_event list" where
  "accept es 0 = (True, 0, es)"
| "accept [] (Suc n) = (True, Suc n, [])"
| "accept (Accept k # es) (Suc n) =
    (case accept es (Suc n - min k (Suc n)) of (ok, m, es') \<Rightarrow> (ok, min k (Suc n) + m, es'))"
| "accept (WriteIntr # es) (Suc n) = accept es (Suc n)"
| "accept (WriteErr # es) (Suc n) = (False, 0, es)"

lemma accept_le: "accept es n = (ok, m, es') \<Longrightarrow> m \<le> n \<and> (ok \<longrightarrow> m = n)"
proof (induction es n arbitrary: m rule: accept.induct)
  case (3 k es n)
  then obtain m' where "accept es (Suc n - min k (Suc n)) = (ok, m', es')" "m = min k (Suc n) + m'"
    by (auto split: prod.splits)
  with "3.IH" [of m'] show ?case by auto
qed auto

lemma accept_fail: "accept es n = (False, m, es') \<Longrightarrow> m < n"
proof (induction es n arbitrary: m rule: accept.induct)
  case (3 k es n)
  then obtain m' where "accept es (Suc n - min k (Suc n)) = (False, m', es')" "m = min k (Suc n) + m'"
    by (auto split: prod.splits)
  with "3.IH" [of m'] show ?case by auto
qed auto

lemma accept_ok: "WriteErr \<notin> set es \<Longrightarrow> \<exists>es'. accept es n = (True, n, es') \<and> WriteErr \<notin> set es'"
proof (induction es n rule: accept.induct)
  case (3 k es n)
  then show ?case by fastforce
qed auto

lemma accept_next:
  assumes "0 < n"
  shows "accept es n =
    (case next_write es n of
       (WriteFailed intr, es') \<Rightarrow> if intr then accept es' n else (False, 0, es')
     | (Wrote k, es') \<Rightarrow> (case accept es' (n - k) of (ok, m, es'') \<Rightarrow> (ok, k + m, es'')))"
proof -
  obtain m where n: "n = Suc m" using assms by (cases n) auto
  show ?thesis
  proof (cases es)
    case (Cons e es')
    then show ?thesis
      using n by (cases e) (auto split: prod.splits)
  qed (simp add: n)
qed

definition set_out :: "int \<Rightarrow> write_event list \<Rightarrow> byte list \<Rightarrow> 'z net_scheme \<Rightarrow> 'z net_scheme" where
  "set_out fd es bs s = s\<lparr>socks := (socks s)(fd :=
     map_option (\<lambda>k. k\<lparr>s_out := es, s_sent := s_sent k @ bs\<rparr>) (socks s fd))\<rparr>"

lemma set_out_simps [simp]:
  "set_out fd es' bs' (set_out fd es bs s) = set_out fd es' (bs @ bs') s"
  "live (set_out fd es bs s) = live s" "outcomes (set_out fd es bs s) = outcomes s"
  "socks (set_out fd es bs s) fd = map_option (\<lambda>k. k\<lparr>s_out := es, s_sent := s_sent k @ bs\<rparr>) (socks s fd)"
  by (simp_all add: set_out_def option.map_comp comp_def)

lemma set_out_same: "socks s fd = Some k \<Longrightarrow> set_out fd (s_out k) [] s = s"
  by (simp add: set_out_def fun_upd_idem)

lemma live_update_same [simp]: "live s = n \<Longrightarrow> s\<lparr>live := n\<rparr> = s" for s :: "'z heap_scheme"
  by auto

lemma live_set_out [simp]: "set_out fd es bs (s\<lparr>live := n\<rparr>) = (set_out fd es bs s)\<lparr>live := n\<rparr>"
  by (simp add: set_out_def)

lemma live_set_in [simp]: "set_in fd es (s\<lparr>live := n\<rparr>) = (set_in fd es s)\<lparr>live := n\<rparr>"
  by (simp add: set_in_def)

lemma write_call_eq:
  "socks s fd = Some k \<Longrightarrow> write_call fd bs s =
    (case next_write (s_out k) (length bs) of (r, es) \<Rightarrow>
      (r, set_out fd es (case r of Wrote n \<Rightarrow> take n bs | WriteFailed _ \<Rightarrow> []) s))"
  by (simp add: write_call_def set_out_def split: prod.splits)

definition send_outcome ::
  "int \<Rightarrow> byte list \<Rightarrow> 'z net_scheme \<Rightarrow> bool \<times> nat \<times> write_event list \<Rightarrow> int \<times> 'z net_scheme" where
  "send_outcome fd bs s r =
    (case r of (ok, m, es) \<Rightarrow> (if ok then 0 else -1, set_out fd es (take m bs) s))"

lemma send_loop_eq:
  assumes "socks s fd = Some k" "w \<le> n" "n \<le> length buffer"
  shows "send_loop fd buffer w n s =
    Some (send_outcome fd (drop w buffer) s (accept (s_out k) (n - w)))"
  using assms
proof (induction fd buffer w n s arbitrary: k rule: send_loop.induct)
  case (1 fd buffer w n s)
  show ?case
  proof (cases "w < n")
    case False
    with "1.prems" show ?thesis
      by (simp add: send_loop.simps send_outcome_def set_out_same)
  next
    case True
    define bs where "bs = take (n - w) (drop w buffer)"
    have read: "read_at (int w) (n - w) buffer = Some bs"
      using True "1.prems" by (simp add: read_at_def bs_def)
    have len: "length bs = n - w" using "1.prems" by (simp add: bs_def)
    obtain r es where next_w: "next_write (s_out k) (n - w) = (r, es)" by fastforce
    define s' where "s' = set_out fd es (case r of Wrote n \<Rightarrow> take n bs | WriteFailed _ \<Rightarrow> []) s"
    have call: "write_call fd bs s = (r, s')"
      using write_call_eq [OF "1.prems"(1), of bs] next_w len by (simp add: s'_def)
    note c = accept_next [of "n - w" "s_out k", unfolded next_w prod.case]
    show ?thesis
    proof (cases r)
      case (WriteFailed intr)
      have sock: "socks s' fd = Some (k\<lparr>s_out := es\<rparr>)"
        using "1.prems"(1) WriteFailed by (simp add: s'_def)
      show ?thesis
      proof (cases intr)
        case True
        then show ?thesis
          using \<open>w < n\<close> read call c WriteFailed
            "1.IH"(2) [OF \<open>w < n\<close> read call [symmetric] WriteFailed True sock "1.prems"(2,3)]
          by (subst send_loop.simps) (simp add: send_outcome_def s'_def split: prod.splits)
      next
        case False
        with \<open>w < n\<close> read call c WriteFailed show ?thesis
          by (subst send_loop.simps) (simp add: send_outcome_def s'_def)
      qed
    next
      case (Wrote j)
      have j: "j \<le> n - w"
        using next_w Wrote by (cases "(s_out k, n - w)" rule: next_write.cases) auto
      have sock: "socks s' fd = Some (k\<lparr>s_out := es, s_sent := s_sent k @ take j bs\<rparr>)"
        using "1.prems"(1) Wrote by (simp add: s'_def)
      have wj: "w + j \<le> n" using j \<open>w < n\<close> by simp
      obtain ok m es' where q: "accept es (n - w - j) = (ok, m, es')" by (cases "accept es (n - w - j)")
      have "take j bs @ take m (drop (w + j) buffer) = take (j + m) (drop w buffer)"
        using j by (simp add: bs_def take_add min_def add.commute)
      with q show ?thesis
        using \<open>w < n\<close> read call c Wrote
          "1.IH"(1) [OF \<open>w < n\<close> read call [symmetric] Wrote sock wj "1.prems"(3)]
        by (subst send_loop.simps) (simp add: send_outcome_def s'_def)
    qed
  qed
qed


section \<open>One message\<close>

lemma network_send_buffer_eq:
  assumes "socks s fd = Some k" "sz = int (length buffer)"
  shows "network_send_buffer fd buffer sz s =
    Some (send_outcome fd buffer s (accept (s_out k) (length buffer)))"
  using send_loop_eq [OF assms(1), of 0 "length buffer" buffer] assms(2)
  by (simp add: network_send_buffer_def)

definition wire_frame :: "protobuf \<Rightarrow> message \<Rightarrow> byte list" where
  "wire_frame pb m = network.frame (pack_message pb m)"

lemma network_send_message_ok:
  assumes "outcomes s = []" "message_ok m" "int (length (pack_message pb m)) \<le> INT_MAX"
    and "socks s fd = Some k" "WriteErr \<notin> set (s_out k)"
  shows "\<exists>es. network_send_message pb fd (Some \<lparr>mt_msg = Some m\<rparr>) s =
      Some (0, set_out fd es (wire_frame pb m) s) \<and> WriteErr \<notin> set es"
proof -
  let ?P = "pack_message pb m" and ?s = "s\<lparr>live := live s + 1\<rparr>"
  obtain es1 where es1: "accept (s_out k) 4 = (True, 4, es1)" "WriteErr \<notin> set es1"
    using accept_ok [OF assms(5)] by blast
  obtain es2 where es2: "accept es1 (length ?P) = (True, length ?P, es2)" "WriteErr \<notin> set es2"
    using accept_ok [OF es1(2)] by blast
  have 1: "network_send_buffer fd (int_bytes (htonl (int (length ?P)))) 4 ?s =
      Some (0, set_out fd es1 (int_bytes (htonl (int (length ?P)))) ?s)"
    using assms(4) es1 by (subst network_send_buffer_eq [where k = k]) (simp_all add: send_outcome_def)
  have 2: "network_send_buffer fd ?P (int (length ?P))
        (set_out fd es1 (int_bytes (htonl (int (length ?P)))) ?s) =
      Some (0, set_out fd es2 (wire_frame pb m) ?s)"
    using assms(4) es2
    by (subst network_send_buffer_eq [where k = "k\<lparr>s_out := es1,
          s_sent := s_sent k @ int_bytes (htonl (int (length ?P)))\<rparr>"])
       (simp_all add: send_outcome_def wire_frame_def network.frame_def)
  have "message_to_buffer pb (Some \<lparr>mt_msg = Some m\<rparr>) (Some None) s = Some (int (length ?P), Some (Some ?P), ?s)"
    using message_to_buffer_ok assms(1-3) by blast
  then show ?thesis
    using 1 2 es2(2) by (intro exI [of _ es2]) (simp add: network_send_message_def SIZE_OF_INT_def)
qed

lemma network_read_buffer_eq:
  assumes "socks s fd = Some k" "outcomes s = []" "0 \<le> n"
  shows "network_read_buffer fd n s =
    Some (read_outcome fd [] (s\<lparr>live := live s + 1\<rparr>) (consume (s_in k) (nat n)))"
  using assms read_loop_eq [of "s\<lparr>live := live s + 1\<rparr>" fd k "fresh_block n s" n 0]
  by (simp add: network_read_buffer_def alloc_simps)

lemma network_receive_message_ok:
  assumes "protobuf_ok pb" "outcomes s = []" "message_ok m" "int (length (pack_message pb m)) \<le> INT_MAX"
    and "socks s fd = Some k" "stream (s_in k) = Some (wire_frame pb m @ rest)"
  shows "\<exists>es. network_receive_message pb fd s = Some (Some \<lparr>mt_msg = Some (message_wire m)\<rparr>,
      (set_in fd es s)\<lparr>live := live s + message_blocks (Some (message_wire m)) + 1\<rparr>) \<and>
    stream es = Some rest"
proof -
  let ?P = "pack_message pb m" and ?L = "int_bytes (htonl (int (length (pack_message pb m))))"
  have P: "in_int (int (length ?P))" using assms(4) by (simp add: int_range)
  have "stream (s_in k) = Some (?L @ ?P @ rest)"
    using assms(6) by (simp add: wire_frame_def network.frame_def)
  then obtain es1 where es1: "consume (s_in k) 4 = (Some ?L, es1)" "stream es1 = Some (?P @ rest)"
    using consume_stream [of "s_in k" ?L "?P @ rest"] by auto
  then obtain es2 where es2: "consume es1 (length ?P) = (Some ?P, es2)" "stream es2 = Some rest"
    using consume_stream [of es1 ?P rest] by auto
  let ?s1 = "(set_in fd es1 s)\<lparr>live := live s + 1\<rparr>"
  have 1: "network_read_buffer fd 4 s = Some (Some ?L, ?s1)"
    using network_read_buffer_eq [OF assms(5,2), of 4] es1(1) by (simp add: read_outcome_def)
  have 2: "network_read_buffer fd (int (length ?P)) (set_in fd es1 s) =
      Some (Some ?P, (set_in fd es2 s)\<lparr>live := live s + 1\<rparr>)"
    using network_read_buffer_eq [of "set_in fd es1 s" fd "k\<lparr>s_in := es1\<rparr>" "int (length ?P)"]
      assms(2,5) es2(1) by (simp add: read_outcome_def)
  have 3: "buffer_to_message pb (Some ?P) (int (length ?P)) ((set_in fd es2 s)\<lparr>live := live s + 1\<rparr>) =
      Some (Some \<lparr>mt_msg = Some (message_wire m)\<rparr>,
        (set_in fd es2 s)\<lparr>live := live s + 1 + message_blocks (Some (message_wire m)) + 1\<rparr>)"
    using buffer_to_message_ok [OF assms(1) _ assms(3,4), of "(set_in fd es2 s)\<lparr>live := live s + 1\<rparr>" "[]"]
      assms(2) by simp
  have "ntohl (bytes_int ?L) = int (length ?P)"
    using network.dec_enc [OF P] .
  with 1 2 3 es2(2) show ?thesis
    by (intro exI [of _ es2]) (simp add: network_receive_message_def SIZE_OF_INT_def Let_def)
qed

section \<open>Addresses\<close>

fun decimal_string :: "nat \<Rightarrow> string" where
  "decimal_string n =
    (if n < 10 then [char_of (n + 48)] else decimal_string (n div 10) @ [char_of (n mod 10 + 48)])"

declare decimal_string.simps [simp del]

text \<open>\<^verbatim>\<open>%d\<close> of \<^verbatim>\<open>printf\<close>.\<close>

definition print_int :: "int \<Rightarrow> string" where
  "print_int n = (if n < 0 then CHR ''-'' # decimal_string (nat (- n)) else decimal_string (nat n))"

lemma digit_char:
  assumes "n < 10"
  shows "is_digit (char_of (n + 48))" "digit_value (char_of (n + 48)) = n"
proof -
  have "(of_char (char_of (n + 48) :: char) :: nat) = n + 48" using assms by simp
  then show "digit_value (char_of (n + 48)) = n" by (simp add: digit_value_def del: of_char_of)
  with assms show "is_digit (char_of (n + 48))" by (simp add: is_digit_def)
qed

lemma decimal_string_digits: "list_all is_digit (decimal_string n) \<and> decimal_string n \<noteq> []"
proof (induction n rule: decimal_string.induct)
  case (1 n)
  then show ?case
    using digit_char(1) [of n] digit_char(1) [of "n mod 10"]
    by (subst (1 2) decimal_string.simps) auto
qed

lemma decimal_decimal_string [simp]: "decimal (decimal_string n) = n"
proof -
  have all: "takeWhile is_digit (decimal_string n) = decimal_string n" for n
    using decimal_string_digits [of n] by (simp add: takeWhile_eq_all_conv list_all_iff)
  have "foldl (\<lambda>n c. 10 * n + digit_value c) 0 (decimal_string n) = n"
  proof (induction n rule: decimal_string.induct)
    case (1 n)
    then show ?case
      using digit_char(2) [of n] digit_char(2) [of "n mod 10"]
      by (subst decimal_string.simps) auto
  qed
  then show ?thesis by (simp add: decimal_def all)
qed


section \<open>Many messages\<close>

fun send_messages ::
  "protobuf \<Rightarrow> int \<Rightarrow> message list \<Rightarrow> 'z net_scheme \<Rightarrow> (int list \<times> 'z net_scheme) option" where
  "send_messages pb fd [] s = Some ([], s)"
| "send_messages pb fd (m # ms) s = do {
     (r, s) \<leftarrow> network_send_message pb fd (Some \<lparr>mt_msg = Some m\<rparr>) s;
     (rs, s) \<leftarrow> send_messages pb fd ms s;
     Some (r # rs, s)
   }"

fun receive_messages ::
  "protobuf \<Rightarrow> int \<Rightarrow> nat \<Rightarrow> 'z net_scheme \<Rightarrow> (message_t option list \<times> 'z net_scheme) option" where
  "receive_messages pb fd 0 s = Some ([], s)"
| "receive_messages pb fd (Suc n) s = do {
     (m, s) \<leftarrow> network_receive_message pb fd s;
     (ms, s) \<leftarrow> receive_messages pb fd n s;
     Some (m # ms, s)
   }"

definition messages_ok :: "protobuf \<Rightarrow> message list \<Rightarrow> bool" where
  "messages_ok pb ms \<longleftrightarrow>
    (\<forall>m \<in> set ms. message_ok m \<and> int (length (pack_message pb m)) \<le> INT_MAX)"

lemma send_messages_ok:
  assumes "outcomes s = []" "messages_ok pb ms" "socks s fd = Some k" "WriteErr \<notin> set (s_out k)"
  shows "\<exists>s' k'. send_messages pb fd ms s = Some (replicate (length ms) 0, s') \<and>
    live s' = live s \<and> socks s' fd = Some k' \<and>
    s_sent k' = s_sent k @ concat (map (wire_frame pb) ms)"
  using assms
proof (induction ms arbitrary: s k)
  case Nil
  then show ?case by simp
next
  case (Cons m ms)
  then obtain es where es: "network_send_message pb fd (Some \<lparr>mt_msg = Some m\<rparr>) s =
      Some (0, set_out fd es (wire_frame pb m) s)" "WriteErr \<notin> set es"
    using network_send_message_ok [of s m pb fd k] by (auto simp: messages_ok_def)
  then show ?case
    using Cons.prems Cons.IH [of "set_out fd es (wire_frame pb m) s"
        "k\<lparr>s_out := es, s_sent := s_sent k @ wire_frame pb m\<rparr>"]
    by (auto simp: messages_ok_def)
qed

lemma receive_messages_ok:
  assumes "protobuf_ok pb" "outcomes s = []" "messages_ok pb ms"
    and "socks s fd = Some k" "stream (s_in k) = Some (concat (map (wire_frame pb) ms) @ rest)"
  shows "\<exists>s'. receive_messages pb fd (length ms) s =
      Some (map (\<lambda>m. Some \<lparr>mt_msg = Some (message_wire m)\<rparr>) ms, s') \<and>
    (\<exists>k'. socks s' fd = Some k' \<and> stream (s_in k') = Some rest)"
  using assms(2-)
proof (induction ms arbitrary: s k)
  case Nil
  then show ?case by simp
next
  case (Cons m ms)
  then obtain es where es: "network_receive_message pb fd s = Some (Some \<lparr>mt_msg = Some (message_wire m)\<rparr>,
      (set_in fd es s)\<lparr>live := live s + message_blocks (Some (message_wire m)) + 1\<rparr>)"
      "stream es = Some (concat (map (wire_frame pb) ms) @ rest)"
    using network_receive_message_ok [OF assms(1), of s m fd k "concat (map (wire_frame pb) ms) @ rest"]
    by (auto simp: messages_ok_def)
  then show ?case
    using Cons.prems Cons.IH [of "(set_in fd es s)\<lparr>live := live s + message_blocks (Some (message_wire m)) + 1\<rparr>"
        "k\<lparr>s_in := es\<rparr>"]
    by (auto simp: messages_ok_def)
qed

text \<open>Whatever arrives, receiving has no undefined behaviour.\<close>

lemma consume_outcome: "length bs = n \<or> q = None" if "consume es n = (q, es')" "q = Some bs \<or> q = None"
  using that consume_length by auto

lemma read_loop_total:
  assumes "int (length buffer) = sz"
  shows "\<exists>q s'. read_loop fd buffer 0 sz s = Some (q, s') \<and>
    (\<forall>b. q = Some b \<longrightarrow> int (length b) = sz) \<and>
    outcomes s' = outcomes s \<and> live s' = live s - (if q = None then 1 else 0)"
proof (cases "socks s fd")
  case None
  then show ?thesis
    using assms read_loop_closed [of s fd 0 sz buffer]
    by (cases "0 < sz") (simp_all add: read_loop.simps [of fd buffer 0 sz s])
next
  case (Some k)
  obtain q es where q: "consume (s_in k) (nat sz) = (q, es)" by fastforce
  have "read_loop fd buffer 0 sz s = Some (read_outcome fd [] s (q, es))"
    using read_loop_eq [OF Some assms, of 0] assms q by simp
  moreover have "int (length b) = sz" if "q = Some b" for b
    using consume_length [of "s_in k" "nat sz" b es] q that assms by simp
  ultimately show ?thesis
    by (cases q) (auto simp: read_outcome_def)
qed

lemma network_read_buffer_total:
  assumes "0 \<le> n"
  shows "\<exists>q s'. network_read_buffer fd n s = Some (q, s') \<and>
    (\<forall>b. q = Some b \<longrightarrow> int (length b) = n) \<and>
    (outcomes s = [] \<longrightarrow> outcomes s' = [] \<and> live s' = live s + (if q = None then 0 else 1))"
proof -
  obtain ok s1 where m: "malloc n s = (ok, s1)" by fastforce
  show ?thesis
  proof (cases ok)
    case True
    have "int (length (fresh_block n s)) = n" using assms by simp
    then obtain q s' where q: "read_loop fd (fresh_block n s) 0 n s1 = Some (q, s')"
        "\<forall>b. q = Some b \<longrightarrow> int (length b) = n" "outcomes s' = outcomes s1"
        "live s' = live s1 - (if q = None then 1 else 0)"
      using read_loop_total by blast
    have "network_read_buffer fd n s = Some (q, s')"
      using m True q(1) by (simp add: network_read_buffer_def)
    moreover have "outcomes s = [] \<longrightarrow> s1 = s\<lparr>live := live s + 1\<rparr>"
      using m assms by (auto simp: alloc_simps)
    ultimately show ?thesis using q(2-4) by auto
  next
    case False
    with m assms show ?thesis by (auto simp: network_read_buffer_def alloc_simps)
  qed
qed

lemma buffer_to_message_total:
  assumes "int (length b) = n" "in_int n" "\<forall>m. release_message pb m = message_blocks (Some m)"
  shows "\<exists>q s'. buffer_to_message pb (Some b) n s = Some (q, s') \<and>
    (outcomes s = [] \<longrightarrow> (\<exists>m. q = Some \<lparr>mt_msg = m\<rparr> \<and>
      outcomes s' = [] \<and> live s' = live s + message_blocks m + 1))"
proof -
  have "size_of_int n = length b"
    using assms(1,2) by (subst size_of_int_id) (auto simp: int_range)
  then have read: "read_at 0 (size_of_int n) b = Some b"
    using read_at_append [of "[]" 0 "length b" b "[]"] by simp
  obtain r where r: "unpack_message pb b = r" by simp
  show ?thesis
  proof (cases r)
    case None
    then show ?thesis
      using assms(1) read r
      by (auto simp: buffer_to_message_def message__unpack_def unpack_with_def alloc_simps message_sizes
          message_blocks_def split: prod.splits)
  next
    case (Some m)
    then show ?thesis
      using assms read r
      by (auto simp: buffer_to_message_def message__unpack_def unpack_with_def alloc_simps message_sizes
          split: prod.splits)
  qed
qed

definition ex_net :: net where
  "ex_net = heap.extend ex_heap
    \<lparr>socks = (\<lambda>_. None), new_fds = [], connects = [], dialled = [], closed = []\<rparr>"


lemma ex_net_sel [simp]:
  "outcomes ex_net = []" "live ex_net = 0" "socks ex_net = (\<lambda>_. None)"
  by (simp_all add: ex_net_def heap.defs)

section \<open>Properties\<close>

text \<open>C16: messages that one end sends arrive at the other end as the same messages in the same order,
  however few bytes each call of \<^verbatim>\<open>write\<close> accepts, however the network cuts the stream into pieces,
  and whichever calls are interrupted; sending leaves no memory behind and reading leaves the rest
  of the stream unread.\<close>

theorem messages_arrive_in_order:
  assumes "protobuf_ok pb" "messages_ok pb ms" "outcomes s = []" "outcomes r = []"
    and "socks s fd = Some k" "WriteErr \<notin> set (s_out k)"
    and "socks r fd' = Some k'" "stream (s_in k') = Some (concat (map (wire_frame pb) ms) @ rest)"
  shows "\<exists>s' r' k1 k1'.
    send_messages pb fd ms s = Some (replicate (length ms) 0, s') \<and> live s' = live s \<and>
    socks s' fd = Some k1 \<and> s_sent k1 = s_sent k @ concat (map (wire_frame pb) ms) \<and>
    receive_messages pb fd' (length ms) r =
      Some (map (\<lambda>m. Some \<lparr>mt_msg = Some (message_wire m)\<rparr>) ms, r') \<and>
    socks r' fd' = Some k1' \<and> stream (s_in k1') = Some rest"
  using send_messages_ok [OF assms(3,2,5,6)] receive_messages_ok [OF assms(1,4,2,7,8)] by blast

lemma ex_message_length: "int (length (pack_message wire_protobuf ex_message)) \<le> INT_MAX"
  by (simp add: ex_message_def wire_protobuf_def wire_pack_message_def wire_pack_entry_def
      wire_pack_data_def nullable_fields_def data_fields_def enc_fields_def varint_short
      string_bytes_def INT_MAX_def op_codes enum_varint_def)

theorem messages_arrive_in_order_witness:
  "\<exists>s' r' k1 k1'.
    send_messages wire_protobuf 3 [ex_message] (ex_net\<lparr>socks := [3 \<mapsto>
        \<lparr>s_in = [], s_out = [Accept 1, WriteIntr, Accept 5], s_sent = []\<rparr>]\<rparr>) =
      Some (replicate (length [ex_message]) 0, s') \<and>
    live s' = live (ex_net\<lparr>socks := [3 \<mapsto>
        \<lparr>s_in = [], s_out = [Accept 1, WriteIntr, Accept 5], s_sent = []\<rparr>]\<rparr>) \<and>
    socks s' 3 = Some k1 \<and>
    s_sent k1 = s_sent \<lparr>s_in = [], s_out = [Accept 1, WriteIntr, Accept 5], s_sent = []\<rparr> @
      concat (map (wire_frame wire_protobuf) [ex_message]) \<and>
    receive_messages wire_protobuf 4 (length [ex_message]) (ex_net\<lparr>socks := [4 \<mapsto>
        \<lparr>s_in = [ReadIntr, Chunk (take 2 (wire_frame wire_protobuf ex_message)), ReadIntr,
                 Chunk (drop 2 (wire_frame wire_protobuf ex_message))],
         s_out = [], s_sent = []\<rparr>]\<rparr>) =
      Some (map (\<lambda>m. Some \<lparr>mt_msg = Some (message_wire m)\<rparr>) [ex_message], r') \<and>
    socks r' 4 = Some k1' \<and> stream (s_in k1') = Some []"
proof (rule messages_arrive_in_order [OF protobuf_ok_wire])
  show "messages_ok wire_protobuf [ex_message]"
    by (simp add: messages_ok_def ex_message_ok ex_message_length)
  have "4 \<le> length (wire_frame wire_protobuf ex_message)"
    by (simp add: wire_frame_def network.length_frame)
  then show "stream (s_in \<lparr>s_in = [ReadIntr, Chunk (take 2 (wire_frame wire_protobuf ex_message)),
        ReadIntr, Chunk (drop 2 (wire_frame wire_protobuf ex_message))], s_out = [], s_sent = []\<rparr>) =
      Some (concat (map (wire_frame wire_protobuf) [ex_message]) @ [])"
    by auto
qed simp_all

text \<open>Reading and unpacking as many bytes as the size announces.\<close>

lemma receive_body_total:
  assumes "protobuf_ok pb" "in_int n" "\<not> n < 0"
  shows "\<exists>q s'. Option.bind (network_read_buffer fd n s) (\<lambda>(b, s). if b = None then Some (None, s)
      else do { (m, s) \<leftarrow> buffer_to_message pb b n s; let s = free b s; Some (m, s) }) = Some (q, s') \<and>
    (outcomes s = [] \<longrightarrow> live s' = live s + (case q of None \<Rightarrow> 0 | Some x \<Rightarrow> message_blocks (mt_msg x) + 1))"
proof -
  obtain q s1 where q: "network_read_buffer fd n s = Some (q, s1)" "\<forall>b. q = Some b \<longrightarrow> int (length b) = n"
      "outcomes s = [] \<longrightarrow> outcomes s1 = [] \<and> live s1 = live s + (if q = None then 0 else 1)"
    using network_read_buffer_total [of n fd s] assms(3) by (metis linorder_not_less)
  show ?thesis
  proof (cases q)
    case None
    with q show ?thesis by simp
  next
    case (Some b)
    then obtain q2 s2 where "buffer_to_message pb (Some b) n s1 = Some (q2, s2)"
        "outcomes s1 = [] \<longrightarrow> (\<exists>m. q2 = Some \<lparr>mt_msg = m\<rparr> \<and>
          outcomes s2 = [] \<and> live s2 = live s1 + message_blocks m + 1)"
      using buffer_to_message_total [of b n pb s1] q(2) assms(1,2) by (auto simp: protobuf_ok_def)
    with q Some show ?thesis by auto
  qed
qed

text \<open>C19: whatever bytes, interruptions, errors or end of stream a connection delivers, and whatever
  its state, receiving a message has no undefined behaviour: no byte is read or written outside a
  buffer, and when memory is available nothing but the returned message stays allocated.\<close>

theorem network_receive_message_safe:
  assumes "protobuf_ok pb"
  shows "\<exists>q s'. network_receive_message pb fd s = Some (q, s') \<and>
    (case outcomes s of
       [] \<Rightarrow> live s' = live s + (case q of None \<Rightarrow> 0 | Some x \<Rightarrow> message_blocks (mt_msg x) + 1)
     | _ # _ \<Rightarrow> True)"
proof -
  obtain q s1 where q: "network_read_buffer fd 4 s = Some (q, s1)" "\<forall>b. q = Some b \<longrightarrow> int (length b) = 4"
      "outcomes s = [] \<longrightarrow> outcomes s1 = [] \<and> live s1 = live s + (if q = None then 0 else 1)"
    using network_read_buffer_total [of 4 fd s] by auto
  show ?thesis
  proof (cases q)
    case None
    with q show ?thesis by (simp add: network_receive_message_def SIZE_OF_INT_def split: list.splits)
  next
    case (Some b)
    define n where "n = ntohl (bytes_int b)"
    have n_int: "in_int n" by (simp add: n_def ntohl_def in_int_bytes_int)
    show ?thesis
    proof (cases "n < 0")
      case True
      with q Some show ?thesis
        by (simp add: network_receive_message_def SIZE_OF_INT_def Let_def split: list.splits flip: n_def)
    next
      case False
      let ?s = "s1\<lparr>live := live s1 - 1\<rparr>"
      from receive_body_total [OF assms n_int False, of fd ?s] obtain q2 s2 where
          r: "Option.bind (network_read_buffer fd n ?s) (\<lambda>(b, s). if b = None then Some (None, s)
            else do { (m, s) \<leftarrow> buffer_to_message pb b n s; let s = free b s; Some (m, s) }) = Some (q2, s2)"
          "outcomes ?s = [] \<longrightarrow> live s2 = live ?s + (case q2 of None \<Rightarrow> 0 | Some x \<Rightarrow> message_blocks (mt_msg x) + 1)"
        by blast
      have "network_receive_message pb fd s = Some (q2, s2)"
        using q(1) Some False r(1) by (simp add: network_receive_message_def SIZE_OF_INT_def Let_def flip: n_def)
      with r(2) q(3) Some show ?thesis by (simp split: list.splits)
    qed
  qed
qed

theorem network_receive_message_safe_witness:
  "\<exists>q s'. network_receive_message wire_protobuf 3 (ex_net\<lparr>socks := [3 \<mapsto>
      \<lparr>s_in = [Chunk [255, 255, 255], ReadIntr, Chunk [0, 1, 2]], s_out = [], s_sent = []\<rparr>]\<rparr>) = Some (q, s') \<and>
    live s' = (case q of None \<Rightarrow> 0 | Some x \<Rightarrow> message_blocks (mt_msg x) + 1)"
  using network_receive_message_safe [OF protobuf_ok_wire, of 3 "ex_net\<lparr>socks := [3 \<mapsto>
      \<lparr>s_in = [Chunk [255, 255, 255], ReadIntr, Chunk [0, 1, 2]], s_out = [], s_sent = []\<rparr>]\<rparr>"]
  by simp

lemma network_send_buffer_prefix:
  assumes "socks s fd = Some k" "sz = int (length buffer)"
  shows "\<exists>es m. network_send_buffer fd buffer sz s =
      Some (if m = length buffer then 0 else -1, set_out fd es (take m buffer) s) \<and> m \<le> length buffer"
proof -
  obtain ok m es where a: "accept (s_out k) (length buffer) = (ok, m, es)"
    by (cases "accept (s_out k) (length buffer)")
  then have "ok \<longleftrightarrow> m = length buffer"
    using accept_fail accept_le by (cases ok) fastforce+
  then show ?thesis
    using network_send_buffer_eq [OF assms] a accept_le [OF a]
    by (intro exI [of _ es] exI [of _ m]) (auto simp: send_outcome_def)
qed

text \<open>What sending does to any connection: the bytes that were accepted, all of them exactly when it
  returns 0.\<close>

lemma network_send_message_any:
  assumes "outcomes s = []" "message_ok m" "int (length (pack_message pb m)) \<le> INT_MAX"
    and "socks s fd = Some k"
  shows "\<exists>r es sent rest n. network_send_message pb fd (Some \<lparr>mt_msg = Some m\<rparr>) s =
      Some (r, (set_out fd es sent s)\<lparr>live := n\<rparr>) \<and>
    r \<in> {0, -1} \<and> wire_frame pb m = sent @ rest \<and> (r = 0 \<longleftrightarrow> rest = [])"
proof -
  let ?P = "pack_message pb m" and ?s = "s\<lparr>live := live s + 1\<rparr>"
  let ?L = "int_bytes (htonl (int (length ?P)))"
  have buf: "message_to_buffer pb (Some \<lparr>mt_msg = Some m\<rparr>) (Some None) s =
      Some (int (length ?P), Some (Some ?P), ?s)"
    using message_to_buffer_ok assms(1-3) by blast
  have frame: "wire_frame pb m = ?L @ ?P" by (simp add: wire_frame_def network.frame_def)
  obtain es n where 1: "network_send_buffer fd ?L 4 ?s =
      Some (if n = 4 then 0 else -1, set_out fd es (take n ?L) ?s)" "n \<le> 4"
    using network_send_buffer_prefix [of ?s fd k 4 ?L] assms(4) by auto
  show ?thesis
  proof (cases "n = 4")
    case False
    have "?L = take n ?L @ drop n ?L" by simp
    with False 1 buf frame show ?thesis
      by (intro exI [of _ "-1"] exI [of _ es] exI [of _ "take n ?L"] exI [of _ "drop n ?L @ ?P"]
            exI [of _ "live s + 1"])
         (simp add: network_send_message_def SIZE_OF_INT_def)
  next
    case True
    let ?s1 = "set_out fd es ?L ?s"
    obtain es2 n2 where 2: "network_send_buffer fd ?P (int (length ?P)) ?s1 =
        Some (if n2 = length ?P then 0 else -1, set_out fd es2 (take n2 ?P) ?s1)" "n2 \<le> length ?P"
      using network_send_buffer_prefix [of ?s1 fd "k\<lparr>s_out := es, s_sent := s_sent k @ ?L\<rparr>"
          "int (length ?P)" ?P] assms(4)
      by (auto simp del: set_out_simps(1) live_set_out)
    have "take n2 ?P @ drop n2 ?P = ?P" by simp
    with True 1 2 buf frame show ?thesis
      by (intro exI [of _ "if n2 = length ?P then 0 else -1"] exI [of _ es2]
            exI [of _ "?L @ take n2 ?P"] exI [of _ "drop n2 ?P"] exI [of _ "live s"])
         (simp add: network_send_message_def SIZE_OF_INT_def)
  qed
qed

text \<open>On a descriptor that is not open every write fails.\<close>

lemma network_send_message_closed:
  assumes "outcomes s = []" "message_ok m" "int (length (pack_message pb m)) \<le> INT_MAX"
    and "socks s fd = None"
  shows "\<exists>n. network_send_message pb fd (Some \<lparr>mt_msg = Some m\<rparr>) s = Some (-1, s\<lparr>live := n\<rparr>)"
proof -
  have "send_loop fd (int_bytes i) 0 4 (s\<lparr>live := live s + 1\<rparr>) = Some (-1, s\<lparr>live := live s + 1\<rparr>)" for i
    using assms(4) by (subst send_loop.simps) (simp add: read_at_def write_call_def)
  then show ?thesis
    using message_to_buffer_ok [OF assms(1-3), of None] assms(4)
    by (intro exI [of _ "live s + 1"])
       (simp add: network_send_message_def SIZE_OF_INT_def network_send_buffer_def)
qed

text \<open>Sending a message over an open connection always returns, 0 or -1; what was sent by then is a
  prefix of the frame of the message, and the whole frame exactly when the result is 0.\<close>

theorem network_send_message_prefix:
  assumes "outcomes s = []" "message_ok m" "int (length (pack_message pb m)) \<le> INT_MAX"
    and "socks s fd = Some k"
  shows "\<exists>r s' k' sent rest. network_send_message pb fd (Some \<lparr>mt_msg = Some m\<rparr>) s = Some (r, s') \<and>
    r \<in> {0, -1} \<and> socks s' fd = Some k' \<and> s_sent k' = s_sent k @ sent \<and>
    wire_frame pb m = sent @ rest \<and> (r = 0 \<longleftrightarrow> rest = [])"
proof -
  obtain r es sent rest n where *: "network_send_message pb fd (Some \<lparr>mt_msg = Some m\<rparr>) s =
      Some (r, (set_out fd es sent s)\<lparr>live := n\<rparr>)"
      "r \<in> {0, -1}" "wire_frame pb m = sent @ rest" "r = 0 \<longleftrightarrow> rest = []"
    using network_send_message_any [OF assms] by blast
  then show ?thesis
    using assms(4)
    by (intro exI [of _ r] exI [of _ "(set_out fd es sent s)\<lparr>live := n\<rparr>"]
          exI [of _ "k\<lparr>s_out := es, s_sent := s_sent k @ sent\<rparr>"] exI [of _ sent] exI [of _ rest]) simp
qed

theorem network_send_message_prefix_witness:
  "\<exists>r s' k' sent rest. network_send_message wire_protobuf 3 (Some \<lparr>mt_msg = Some ex_message\<rparr>)
      (ex_net\<lparr>socks := [3 \<mapsto> \<lparr>s_in = [], s_out = [Accept 6, WriteErr], s_sent = []\<rparr>]\<rparr>) = Some (r, s') \<and>
    r \<in> {0, -1} \<and> socks s' 3 = Some k' \<and>
    s_sent k' = s_sent \<lparr>s_in = [], s_out = [Accept 6, WriteErr], s_sent = []\<rparr> @ sent \<and>
    wire_frame wire_protobuf ex_message = sent @ rest \<and> (r = 0 \<longleftrightarrow> rest = [])"
  by (rule network_send_message_prefix [OF _ ex_message_ok ex_message_length]) simp_all

text \<open>When the first write of a frame fails, sending returns -1 but the packed message is not freed:
  every such failure leaks a block of memory.\<close>

theorem network_send_message_leak:
  assumes "outcomes s = []" "message_ok m" "int (length (pack_message pb m)) \<le> INT_MAX"
    and "socks s fd = Some k" "s_out k = WriteErr # es"
  shows "\<exists>s'. network_send_message pb fd (Some \<lparr>mt_msg = Some m\<rparr>) s = Some (-1, s') \<and>
    live s' = live s + 1"
proof -
  have "network_send_buffer fd (int_bytes n) 4 (s\<lparr>live := live s + 1\<rparr>) =
      Some (-1, set_out fd es [] (s\<lparr>live := live s + 1\<rparr>))" for n
    using network_send_buffer_eq [of "s\<lparr>live := live s + 1\<rparr>" fd k 4 "int_bytes n"] assms(4,5)
    by (simp add: send_outcome_def numeral_eq_Suc)
  with message_to_buffer_ok [OF assms(1-3)] show ?thesis
    by (simp add: network_send_message_def SIZE_OF_INT_def)
qed

theorem network_send_message_leak_witness:
  "\<exists>s'. network_send_message wire_protobuf 3 (Some \<lparr>mt_msg = Some ex_message\<rparr>)
      (ex_net\<lparr>socks := [3 \<mapsto> \<lparr>s_in = [], s_out = [WriteErr], s_sent = []\<rparr>]\<rparr>) = Some (-1, s') \<and>
    live s' = live (ex_net\<lparr>socks := [3 \<mapsto> \<lparr>s_in = [], s_out = [WriteErr], s_sent = []\<rparr>]\<rparr>) + 1"
  by (rule network_send_message_leak [OF _ ex_message_ok ex_message_length, where es = "[]"]) (simp, simp, simp)

lemma strtok_token:
  assumes "t \<noteq> []" "sep \<notin> set t"
  shows "strtok sep (t @ sep # rest) = Some (t, rest)" "strtok sep t = Some (t, [])"
proof -
  obtain c cs where t: "t = c # cs" "c \<noteq> sep" using assms by (cases t) auto
  have tw: "takeWhile ((\<noteq>) sep) (t @ u) = t @ takeWhile ((\<noteq>) sep) u"
    "dropWhile ((\<noteq>) sep) (t @ u) = dropWhile ((\<noteq>) sep) u" for u
    using assms(2) by (auto intro: takeWhile_append2 dropWhile_append2)
  show "strtok sep (t @ sep # rest) = Some (t, rest)"
    unfolding strtok_def Let_def using t tw [of "sep # rest"] by auto
  show "strtok sep t = Some (t, [])"
    unfolding strtok_def Let_def using t tw [of "[]"] dropWhile_eq_Nil_conv [of "(\<noteq>) sep" t] assms(2)
    by (auto simp del: dropWhile_eq_Nil_conv)
qed

lemma digit_char_neq:
  assumes "is_digit c"
  shows "\<not> is_space c" "c \<noteq> CHR ''-''" "c \<noteq> CHR ''+''" "c \<noteq> CHR '':''"
  using assms by (auto simp: is_digit_def is_space_def)

lemma atoi_decimal_string:
  assumes "int p \<le> INT_MAX"
  shows "atoi (decimal_string p) = int p" "atoi (CHR ''-'' # decimal_string p) = - int p"
proof -
  obtain c cs where c: "decimal_string p = c # cs" "is_digit c"
    using decimal_string_digits [of p] by (cases "decimal_string p") auto
  have "decimal (c # cs) = p" using decimal_decimal_string [of p] by (simp add: c(1))
  moreover have "(case c # cs of CHR ''-'' # t \<Rightarrow> - int (decimal t) | CHR ''+'' # t \<Rightarrow> int (decimal t)
      | _ \<Rightarrow> int (decimal (c # cs))) = int (decimal (c # cs))"
    using digit_char_neq [OF c(2)] by (auto split: char.splits bool.splits)
  moreover have "in_int (int p)" "in_int (- int p)" using assms by (simp_all add: int_range)
  ultimately show "atoi (decimal_string p) = int p" "atoi (CHR ''-'' # decimal_string p) = - int p"
    using digit_char_neq [OF c(2)] assms
    by (simp_all add: atoi_def c(1) Let_def is_space_def [of "CHR ''-''"] INT_MAX_def)
qed

text \<open>A text \<^verbatim>\<open>address:port\<close> with an address that is not empty and has no colon, and with a decimal
  port in the range of \<^verbatim>\<open>int\<close>, gives exactly that address and that port; with a minus sign the port
  is accepted all the same, although the contract asks for a positive number.\<close>

theorem parse_address_port_correct:
  assumes "outcomes h = []" "ip \<noteq> []" "CHR '':'' \<notin> set ip" "0 < p" "int p \<le> INT_MAX"
  shows "parse_address_port (Some (ip @ '':'' @ decimal_string p)) a b h =
      (0, Some (Some ip), Some (int p), h\<lparr>live := live h + 1\<rparr>) \<and>
    parse_address_port (Some (ip @ '':-'' @ decimal_string p)) a b h =
      (0, Some (Some ip), Some (- int p), h\<lparr>live := live h + 1\<rparr>)"
proof -
  have digits: "decimal_string p \<noteq> []" "CHR '':'' \<notin> set (decimal_string p)"
    using decimal_string_digits [of p] digit_char_neq(4) by (auto simp: list_all_iff)
  then have neg: "CHR ''-'' # decimal_string p \<noteq> []" "CHR '':'' \<notin> set (CHR ''-'' # decimal_string p)"
    by simp_all
  show ?thesis
    using assms strtok_token(1) [OF assms(2,3)] strtok_token(2) [OF digits] strtok_token(2) [OF neg]
    by (simp add: parse_address_port_def ADDRESS_PORT_SEPARATOR_def atoi_decimal_string alloc_simps Let_def)
qed

theorem parse_address_port_correct_witness:
  "parse_address_port (Some (''127.0.0.1'' @ '':'' @ decimal_string 2181)) None None ex_heap =
      (0, Some (Some ''127.0.0.1''), Some (int 2181), ex_heap\<lparr>live := live ex_heap + 1\<rparr>) \<and>
    parse_address_port (Some (''127.0.0.1'' @ '':-'' @ decimal_string 2181)) None None ex_heap =
      (0, Some (Some ''127.0.0.1''), Some (- int 2181), ex_heap\<lparr>live := live ex_heap + 1\<rparr>)"
  by (rule parse_address_port_correct) (simp_all add: INT_MAX_def)

end
