(* ===== verification/KV_Zk.thy ===== *)
theory KV_Zk
  imports KV_Inet
begin

text \<open>
  \<^verbatim>\<open>source/zk-private.c\<close>: the roles of the servers, kept in two nodes of a ZooKeeper service. The
  ZooKeeper client library is not part of the repository: it is the parameter \<^verbatim>\<open>zoo\<close>, a record of
  the calls the sources make, over a state of the service of any type; what its documentation
  promises of nodes is the predicate \<^verbatim>\<open>zoo_ok\<close>, and a table of nodes is a concrete instance of it.
  The globals of the file and what the host system knows of sockets are the state.
\<close>

section \<open>The service and the state\<close>

record 's zoo =
  zookeeper_init :: "string option \<Rightarrow> 's \<Rightarrow> bool \<times> 's"      \<comment> \<open>whether a handle is returned\<close>
  zoo_exists :: "string \<Rightarrow> 's \<Rightarrow> int \<times> 's"
  zoo_create :: "string \<Rightarrow> string option \<Rightarrow> int \<Rightarrow> 's \<Rightarrow> int \<times> 's"   \<comment> \<open>path, value, mode\<close>
  zoo_get :: "string \<Rightarrow> 's \<Rightarrow> int \<times> string \<times> 's"            \<comment> \<open>result and the data of the node\<close>
  zoo_delete :: "string \<Rightarrow> 's \<Rightarrow> int \<times> 's"
  zoo_wget_children :: "string \<Rightarrow> 's \<Rightarrow> int \<times> string list \<times> 's"
  zookeeper_close :: "'s \<Rightarrow> 's"

datatype ServerRole = PRIMARY | BACKUP | NONE

type_synonym ipv4 = "nat \<times> nat \<times> nat \<times> nat"

record 's zk = net +
  service :: 's
  is_connected :: bool
  conn_events :: "bool list"        \<comment> \<open>whether the session connects during the coming calls of \<^verbatim>\<open>sleep\<close>\<close>
  server_role :: ServerRole
  servers_listener :: bool          \<comment> \<open>whether a listener is registered\<close>
  sock_names :: "int \<Rightarrow> (ipv4 \<times> nat) option"   \<comment> \<open>what \<^verbatim>\<open>getsockname\<close> knows\<close>

definition ZOK :: int where "ZOK = 0"
definition ZNONODE :: int where "ZNONODE = -101"
definition ZNODEEXISTS :: int where "ZNODEEXISTS = -110"
definition ZOO_EPHEMERAL :: int where "ZOO_EPHEMERAL = 1"
definition ZOO_SESSION_EVENT :: int where "ZOO_SESSION_EVENT = -1"
definition ZOO_CHILD_EVENT :: int where "ZOO_CHILD_EVENT = 4"
definition ZOO_CONNECTED_STATE :: int where "ZOO_CONNECTED_STATE = 3"

definition SERVER_ADDRESS_AND_PORT_MAX_LEN :: nat where
  "SERVER_ADDRESS_AND_PORT_MAX_LEN = 16 + 1 + 5 + 1"

definition ROOT_ZNODE_PATH :: string where "ROOT_ZNODE_PATH = ''/kvstore''"
definition PRIMARY_TREE_SERVER_ZNODE_PATH :: string where
  "PRIMARY_TREE_SERVER_ZNODE_PATH = ''/kvstore/primary''"
definition BACKUP_TREE_SERVER_ZNODE_PATH :: string where
  "BACKUP_TREE_SERVER_ZNODE_PATH = ''/kvstore/backup''"

lemmas zk_codes = ZOK_def ZNONODE_def ZNODEEXISTS_def ZOO_EPHEMERAL_def

definition on_service :: "('s \<Rightarrow> 'r \<times> 's) \<Rightarrow> ('s, 'z) zk_scheme \<Rightarrow> 'r \<times> ('s, 'z) zk_scheme" where
  "on_service f s = (case f (service s) of (r, v) \<Rightarrow> (r, s\<lparr>service := v\<rparr>))"

section \<open>Definitions\<close>

definition zk_connection_watcher :: "int \<Rightarrow> int \<Rightarrow> ('s, 'z) zk_scheme \<Rightarrow> ('s, 'z) zk_scheme" where
  "zk_connection_watcher type state s =
    (if type = ZOO_SESSION_EVENT \<and> state = ZOO_CONNECTED_STATE then s\<lparr>is_connected := True\<rparr> else s)"

definition zk_exists :: "'s zoo \<Rightarrow> string \<Rightarrow> ('s, 'z) zk_scheme \<Rightarrow> int \<times> ('s, 'z) zk_scheme" where
  "zk_exists zoo path = on_service (zoo_exists zoo path)"

text \<open>The length that is passed covers the closing NUL, so the NUL is part of the data of the node.\<close>

definition zk_create ::
  "'s zoo \<Rightarrow> string \<Rightarrow> string option \<Rightarrow> int \<Rightarrow> ('s, 'z) zk_scheme \<Rightarrow> int \<times> ('s, 'z) zk_scheme" where
  "zk_create zoo path val mode =
    on_service (zoo_create zoo path (map_option (\<lambda>v. v @ [CHR 0x00]) val) mode)"

text \<open>\<^verbatim>\<open>String_vector\<close>: the strings, \<^verbatim>\<open>None\<close> while the fields have not been written. Destroying it
  reads the fields.\<close>

definition String_vector_destroy ::
  "string list option \<Rightarrow> 'z heap_scheme \<Rightarrow> 'z heap_scheme option" where
  "String_vector_destroy vector h =
    (case vector of
       None \<Rightarrow> None
     | Some v \<Rightarrow> Some (h\<lparr>live := live h - int (length v) - 2\<rparr>))"

text \<open>\<^verbatim>\<open>malloc\<close> of a vector and the call that fills it; the strings and their array are new blocks.\<close>

definition zk_get_children ::
  "'s zoo \<Rightarrow> ('s, 'z) zk_scheme \<Rightarrow> int \<times> string list option \<times> ('s, 'z) zk_scheme" where
  "zk_get_children zoo s =
    (case on_service (\<lambda>v. case zoo_wget_children zoo ROOT_ZNODE_PATH v of (r, c, v) \<Rightarrow> ((r, c), v)) s of
       ((r, c), s) \<Rightarrow>
         if r = ZOK then (r, Some c, s\<lparr>live := live s + int (length c) + 1\<rparr>) else (r, None, s))"

text \<open>A listener is a function of the component that registers it; the watcher calls it.\<close>

definition zk_children_watcher ::
  "'s zoo \<Rightarrow> (('s, 'z) zk_scheme \<Rightarrow> ('s, 'z) zk_scheme option) \<Rightarrow> int \<Rightarrow> int
    \<Rightarrow> ('s, 'z) zk_scheme \<Rightarrow> ('s, 'z) zk_scheme option" where
  "zk_children_watcher zoo listener type state s =
    (case malloc 16 s of (ok, s) \<Rightarrow>
      if \<not> ok then None
      else if type = ZOO_CHILD_EVENT \<and> state = ZOO_CONNECTED_STATE then
        (case zk_get_children zoo s of (r, children, s) \<Rightarrow> do {
           s \<leftarrow> (if servers_listener s then listener s else Some s);
           String_vector_destroy children s
         })
      else String_vector_destroy None s)"

fun zk_wait_connected :: "nat \<Rightarrow> ('s, 'z) zk_scheme \<Rightarrow> ('s, 'z) zk_scheme" where
  "zk_wait_connected 0 s = s"
| "zk_wait_connected (Suc attempts) s =
    (if is_connected s then s
     else (case conn_events s of
             [] \<Rightarrow> zk_wait_connected attempts s
           | up # events \<Rightarrow>
               (let s = s\<lparr>conn_events := events\<rparr>
                in zk_wait_connected attempts
                     (if up then zk_connection_watcher ZOO_SESSION_EVENT ZOO_CONNECTED_STATE s
                      else s))))"

definition zk_connect ::
  "'s zoo \<Rightarrow> string option \<Rightarrow> ('s, 'z) zk_scheme \<Rightarrow> (int \<times> ('s, 'z) zk_scheme) option" where
  "zk_connect zoo zookeeper_address_and_port s =
    (case on_service (zookeeper_init zoo zookeeper_address_and_port) s of (zh, s) \<Rightarrow>
      if \<not> zh then Some (-1, s)
      else (let s = zk_wait_connected 5 s in
        if \<not> is_connected s then Some (-1, s)
        else (case zk_exists zoo ROOT_ZNODE_PATH s of (r, s) \<Rightarrow>
          (case (if r = ZNONODE then zk_create zoo ROOT_ZNODE_PATH None 0 s else (ZOK, s)) of (r, s) \<Rightarrow>
            if r \<noteq> ZOK then Some (-1, s)
            else (case malloc 16 s of (ok, s) \<Rightarrow>
              if \<not> ok then None
              else (case zk_get_children zoo s of (r, children, s) \<Rightarrow> do {
                s \<leftarrow> String_vector_destroy children s;
                Some (0, s)
              }))))))"

text \<open>\<^verbatim>\<open>inet_ntoa\<close> and the address \<^verbatim>\<open>sprintf\<close> builds of it; the array must hold it with its NUL.\<close>

fun inet_ntoa :: "ipv4 \<Rightarrow> string" where
  "inet_ntoa (a, b, c, d) =
    decimal_string a @ ''.'' @ decimal_string b @ ''.'' @ decimal_string c @ ''.'' @ decimal_string d"

definition address_and_port :: "ipv4 \<Rightarrow> nat \<Rightarrow> string" where
  "address_and_port ip port = inet_ntoa ip @ '':'' @ decimal_string port"

definition zk_register_tree_server ::
  "'s zoo \<Rightarrow> int \<Rightarrow> ('s, 'z) zk_scheme \<Rightarrow> (int \<times> ('s, 'z) zk_scheme) option" where
  "zk_register_tree_server zoo server_listening_socket_fd s =
    (case sock_names s server_listening_socket_fd of
       None \<Rightarrow> Some (-1, s)
     | Some (server_ip_address, server_port) \<Rightarrow>
         (let server_address_and_port = address_and_port server_ip_address server_port in
          if \<not> length server_address_and_port < SERVER_ADDRESS_AND_PORT_MAX_LEN then None
          else Some (case zk_exists zoo PRIMARY_TREE_SERVER_ZNODE_PATH s of (r, s) \<Rightarrow>
            if r = ZNONODE then
              (case zk_create zoo PRIMARY_TREE_SERVER_ZNODE_PATH (Some server_address_and_port)
                 ZOO_EPHEMERAL s of (r, s) \<Rightarrow>
                if r = ZOK then (0, s\<lparr>server_role := PRIMARY\<rparr>) else (-1, s))
            else (case zk_exists zoo BACKUP_TREE_SERVER_ZNODE_PATH s of (r, s) \<Rightarrow>
              if r = ZNONODE then
                (case zk_create zoo BACKUP_TREE_SERVER_ZNODE_PATH (Some server_address_and_port)
                   ZOO_EPHEMERAL s of (r, s) \<Rightarrow>
                  if r = ZOK then (0, s\<lparr>server_role := BACKUP\<rparr>) else (-1, s))
              else (-1, s)))))"

definition zk_get_tree_server_role :: "('s, 'z) zk_scheme \<Rightarrow> ServerRole" where
  "zk_get_tree_server_role s = server_role s"

text \<open>\<^verbatim>\<open>zoo_get\<close> copies what fits into a buffer; a string is then read up to its NUL, past the end of
  the buffer (undefined) when there is none.\<close>

definition fill_buffer :: "string \<Rightarrow> string \<Rightarrow> string" where
  "fill_buffer data buffer = take (length buffer) data @ drop (length data) buffer"

definition c_string :: "string \<Rightarrow> string option" where
  "c_string buffer =
    (if CHR 0x00 \<in> set buffer then Some (takeWhile (\<lambda>c. c \<noteq> CHR 0x00) buffer) else None)"

definition zk_get_server ::
  "'s zoo \<Rightarrow> string \<Rightarrow> ('s, 'z) zk_scheme \<Rightarrow> (string option \<times> ('s, 'z) zk_scheme) option" where
  "zk_get_server zoo path s =
    (case on_service (\<lambda>v. case zoo_get zoo path v of (r, d, v) \<Rightarrow> ((r, d), v)) s of ((r, d), s) \<Rightarrow>
      if r < 0 then Some (None, s)
      else do {
        server \<leftarrow> c_string (fill_buffer d (replicate SERVER_ADDRESS_AND_PORT_MAX_LEN (CHR 0x00)));
        Some (strdup server s)
      })"

definition zk_get_primary_tree_server ::
  "'s zoo \<Rightarrow> ('s, 'z) zk_scheme \<Rightarrow> (string option \<times> ('s, 'z) zk_scheme) option" where
  "zk_get_primary_tree_server zoo = zk_get_server zoo PRIMARY_TREE_SERVER_ZNODE_PATH"

definition zk_get_backup_tree_server ::
  "'s zoo \<Rightarrow> ('s, 'z) zk_scheme \<Rightarrow> (string option \<times> ('s, 'z) zk_scheme) option" where
  "zk_get_backup_tree_server zoo = zk_get_server zoo BACKUP_TREE_SERVER_ZNODE_PATH"

definition zk_register_servers_listener :: "bool \<Rightarrow> ('s, 'z) zk_scheme \<Rightarrow> ('s, 'z) zk_scheme" where
  "zk_register_servers_listener listener s = s\<lparr>servers_listener := listener\<rparr>"

text \<open>The local array of \<^verbatim>\<open>zk_update_server_roles\<close> is not initialized: it holds garbage.\<close>

definition zk_update_server_roles ::
  "'s zoo \<Rightarrow> ('s, 'z) zk_scheme \<Rightarrow> (int \<times> ('s, 'z) zk_scheme) option" where
  "zk_update_server_roles zoo s =
    (case zk_exists zoo PRIMARY_TREE_SERVER_ZNODE_PATH s of (r, s) \<Rightarrow>
      if r \<noteq> ZNONODE then Some (0, s)
      else (case zk_exists zoo BACKUP_TREE_SERVER_ZNODE_PATH s of (r, s) \<Rightarrow>
        if r \<noteq> ZOK then Some (0, s)
        else (case on_service (\<lambda>v. case zoo_get zoo BACKUP_TREE_SERVER_ZNODE_PATH v of (r, d, v) \<Rightarrow> ((r, d), v)) s of
          ((r, d), s) \<Rightarrow>
          if r < 0 then Some (-1, s)
          else do {
            let initial = map char_of_byte (fresh_block (int SERVER_ADDRESS_AND_PORT_MAX_LEN) s);
            new_primary_server \<leftarrow> c_string (fill_buffer d initial);
            let (r, s) = zk_create zoo PRIMARY_TREE_SERVER_ZNODE_PATH (Some new_primary_server) ZOO_EPHEMERAL s;
            if r \<noteq> ZOK then Some (-1, s)
            else (let s = (if server_role s = BACKUP then s\<lparr>server_role := PRIMARY\<rparr> else s)
                  in case on_service (zoo_delete zoo BACKUP_TREE_SERVER_ZNODE_PATH) s of (r, s) \<Rightarrow>
                       if r < 0 then Some (-1, s) else Some (0, s))
          })))"

definition zk_close :: "'s zoo \<Rightarrow> ('s, 'z) zk_scheme \<Rightarrow> ('s, 'z) zk_scheme" where
  "zk_close zoo s =
    s\<lparr>server_role := NONE, servers_listener := False, service := zookeeper_close zoo (service s)\<rparr>"

section \<open>What ZooKeeper promises\<close>

text \<open>
  A node is there from its creation to its deletion, with the data it was created with; a path names
  at most one node; reads change nothing. \<^verbatim>\<open>nodes\<close> reads the nodes of a state of the service.
\<close>

definition zoo_ok :: "'s zoo \<Rightarrow> ('s \<Rightarrow> string \<Rightarrow> string option) \<Rightarrow> bool" where
  "zoo_ok zoo nodes \<longleftrightarrow>
    (\<forall>p v. zoo_exists zoo p v = (if nodes v p = None then ZNONODE else ZOK, v)) \<and>
    (\<forall>p d m v. nodes v p \<noteq> None \<longrightarrow> zoo_create zoo p d m v = (ZNODEEXISTS, v)) \<and>
    (\<forall>p d m v. nodes v p = None \<longrightarrow>
      (\<exists>v'. zoo_create zoo p (Some d) m v = (ZOK, v') \<and> nodes v' = (nodes v)(p \<mapsto> d))) \<and>
    (\<forall>p v. nodes v p = None \<longrightarrow> zoo_get zoo p v = (ZNONODE, [], v)) \<and>
    (\<forall>p v d. nodes v p = Some d \<longrightarrow> zoo_get zoo p v = (ZOK, d, v)) \<and>
    (\<forall>p v. nodes v p \<noteq> None \<longrightarrow>
      (\<exists>v'. zoo_delete zoo p v = (ZOK, v') \<and> nodes v' = (nodes v)(p := None)))"

text \<open>A table of nodes keeps the promises.\<close>

definition table_zoo :: "(string \<Rightarrow> string option) zoo" where
  "table_zoo =
    \<lparr>zookeeper_init = (\<lambda>a v. (a \<noteq> None, v)),
     zoo_exists = (\<lambda>p v. (if v p = None then ZNONODE else ZOK, v)),
     zoo_create = (\<lambda>p d m v. if v p \<noteq> None then (ZNODEEXISTS, v)
       else (ZOK, v(p \<mapsto> (case d of None \<Rightarrow> [] | Some d \<Rightarrow> d)))),
     zoo_get = (\<lambda>p v. case v p of None \<Rightarrow> (ZNONODE, [], v) | Some d \<Rightarrow> (ZOK, d, v)),
     zoo_delete = (\<lambda>p v. if v p = None then (ZNONODE, v) else (ZOK, v(p := None))),
     zoo_wget_children = (\<lambda>p v. if v p = None then (ZNONODE, [], v) else (ZOK, [], v)),
     zookeeper_close = (\<lambda>v. v)\<rparr>"

lemma zoo_ok_table: "zoo_ok table_zoo (\<lambda>v. v)"
  by (simp add: zoo_ok_def table_zoo_def zk_codes)


section \<open>Addresses fit and read back\<close>

definition ip_ok :: "ipv4 \<Rightarrow> bool" where
  "ip_ok ip \<longleftrightarrow> (case ip of (a, b, c, d) \<Rightarrow> a < 256 \<and> b < 256 \<and> c < 256 \<and> d < 256)"

lemma length_decimal_string: "n < 10 ^ k \<Longrightarrow> 0 < k \<Longrightarrow> length (decimal_string n) \<le> k"
proof (induction k arbitrary: n)
  case (Suc k)
  show ?case
  proof (cases "n < 10")
    case True
    then show ?thesis by (simp add: decimal_string.simps [of n])
  next
    case False
    then have "0 < k" using Suc.prems(1) by (cases k) auto
    moreover have "n div 10 < 10 ^ k" using Suc.prems(1) by (simp add: less_mult_imp_div_less)
    ultimately show ?thesis
      using False Suc.IH [of "n div 10"] by (simp add: decimal_string.simps [of n])
  qed
qed simp

lemma length_inet_ntoa:
  assumes "ip_ok ip"
  shows "length (inet_ntoa ip) \<le> 15" "7 \<le> length (inet_ntoa ip)"
proof -
  obtain a b c d where ip: "ip = (a, b, c, d)" by (cases ip) auto
  have le: "length (decimal_string n) \<le> 3" if "n < 256" for n
    using that by (intro length_decimal_string) simp_all
  have ge: "1 \<le> length (decimal_string n)" for n
    using decimal_string_digits [of n] by (cases "decimal_string n") auto
  show "length (inet_ntoa ip) \<le> 15"
    using assms le [of a] le [of b] le [of c] le [of d] by (simp add: ip ip_ok_def)
  show "7 \<le> length (inet_ntoa ip)"
    using ge [of a] ge [of b] ge [of c] ge [of d] by (simp add: ip)
qed

lemma length_address_and_port:
  assumes "ip_ok ip" "port < 65536"
  shows "length (address_and_port ip port) < SERVER_ADDRESS_AND_PORT_MAX_LEN"
  using length_inet_ntoa [OF assms(1)] length_decimal_string [of port 5] assms(2)
  by (simp add: address_and_port_def SERVER_ADDRESS_AND_PORT_MAX_LEN_def)

lemma digit_char_not: "is_digit c \<Longrightarrow> c \<noteq> CHR ''.'' \<and> c \<noteq> CHR 0x00 \<and> c \<noteq> CHR '':''"
  by (auto simp: is_digit_def)

lemma set_decimal_string: "x \<in> set (decimal_string n) \<Longrightarrow> is_digit x"
  using decimal_string_digits [of n] by (auto simp: list_all_iff)

lemma address_chars:
  "CHR '':'' \<notin> set (inet_ntoa ip)" "CHR 0x00 \<notin> set (address_and_port ip port)"
proof -
  obtain a b c d where ip: "ip = (a, b, c, d)" by (cases ip) auto
  show "CHR '':'' \<notin> set (inet_ntoa ip)"
    using set_decimal_string digit_char_not by (auto simp: ip)
  show "CHR 0x00 \<notin> set (address_and_port ip port)"
    using set_decimal_string digit_char_not by (auto simp: ip address_and_port_def)
qed

lemma decimal_string_no_leading_zero: "hd (decimal_string n) = CHR ''0'' \<Longrightarrow> n = 0"
proof (induction n rule: decimal_string.induct)
  case (1 n)
  show ?case
  proof (cases "n < 10")
    case True
    then have "(of_char (hd (decimal_string n)) :: nat) = n + 48"
      by (subst decimal_string.simps) simp
    with "1.prems" show ?thesis by simp
  next
    case False
    then have "hd (decimal_string n) = hd (decimal_string (n div 10))"
      using decimal_string_digits [of "n div 10"] by (subst decimal_string.simps) simp
    with "1" False show ?thesis by auto
  qed
qed

lemma split_at_word: "sep \<notin> set w \<Longrightarrow> split_at sep (w @ sep # rest) = w # split_at sep rest"
  by (induction w) auto

lemma split_at_last: "sep \<notin> set w \<Longrightarrow> split_at sep w = [w]"
  by (induction w) auto

lemma inet_pton_ntoa: "ip_ok ip \<Longrightarrow> inet_pton (inet_ntoa ip)"
proof -
  assume ok: "ip_ok ip"
  obtain a b c d where ip: "ip = (a, b, c, d)" by (cases ip) auto
  have dot: "CHR ''.'' \<notin> set (decimal_string n)" for n
    using set_decimal_string digit_char_not by blast
  have split: "split_at CHR ''.'' (inet_ntoa ip) =
      [decimal_string a, decimal_string b, decimal_string c, decimal_string d]"
    by (simp add: ip split_at_word [OF dot, simplified] split_at_last [OF dot])
  have word: "decimal_string n \<noteq> [] \<and> list_all is_digit (decimal_string n) \<and>
      decimal (decimal_string n) < 256 \<and> (hd (decimal_string n) = CHR ''0'' \<longrightarrow> decimal_string n = ''0'')"
    if "n < 256" for n
    using that decimal_string_digits [of n] decimal_string_no_leading_zero [of n]
    by (auto simp: decimal_string.simps [of 0])
  show ?thesis
    using ok word [of a] word [of b] word [of c] word [of d]
    unfolding inet_pton_def split Let_def by (simp add: ip ip_ok_def)
qed

text \<open>A string with its NUL that fits into a buffer is read back.\<close>

lemma c_string_fill:
  assumes "CHR 0x00 \<notin> set a" "length a < length buffer"
  shows "c_string (fill_buffer (a @ [CHR 0x00]) buffer) = Some a"
proof -
  have "fill_buffer (a @ [CHR 0x00]) buffer = a @ CHR 0x00 # drop (Suc (length a)) buffer"
    using assms(2) by (simp add: fill_buffer_def)
  moreover have "takeWhile (\<lambda>c. c \<noteq> CHR 0x00) (a @ CHR 0x00 # rest) = a" for rest
    using assms(1) by (subst takeWhile_append2) auto
  ultimately show ?thesis by (simp add: c_string_def)
qed

lemma zk_get_server_ok:
  assumes "zoo_ok zoo nodes" "nodes (service s) path = Some (a @ [CHR 0x00])" "outcomes s = []"
    and "CHR 0x00 \<notin> set a" "length a < SERVER_ADDRESS_AND_PORT_MAX_LEN"
  shows "zk_get_server zoo path s = Some (Some a, s\<lparr>live := live s + 1\<rparr>)"
  using assms
  by (simp add: zk_get_server_def on_service_def zoo_ok_def ZOK_def c_string_fill alloc_simps)

lemma zk_get_server_none:
  assumes "zoo_ok zoo nodes" "nodes (service s) path = None"
  shows "zk_get_server zoo path s = Some (None, s)"
  using assms by (simp add: zk_get_server_def on_service_def zoo_ok_def ZNONODE_def)

lemma zk_exists_eq:
  assumes "zoo_ok zoo nodes"
  shows "zk_exists zoo p s = (if nodes (service s) p = None then ZNONODE else ZOK, s)"
  using assms by (simp add: zk_exists_def on_service_def zoo_ok_def)

lemma zk_create_ok:
  assumes "zoo_ok zoo nodes" "nodes (service s) p = None"
  shows "\<exists>v. zk_create zoo p (Some a) m s = (ZOK, s\<lparr>service := v\<rparr>) \<and>
    nodes v = (nodes (service s))(p \<mapsto> a @ [CHR 0x00])"
proof -
  obtain v where "zoo_create zoo p (Some (a @ [CHR 0x00])) m (service s) = (ZOK, v)"
      "nodes v = (nodes (service s))(p \<mapsto> a @ [CHR 0x00])"
    using assms unfolding zoo_ok_def by metis
  then show ?thesis by (intro exI [of _ v]) (simp add: zk_create_def on_service_def)
qed

lemma zk_delete_ok:
  assumes "zoo_ok zoo nodes" "nodes (service s) p \<noteq> None"
  shows "\<exists>v. on_service (zoo_delete zoo p) s = (ZOK, s\<lparr>service := v\<rparr>) \<and>
    nodes v = (nodes (service s))(p := None)"
proof -
  obtain v where "zoo_delete zoo p (service s) = (ZOK, v)" "nodes v = (nodes (service s))(p := None)"
    using assms unfolding zoo_ok_def by blast
  then show ?thesis by (intro exI [of _ v]) (simp add: on_service_def)
qed

lemmas zk_paths = PRIMARY_TREE_SERVER_ZNODE_PATH_def BACKUP_TREE_SERVER_ZNODE_PATH_def

lemma paths_distinct [simp]: "PRIMARY_TREE_SERVER_ZNODE_PATH \<noteq> BACKUP_TREE_SERVER_ZNODE_PATH"
    "BACKUP_TREE_SERVER_ZNODE_PATH \<noteq> PRIMARY_TREE_SERVER_ZNODE_PATH"
  by (simp_all add: zk_paths)


section \<open>Properties\<close>

definition ex_zk :: "(string \<Rightarrow> string option) zk" where
  "ex_zk = net.extend ex_net
    \<lparr>service = Map.empty, is_connected = True, conn_events = [], server_role = NONE,
     servers_listener = False, sock_names = [3 \<mapsto> ((127, 0, 0, 1), 5000)]\<rparr>"

lemma ex_zk_sel [simp]:
  "outcomes ex_zk = []" "live ex_zk = 0" "service ex_zk = Map.empty" "server_role ex_zk = NONE"
  "sock_names ex_zk = [3 \<mapsto> ((127, 0, 0, 1), 5000)]" "is_connected ex_zk" "new_fds ex_zk = []"
  "socks ex_zk = (\<lambda>_. None)" "servers_listener ex_zk = False"
  by (simp_all add: ex_zk_def net.defs ex_net_def heap.defs ex_heap_def)

lemma zk_register_roles:
  assumes "zoo_ok zoo nodes" "sock_names s fd = Some (ip, port)" "ip_ok ip" "port < 65536"
  shows "\<exists>r v role. zk_register_tree_server zoo fd s = Some (r, s\<lparr>service := v, server_role := role\<rparr>) \<and>
    (case (nodes (service s) PRIMARY_TREE_SERVER_ZNODE_PATH,
           nodes (service s) BACKUP_TREE_SERVER_ZNODE_PATH) of
       (None, _) \<Rightarrow> r = 0 \<and> role = PRIMARY \<and> nodes v =
         (nodes (service s))(PRIMARY_TREE_SERVER_ZNODE_PATH \<mapsto> address_and_port ip port @ [CHR 0x00])
     | (Some _, None) \<Rightarrow> r = 0 \<and> role = BACKUP \<and> nodes v =
         (nodes (service s))(BACKUP_TREE_SERVER_ZNODE_PATH \<mapsto> address_and_port ip port @ [CHR 0x00])
     | (Some _, Some _) \<Rightarrow> r = -1 \<and> role = server_role s \<and> v = service s)"
proof -
  let ?P = PRIMARY_TREE_SERVER_ZNODE_PATH and ?B = BACKUP_TREE_SERVER_ZNODE_PATH
  note ex = zk_exists_eq [OF assms(1)] and fits = length_address_and_port [OF assms(3,4)]
  show ?thesis
  proof (cases "nodes (service s) ?P")
    case None
    obtain v where "zk_create zoo ?P (Some (address_and_port ip port)) ZOO_EPHEMERAL s =
        (ZOK, s\<lparr>service := v\<rparr>)" "nodes v = (nodes (service s))(?P \<mapsto> address_and_port ip port @ [CHR 0x00])"
      using zk_create_ok [OF assms(1) None] by blast
    with None assms(2) fits show ?thesis
      by (intro exI [of _ 0] exI [of _ v] exI [of _ PRIMARY]) (simp add: zk_register_tree_server_def ex)
  next
    case (Some p)
    show ?thesis
    proof (cases "nodes (service s) ?B")
      case None
      obtain v where "zk_create zoo ?B (Some (address_and_port ip port)) ZOO_EPHEMERAL s =
          (ZOK, s\<lparr>service := v\<rparr>)" "nodes v = (nodes (service s))(?B \<mapsto> address_and_port ip port @ [CHR 0x00])"
        using zk_create_ok [OF assms(1) None] by blast
      with None Some assms(2) fits show ?thesis
        by (intro exI [of _ 0] exI [of _ v] exI [of _ BACKUP])
           (simp add: zk_register_tree_server_def ex zk_codes)
    next
      case (Some b)
      with \<open>nodes (service s) ?P = Some p\<close> assms(2) fits show ?thesis
        by (intro exI [of _ "-1"] exI [of _ "service s"] exI [of _ "server_role s"])
           (simp add: zk_register_tree_server_def ex zk_codes)
    qed
  qed
qed



text \<open>An address that a server stored is read back, and parses.\<close>

lemma registered_address_found:
  assumes "zoo_ok zoo nodes" "outcomes s = []" "ip_ok ip" "port < 65536"
    and "nodes (service s) path = Some (address_and_port ip port @ [CHR 0x00])"
  shows "zk_get_server zoo path s = Some (Some (address_and_port ip port), s\<lparr>live := live s + 1\<rparr>)"
  by (rule zk_get_server_ok [OF assms(1,5,2) address_chars(2) length_address_and_port [OF assms(3,4)]])

lemma registered_address_parsed:
  assumes "outcomes h = []" "ip_ok ip" "0 < port" "port < 65536"
  shows "parse_address_port (Some (address_and_port ip port)) None None h =
    (0, Some (Some (inet_ntoa ip)), Some (int port), h\<lparr>live := live h + 1\<rparr>)"
proof -
  have "inet_ntoa ip \<noteq> []" using length_inet_ntoa(2) [OF assms(2)] by auto
  moreover have digits: "decimal_string port \<noteq> []" "CHR '':'' \<notin> set (decimal_string port)"
    using decimal_string_digits [of port] set_decimal_string digit_char_not by blast+
  moreover have "int port \<le> INT_MAX" using assms(4) by (simp add: INT_MAX_def)
  ultimately show ?thesis
    using strtok_token(1) [OF _ address_chars(1) [of ip]] strtok_token(2) [OF digits] assms(1,3)
    by (simp add: parse_address_port_def address_and_port_def ADDRESS_PORT_SEPARATOR_def
        atoi_decimal_string alloc_simps Let_def)
qed

lemma backup_address_found:
  assumes "zoo_ok zoo nodes" "outcomes s = []" "ip_ok ip" "0 < port" "port < 65536"
    and "nodes (service s) BACKUP_TREE_SERVER_ZNODE_PATH = Some (address_and_port ip port @ [CHR 0x00])"
  shows "zk_get_backup_tree_server zoo s =
      Some (Some (address_and_port ip port), s\<lparr>live := live s + 1\<rparr>)"
    and "parse_address_port (Some (address_and_port ip port)) None None (s\<lparr>live := live s + 1\<rparr>) =
      (0, Some (Some (inet_ntoa ip)), Some (int port), s\<lparr>live := live s + 2\<rparr>)"
  using registered_address_found [OF assms(1-3,5,6)] assms(2)
    registered_address_parsed [OF _ assms(3-5), of "s\<lparr>live := live s + 1\<rparr>"]
  by (simp_all add: zk_get_backup_tree_server_def)

text \<open>C24: the address a backup registers is the address the primary reads, parses and dials: the text
  fits its buffers, it is split into exactly the dotted address and the port, and the address is one
  that the connection accepts.\<close>

theorem backup_address_dialled:
  assumes "zoo_ok zoo nodes" "outcomes s = []" "ip_ok ip" "0 < port" "port < 65536"
    and "nodes (service s) BACKUP_TREE_SERVER_ZNODE_PATH = Some (address_and_port ip port @ [CHR 0x00])"
    and "new_fds s = fd # fds" "0 \<le> fd"
  shows "\<exists>a s1 s2 r s3. zk_get_backup_tree_server zoo s = Some (Some a, s1) \<and>
    parse_address_port (Some a) None None s1 = (0, Some (Some (inet_ntoa ip)), Some (int port), s2) \<and>
    server_connect (Some (inet_ntoa ip)) (int port) s2 = Some (r, s3) \<and>
    dialled s3 = (inet_ntoa ip, port) # dialled s"
proof -
  let ?s = "\<lambda>n. s\<lparr>live := live s + n\<rparr>"
  note found = backup_address_found [OF assms(1-6)]
  have "int port mod 65536 = int port" using assms(5) by simp
  then have "\<exists>r s3. server_connect (Some (inet_ntoa ip)) (int port) (?s 2) = Some (r, s3) \<and>
      dialled s3 = (inet_ntoa ip, port) # dialled s"
    using assms(7,8) inet_pton_ntoa [OF assms(3)]
    by (auto simp: server_connect_def socket_call_def connect_call_def close_fd_def Let_def
        split: list.splits connect_event.splits option.splits)
  with found show ?thesis by blast
qed

theorem backup_address_dialled_witness:
  "\<exists>a s1 s2 r s3. zk_get_backup_tree_server table_zoo (ex_zk\<lparr>service :=
        [BACKUP_TREE_SERVER_ZNODE_PATH \<mapsto> address_and_port (127, 0, 0, 1) 5000 @ [CHR 0x00]],
        new_fds := [7]\<rparr>) = Some (Some a, s1) \<and>
    parse_address_port (Some a) None None s1 =
      (0, Some (Some (inet_ntoa (127, 0, 0, 1))), Some (int 5000), s2) \<and>
    server_connect (Some (inet_ntoa (127, 0, 0, 1))) (int 5000) s2 = Some (r, s3) \<and>
    dialled s3 = (inet_ntoa (127, 0, 0, 1), 5000) # dialled (ex_zk\<lparr>service :=
        [BACKUP_TREE_SERVER_ZNODE_PATH \<mapsto> address_and_port (127, 0, 0, 1) 5000 @ [CHR 0x00]],
        new_fds := [7]\<rparr>)"
  by (rule backup_address_dialled [OF zoo_ok_table, where fd = 7 and fds = "[]"])
     (simp_all add: ip_ok_def)

text \<open>C23: when the primary is gone and a backup is registered, updating the roles moves the backup's
  address to the primary's node, removes the backup's node and makes a backup server primary; in
  every other case it changes neither nodes nor roles. It returns 0 throughout.\<close>

theorem zk_update_server_roles_correct:
  assumes "zoo_ok zoo nodes" "CHR 0x00 \<notin> set a" "length a < SERVER_ADDRESS_AND_PORT_MAX_LEN"
    and "case nodes (service s) BACKUP_TREE_SERVER_ZNODE_PATH of
           None \<Rightarrow> True | Some d \<Rightarrow> d = a @ [CHR 0x00]"
  shows "\<exists>v role. zk_update_server_roles zoo s = Some (0, s\<lparr>service := v, server_role := role\<rparr>) \<and>
    (case (nodes (service s) PRIMARY_TREE_SERVER_ZNODE_PATH,
           nodes (service s) BACKUP_TREE_SERVER_ZNODE_PATH) of
       (None, Some _) \<Rightarrow>
         nodes v = (nodes (service s))(PRIMARY_TREE_SERVER_ZNODE_PATH \<mapsto> a @ [CHR 0x00],
                                       BACKUP_TREE_SERVER_ZNODE_PATH := None) \<and>
         role = (if server_role s = BACKUP then PRIMARY else server_role s)
     | _ \<Rightarrow> v = service s \<and> role = server_role s)"
proof -
  let ?P = PRIMARY_TREE_SERVER_ZNODE_PATH and ?B = BACKUP_TREE_SERVER_ZNODE_PATH
  note ex = zk_exists_eq [OF assms(1)]
  show ?thesis
  proof (cases "nodes (service s) ?P = None \<and> nodes (service s) ?B \<noteq> None")
    case False
    then show ?thesis
      by (intro exI [of _ "service s"] exI [of _ "server_role s"])
         (auto simp: zk_update_server_roles_def ex zk_codes split: option.splits)
  next
    case True
    then have P: "nodes (service s) ?P = None" and B: "nodes (service s) ?B = Some (a @ [CHR 0x00])"
      using assms(4) by auto
    have get: "on_service (\<lambda>v. case zoo_get zoo ?B v of (r, d, v) \<Rightarrow> ((r, d), v)) s =
        ((ZOK, a @ [CHR 0x00]), s)"
      using assms(1) B by (simp add: on_service_def zoo_ok_def)
    have str: "c_string (fill_buffer (a @ [CHR 0x00])
        (map char_of_byte (fresh_block (int SERVER_ADDRESS_AND_PORT_MAX_LEN) s))) = Some a"
      by (rule c_string_fill) (use assms(2,3) in simp_all)
    obtain v where v: "zk_create zoo ?P (Some a) ZOO_EPHEMERAL s = (ZOK, s\<lparr>service := v\<rparr>)"
        "nodes v = (nodes (service s))(?P \<mapsto> a @ [CHR 0x00])"
      using zk_create_ok [OF assms(1) P] by blast
    define role where "role = (if server_role s = BACKUP then PRIMARY else server_role s)"
    let ?s = "s\<lparr>service := v, server_role := role\<rparr>"
    have "nodes (service ?s) ?B \<noteq> None" using v(2) B by simp
    then obtain w where w: "on_service (zoo_delete zoo ?B) ?s = (ZOK, ?s\<lparr>service := w\<rparr>)"
        "nodes w = (nodes v)(?B := None)"
      using zk_delete_ok [OF assms(1)] by fastforce
    have "zk_update_server_roles zoo s = Some (0, ?s\<lparr>service := w\<rparr>)"
      using w(1) by (auto simp: zk_update_server_roles_def ex P B get str v(1) ZOK_def ZNONODE_def
          role_def Let_def)
    with P B v(2) w(2) show ?thesis
      by (intro exI [of _ w] exI [of _ role]) (simp add: role_def)
  qed
qed

theorem zk_update_server_roles_correct_witness:
  "\<exists>v role. zk_update_server_roles table_zoo (ex_zk\<lparr>service :=
        [BACKUP_TREE_SERVER_ZNODE_PATH \<mapsto> ''10.0.0.2:5001'' @ [CHR 0x00]], server_role := BACKUP\<rparr>) =
      Some (0, (ex_zk\<lparr>service :=
        [BACKUP_TREE_SERVER_ZNODE_PATH \<mapsto> ''10.0.0.2:5001'' @ [CHR 0x00]], server_role := BACKUP\<rparr>)
          \<lparr>service := v, server_role := role\<rparr>) \<and>
    v = [PRIMARY_TREE_SERVER_ZNODE_PATH \<mapsto> ''10.0.0.2:5001'' @ [CHR 0x00]] \<and> role = PRIMARY"
  using zk_update_server_roles_correct [OF zoo_ok_table, of "''10.0.0.2:5001''" "ex_zk\<lparr>service :=
        [BACKUP_TREE_SERVER_ZNODE_PATH \<mapsto> ''10.0.0.2:5001'' @ [CHR 0x00]], server_role := BACKUP\<rparr>"]
  by (simp add: SERVER_ADDRESS_AND_PORT_MAX_LEN_def fun_upd_twist)

text \<open>ZooKeeper calls every watcher also for events of the session, such as a lost connection; the
  children watcher then destroys a list it has not filled, which is undefined.\<close>

lemma zk_children_watcher_session_event:
  "zk_children_watcher zoo listener ZOO_SESSION_EVENT state s = None"
  by (simp add: zk_children_watcher_def ZOO_SESSION_EVENT_def ZOO_CHILD_EVENT_def
      String_vector_destroy_def split: prod.splits)

end
