(* ===== verification/KV_Tasks.thy ===== *)
theory KV_Tasks
  imports KV_Zk
begin

text \<open>
  \<^verbatim>\<open>source/server/tasks-private.c\<close>: the queue of write operations that clients asked for and the list
  of the results of those that were executed. The linked lists are lists, from their heads. A mutex
  is free, held, or not usable (before its initialization and after its destruction); locking a
  mutex that is not free does not go on, so it is \<^verbatim>\<open>None\<close>. Waiting for a task is a value of its own:
  the waiting thread has released the mutex and starts over when it is woken. A locale states what
  the server relies on of such a queue; the functions of the file are shown to provide it.
\<close>

section \<open>Definitions\<close>

datatype mutex = Unlocked | Locked | Unusable

fun mutex_lock :: "mutex \<Rightarrow> mutex option" where
  "mutex_lock Unlocked = Some Locked"
| "mutex_lock _ = None"

fun mutex_unlock :: "mutex \<Rightarrow> mutex option" where
  "mutex_unlock Locked = Some Unlocked"
| "mutex_unlock _ = None"

datatype TaskResult = SUCCESSFUL | NOT_EXECUTED | FAILED

fun task_result_int :: "TaskResult \<Rightarrow> int" where
  "task_result_int SUCCESSFUL = 1"
| "task_result_int NOT_EXECUTED = 0"
| "task_result_int FAILED = -1"

record task_t =
  task_id :: int
  op_code_and_args :: message

record 's tasks = "'s zk" +
  last_task_id_assigned :: int
  tasks_queue :: "task_t list"                  \<comment> \<open>from \<^verbatim>\<open>tasks_queue_head\<close>\<close>
  tasks_queue_lock :: mutex
  tasks_results_list :: "(int \<times> TaskResult) list" \<comment> \<open>from \<^verbatim>\<open>tasks_results_list_head\<close>\<close>
  tasks_results_list_lock :: mutex
  destroyed :: bool

definition SIZE_OF_TASK :: int where "SIZE_OF_TASK = 16"
definition SIZE_OF_TASK_NODE :: int where "SIZE_OF_TASK_NODE = 16"
definition SIZE_OF_RESULT_NODE :: int where "SIZE_OF_RESULT_NODE = 16"

lemmas task_sizes = SIZE_OF_TASK_def SIZE_OF_TASK_NODE_def SIZE_OF_RESULT_NODE_def

text \<open>The results of the four \<^verbatim>\<open>pthread\<close> initializations are given; by their documentation they are 0 or
  a positive error number.\<close>

definition tasks_init ::
  "int \<times> int \<times> int \<times> int \<Rightarrow> ('s, 'z) tasks_scheme \<Rightarrow> int \<times> ('s, 'z) tasks_scheme" where
  "tasks_init rcs s =
    (case rcs of (rc1, rc2, rc3, rc4) \<Rightarrow>
      let s = s\<lparr>last_task_id_assigned := -1, destroyed := False, tasks_queue := []\<rparr> in
      if rc1 < 0 then (-1, s)
      else (let s = s\<lparr>tasks_queue_lock := Unlocked\<rparr> in
        if rc2 < 0 then (-1, s)
        else (let s = s\<lparr>tasks_results_list := []\<rparr> in
          if rc3 < 0 then (-1, s)
          else (let s = s\<lparr>tasks_results_list_lock := Unlocked\<rparr> in
            if rc4 < 0 then (-1, s) else (0, s)))))"

definition task_create ::
  "message \<Rightarrow> ('s, 'z) tasks_scheme \<Rightarrow> (task_t option \<times> ('s, 'z) tasks_scheme) option" where
  "task_create args s =
    (case malloc SIZE_OF_TASK s of (ok, s) \<Rightarrow>
      if \<not> ok then Some (None, s)
      else do {
        (copied, s) \<leftarrow> Message_dup (Some args) s;
        case copied of
          None \<Rightarrow> Some (None, free (Some ()) s)
        | Some m \<Rightarrow> do {
            n \<leftarrow> iadd (last_task_id_assigned s) 1;
            Some (Some \<lparr>task_id = n, op_code_and_args = m\<rparr>, s\<lparr>last_task_id_assigned := n\<rparr>)
          }
      })"

definition queue_lock :: "('s, 'z) tasks_scheme \<Rightarrow> ('s, 'z) tasks_scheme option" where
  "queue_lock s = do { l \<leftarrow> mutex_lock (tasks_queue_lock s); Some (s\<lparr>tasks_queue_lock := l\<rparr>) }"

definition queue_unlock :: "('s, 'z) tasks_scheme \<Rightarrow> ('s, 'z) tasks_scheme option" where
  "queue_unlock s = do { l \<leftarrow> mutex_unlock (tasks_queue_lock s); Some (s\<lparr>tasks_queue_lock := l\<rparr>) }"

definition results_lock :: "('s, 'z) tasks_scheme \<Rightarrow> ('s, 'z) tasks_scheme option" where
  "results_lock s =
    do { l \<leftarrow> mutex_lock (tasks_results_list_lock s); Some (s\<lparr>tasks_results_list_lock := l\<rparr>) }"

definition results_unlock :: "('s, 'z) tasks_scheme \<Rightarrow> ('s, 'z) tasks_scheme option" where
  "results_unlock s =
    do { l \<leftarrow> mutex_unlock (tasks_results_list_lock s); Some (s\<lparr>tasks_results_list_lock := l\<rparr>) }"

definition tasks_add_task ::
  "message option \<Rightarrow> ('s, 'z) tasks_scheme \<Rightarrow> (int \<times> ('s, 'z) tasks_scheme) option" where
  "tasks_add_task args s =
    (case args of
       None \<Rightarrow> Some (-1, s)
     | Some m \<Rightarrow> do {
         (task, s) \<leftarrow> task_create m s;
         case task of
           None \<Rightarrow> Some (-1, s)
         | Some t \<Rightarrow>
             (case malloc SIZE_OF_TASK_NODE s of (ok, s) \<Rightarrow>
               if \<not> ok then Some (-1, s)
               else do {
                 s \<leftarrow> queue_lock s;
                 let s = s\<lparr>tasks_queue := tasks_queue s @ [t]\<rparr>;
                 s \<leftarrow> queue_unlock s;
                 Some (task_id t, s)
               })
       })"

datatype next_task = Waiting | Next "task_t option"

text \<open>After \<^verbatim>\<open>tasks_destroy\<close> the function returns \<^verbatim>\<open>NULL\<close> and keeps the mutex.\<close>

definition tasks_get_next ::
  "('s, 'z) tasks_scheme \<Rightarrow> (next_task \<times> ('s, 'z) tasks_scheme) option" where
  "tasks_get_next s = do {
     s \<leftarrow> queue_lock s;
     if \<not> destroyed s \<and> tasks_queue s = [] then do { s \<leftarrow> queue_unlock s; Some (Waiting, s) }
     else if destroyed s then Some (Next None, s)
     else do { let task = hd (tasks_queue s); s \<leftarrow> queue_unlock s; Some (Next (Some task), s) }
   }"

definition task_destroy :: "protobuf \<Rightarrow> task_t option \<Rightarrow> 'z heap_scheme \<Rightarrow> 'z heap_scheme" where
  "task_destroy pb task h =
    (case task of None \<Rightarrow> h | Some t \<Rightarrow> free task (Message_destroy pb (Some (op_code_and_args t)) h))"

definition unlock_both :: "('s, 'z) tasks_scheme \<Rightarrow> ('s, 'z) tasks_scheme option" where
  "unlock_both s = do { s \<leftarrow> results_unlock s; queue_unlock s }"

definition tasks_set_result ::
  "protobuf \<Rightarrow> int \<Rightarrow> TaskResult \<Rightarrow> ('s, 'z) tasks_scheme \<Rightarrow> (int \<times> ('s, 'z) tasks_scheme) option" where
  "tasks_set_result pb tid task_result s = do {
     s \<leftarrow> queue_lock s;
     s \<leftarrow> results_lock s;
     case tasks_queue s of
       [] \<Rightarrow> do { s \<leftarrow> unlock_both s; Some (-1, s) }
     | task # rest \<Rightarrow>
         if task_id task \<noteq> tid then do { s \<leftarrow> unlock_both s; Some (-1, s) }
         else if task_result = NOT_EXECUTED then do { s \<leftarrow> unlock_both s; Some (-1, s) }
         else (case malloc SIZE_OF_RESULT_NODE s of (ok, s) \<Rightarrow>
           if \<not> ok then do { s \<leftarrow> unlock_both s; Some (-1, s) }
           else do {
             let s = s\<lparr>tasks_results_list := (tid, task_result) # tasks_results_list s,
                       tasks_queue := rest\<rparr>;
             let s = free (Some ()) (task_destroy pb (Some task) s);
             s \<leftarrow> unlock_both s;
             Some (0, s)
           })
   }"

fun find_result :: "int \<Rightarrow> (int \<times> TaskResult) list \<Rightarrow> TaskResult" where
  "find_result tid [] = NOT_EXECUTED"
| "find_result tid ((n, r) # previous) =
    (if n \<ge> tid then (if n = tid then r else find_result tid previous) else NOT_EXECUTED)"

definition tasks_get_result ::
  "int \<Rightarrow> ('s, 'z) tasks_scheme \<Rightarrow> (TaskResult \<times> ('s, 'z) tasks_scheme) option" where
  "tasks_get_result tid s = do {
     s \<leftarrow> results_lock s;
     let r = find_result tid (tasks_results_list s);
     s \<leftarrow> results_unlock s;
     Some (r, s)
   }"

fun tasks_queue_destroy :: "protobuf \<Rightarrow> task_t list \<Rightarrow> 'z heap_scheme \<Rightarrow> 'z heap_scheme" where
  "tasks_queue_destroy pb [] h = h"
| "tasks_queue_destroy pb (t # ts) h =
    free (Some ()) (tasks_queue_destroy pb ts (task_destroy pb (Some t) h))"

fun tasks_result_list_destroy :: "(int \<times> TaskResult) list \<Rightarrow> 'z heap_scheme \<Rightarrow> 'z heap_scheme" where
  "tasks_result_list_destroy [] h = h"
| "tasks_result_list_destroy (r # rs) h = free (Some ()) (tasks_result_list_destroy rs h)"

definition tasks_destroy :: "protobuf \<Rightarrow> ('s, 'z) tasks_scheme \<Rightarrow> ('s, 'z) tasks_scheme" where
  "tasks_destroy pb s =
    (let s = s\<lparr>last_task_id_assigned := -1, destroyed := True\<rparr>;
         s = (tasks_queue_destroy pb (tasks_queue s) s)\<lparr>tasks_queue := [], tasks_queue_lock := Unusable\<rparr>
     in (tasks_result_list_destroy (tasks_results_list s) s)
          \<lparr>tasks_results_list := [], tasks_results_list_lock := Unusable\<rparr>)"

section \<open>What a queue of tasks promises\<close>

datatype ('m, 'r) queue_op = Add 'm | Finish 'r

text \<open>
  Tasks are finished in the order they were added, each once, under identifiers never used before;
  the result of a task is what it was finished with, and nothing before.
\<close>

locale task_queue =
  fixes add :: "'m \<Rightarrow> 's \<Rightarrow> (int \<times> 's) option"
    and finish :: "int \<Rightarrow> 'r \<Rightarrow> 's \<Rightarrow> (int \<times> 's) option"
    and result :: "int \<Rightarrow> 's \<Rightarrow> ('r \<times> 's) option"
    and pending :: "'s \<Rightarrow> (int \<times> 'm) list"
    and finished :: "'s \<Rightarrow> int \<Rightarrow> 'r option"
    and ok :: "'s \<Rightarrow> bool"
    and room :: "'s \<Rightarrow> nat"
    and valid :: "'m \<Rightarrow> bool"
    and open_result :: 'r
  assumes add: "ok s \<Longrightarrow> valid m \<Longrightarrow> 0 < room s \<Longrightarrow>
      \<exists>tid s'. add m s = Some (tid, s') \<and> ok s' \<and> pending s' = pending s @ [(tid, m)] \<and>
        finished s' = finished s \<and> room s = Suc (room s') \<and>
        tid \<notin> fst ` set (pending s) \<and> finished s tid = None"
    and finish: "ok s \<Longrightarrow> pending s = (tid, m) # rest \<Longrightarrow> r \<noteq> open_result \<Longrightarrow>
      \<exists>s'. finish tid r s = Some (0, s') \<and> ok s' \<and> pending s' = rest \<and>
        finished s' = (finished s)(tid \<mapsto> r) \<and> room s' = room s"
    and refuse: "ok s \<Longrightarrow> \<forall>m rest. pending s \<noteq> (tid, m) # rest \<Longrightarrow> finish tid r s = Some (-1, s)"
    and result: "ok s \<Longrightarrow>
      result tid s = Some (case finished s tid of None \<Rightarrow> open_result | Some r \<Rightarrow> r, s)"
    and fresh: "ok s \<Longrightarrow> (tid, m) \<in> set (pending s) \<Longrightarrow> finished s tid = None"
begin

fun run :: "('m, 'r) queue_op list \<Rightarrow> 's \<Rightarrow> 's option" where
  "run [] s = Some s"
| "run (Add m # ops) s = do { (tid, s) \<leftarrow> add m s; run ops s }"
| "run (Finish r # ops) s =
    (case pending s of
       [] \<Rightarrow> run ops s
     | (tid, m) # rest \<Rightarrow> do { (rc, s) \<leftarrow> finish tid r s; run ops s })"

fun op_valid :: "('m, 'r) queue_op \<Rightarrow> bool" where
  "op_valid (Add m) \<longleftrightarrow> valid m"
| "op_valid (Finish r) \<longleftrightarrow> r \<noteq> open_result"

definition adds :: "('m, 'r) queue_op list \<Rightarrow> 'm list" where
  "adds ops = concat (map (\<lambda>x. case x of Add m \<Rightarrow> [m] | Finish _ \<Rightarrow> []) ops)"

text \<open>Whatever is added and finished later, a result that is there stays, and the tasks that were
  finished are a prefix of those that were added.\<close>

lemma run_fifo:
  assumes "ok s" "list_all op_valid ops" "length (adds ops) \<le> room s"
  shows "\<exists>s' done. run ops s = Some s' \<and> ok s' \<and>
    map snd (pending s) @ adds ops = done @ map snd (pending s') \<and>
    (\<forall>tid r. finished s tid = Some r \<longrightarrow> finished s' tid = Some r)"
  using assms
proof (induction ops arbitrary: s)
  case Nil
  then show ?case by (intro exI [of _ s] exI [of _ "[]"]) (simp add: adds_def)
next
  case (Cons x ops)
  show ?case
  proof (cases x)
    case (Add m)
    then obtain tid s1 where s1: "add m s = Some (tid, s1)" "ok s1" "pending s1 = pending s @ [(tid, m)]"
        "finished s1 = finished s" "room s = Suc (room s1)"
      using add [of s m] Cons.prems by (auto simp: adds_def)
    with Cons.prems Add have "length (adds ops) \<le> room s1" "list_all op_valid ops"
      by (simp_all add: adds_def)
    from Cons.IH [OF s1(2) this(2,1)] show ?thesis
      using s1 Add by (auto simp: adds_def)
  next
    case (Finish r)
    show ?thesis
    proof (cases "pending s")
      case Nil
      with Finish Cons.prems Cons.IH [of s] show ?thesis by (simp add: adds_def)
    next
      case (Cons p rest)
      obtain tid m where p: "p = (tid, m)" by (cases p)
      obtain s1 where s1: "finish tid r s = Some (0, s1)" "ok s1" "pending s1 = rest"
          "finished s1 = (finished s)(tid \<mapsto> r)" "room s1 = room s"
        using finish [of s tid m rest r] Cons p Finish Cons.prems by auto
      have new: "finished s tid = None" using fresh [of s tid m] Cons.prems(1) Cons p by simp
      have "length (adds ops) \<le> room s1" "list_all op_valid ops"
        using Cons.prems Finish s1(5) by (simp_all add: adds_def)
      then obtain s' don where s': "run ops s1 = Some s'" "ok s'"
          "map snd rest @ adds ops = don @ map snd (pending s')"
          "\<forall>tid r. finished s1 tid = Some r \<longrightarrow> finished s' tid = Some r"
        using Cons.IH [OF s1(2)] s1(3) by blast
      have keep: "finished s' i = Some q" if "finished s i = Some q" for i q
      proof -
        have "i \<noteq> tid" using new that by auto
        then show ?thesis using s'(4) s1(4) that by simp
      qed
      have "run (x # ops) s = Some s'" using s1(1) s'(1) Finish Cons p by simp
      moreover have "map snd (pending s) @ adds (x # ops) = (m # don) @ map snd (pending s')"
        using s'(3) Cons p Finish by (simp add: adds_def)
      ultimately show ?thesis using s'(2) keep by blast
    qed
  qed
qed

text \<open>Working off a queue gives every task its result.\<close>

lemma run_finish_all:
  assumes "ok s" "r \<noteq> open_result"
  shows "\<exists>s'. run (map (\<lambda>_. Finish r) (pending s)) s = Some s' \<and> ok s' \<and> pending s' = [] \<and>
    (\<forall>tid. finished s' tid = (if tid \<in> fst ` set (pending s) then Some r else finished s tid))"
  using assms
proof (induction "pending s" arbitrary: s)
  case Nil
  then show ?case by (intro exI [of _ s]) simp
next
  case (Cons p rest)
  obtain tid m where p: "p = (tid, m)" by (cases p)
  obtain s1 where s1: "finish tid r s = Some (0, s1)" "ok s1" "pending s1 = rest"
      "finished s1 = (finished s)(tid \<mapsto> r)"
    using finish [of s tid m rest r] Cons p by auto
  from Cons.hyps(1) [of s1] s1 Cons.prems Cons.hyps(2) show ?case
    by (auto simp: Cons.hyps(2) [symmetric] p)
qed

end


section \<open>The functions provide it\<close>

definition tasks_pending :: "('s, 'z) tasks_scheme \<Rightarrow> (int \<times> message) list" where
  "tasks_pending s = map (\<lambda>t. (task_id t, op_code_and_args t)) (tasks_queue s)"

definition tasks_finished :: "('s, 'z) tasks_scheme \<Rightarrow> int \<Rightarrow> TaskResult option" where
  "tasks_finished s = map_of (tasks_results_list s)"

text \<open>Queued identifiers grow towards the end, those with results fall from the head and are older
  than any queued one; no result is \<^verbatim>\<open>NOT_EXECUTED\<close>; both mutexes are free between operations.\<close>

definition tasks_ok :: "('s, 'z) tasks_scheme \<Rightarrow> bool" where
  "tasks_ok s \<longleftrightarrow>
    sorted_wrt (<) (rev (map fst (tasks_results_list s)) @ map task_id (tasks_queue s)) \<and>
    (\<forall>i \<in> fst ` set (tasks_results_list s) \<union> task_id ` set (tasks_queue s).
      0 \<le> i \<and> i \<le> last_task_id_assigned s) \<and>
    -1 \<le> last_task_id_assigned s \<and> last_task_id_assigned s \<le> INT_MAX \<and>
    NOT_EXECUTED \<notin> snd ` set (tasks_results_list s) \<and>
    tasks_queue_lock s = Unlocked \<and> tasks_results_list_lock s = Unlocked \<and>
    \<not> destroyed s \<and> outcomes s = []"

definition tasks_room :: "('s, 'z) tasks_scheme \<Rightarrow> nat" where
  "tasks_room s = nat (INT_MAX - last_task_id_assigned s)"

lemma find_result_eq:
  "sorted_wrt (>) (map fst rs) \<Longrightarrow>
    find_result i rs = (case map_of rs i of None \<Rightarrow> NOT_EXECUTED | Some r \<Rightarrow> r)"
proof (induction rs)
  case (Cons p rs)
  obtain n r where p: "p = (n, r)" by (cases p)
  have "map_of rs i = None" if "n < i"
    using Cons.prems that p by (auto simp: map_of_eq_None_iff)
  with Cons p show ?case by auto
qed simp

lemma queue_locking [simp]:
  "tasks_queue_lock s = Unlocked \<Longrightarrow> queue_lock s = Some (s\<lparr>tasks_queue_lock := Locked\<rparr>)"
  "tasks_queue_lock s = Locked \<Longrightarrow> queue_unlock s = Some (s\<lparr>tasks_queue_lock := Unlocked\<rparr>)"
  "tasks_results_list_lock s = Unlocked \<Longrightarrow>
    results_lock s = Some (s\<lparr>tasks_results_list_lock := Locked\<rparr>)"
  "tasks_results_list_lock s = Locked \<Longrightarrow>
    results_unlock s = Some (s\<lparr>tasks_results_list_lock := Unlocked\<rparr>)"
  by (simp_all add: queue_lock_def queue_unlock_def results_lock_def results_unlock_def)

lemma relock_same [simp]:
  "tasks_queue_lock s = l \<Longrightarrow> s\<lparr>tasks_queue_lock := l\<rparr> = s"
  "tasks_results_list_lock s = l \<Longrightarrow> s\<lparr>tasks_results_list_lock := l\<rparr> = s"
  by auto

text \<open>The state after a task has been added or finished.\<close>

definition added :: "message \<Rightarrow> ('s, 'z) tasks_scheme \<Rightarrow> ('s, 'z) tasks_scheme" where
  "added m s =
    s\<lparr>last_task_id_assigned := last_task_id_assigned s + 1,
      tasks_queue := tasks_queue s @ [\<lparr>task_id = last_task_id_assigned s + 1, op_code_and_args = m\<rparr>],
      live := live s + message_blocks (Some m) + 2\<rparr>"

definition set_head :: "protobuf \<Rightarrow> TaskResult \<Rightarrow> ('s, 'z) tasks_scheme \<Rightarrow> ('s, 'z) tasks_scheme" where
  "set_head pb r s =
    s\<lparr>tasks_results_list := (task_id (hd (tasks_queue s)), r) # tasks_results_list s,
      tasks_queue := tl (tasks_queue s),
      live := live s - release_message pb (op_code_and_args (hd (tasks_queue s))) - 1\<rparr>"

lemma tasks_add_task_eq:
  assumes "tasks_ok s" "message_ok m" "last_task_id_assigned s < INT_MAX"
  shows "tasks_add_task (Some m) s = Some (last_task_id_assigned s + 1, added m s)"
proof -
  have "in_int (last_task_id_assigned s + 1)" using assms by (auto simp: tasks_ok_def int_range)
  with assms show ?thesis
    by (simp add: tasks_ok_def tasks_add_task_def task_create_def alloc_simps task_sizes added_def)
qed

lemma tasks_set_result_eq:
  assumes "tasks_ok s" "tasks_queue s = t # ts" "r \<noteq> NOT_EXECUTED"
  shows "tasks_set_result pb (task_id t) r s = Some (0, set_head pb r s)"
  using assms
  by (simp add: tasks_ok_def tasks_set_result_def unlock_both_def alloc_simps task_sizes set_head_def
      task_destroy_def Message_destroy_def)

lemma tasks_set_result_refuse:
  assumes "tasks_ok s" "\<forall>t ts. tasks_queue s = t # ts \<longrightarrow> task_id t \<noteq> i"
  shows "tasks_set_result pb i r s = Some (-1, s)"
  using assms
  by (cases "tasks_queue s") (simp_all add: tasks_ok_def tasks_set_result_def unlock_both_def)

lemma tasks_get_result_eq:
  assumes "tasks_ok s"
  shows "tasks_get_result i s =
    Some (case tasks_finished s i of None \<Rightarrow> NOT_EXECUTED | Some r \<Rightarrow> r, s)"
proof -
  have "sorted_wrt (>) (map fst (tasks_results_list s))"
    using assms by (simp add: tasks_ok_def sorted_wrt_append sorted_wrt_rev)
  then show ?thesis
    using assms by (simp add: tasks_get_result_def tasks_ok_def find_result_eq tasks_finished_def)
qed

lemma tasks_ok_added:
  assumes "tasks_ok s" "last_task_id_assigned s < INT_MAX"
  shows "tasks_ok (added m s)"
  using assms unfolding tasks_ok_def added_def
  by (auto simp: sorted_wrt_append Ball_def image_iff)

lemma tasks_ok_set_head:
  assumes "tasks_ok s" "tasks_queue s = t # ts" "r \<noteq> NOT_EXECUTED"
  shows "tasks_ok (set_head pb r s)"
  using assms unfolding tasks_ok_def set_head_def by auto

interpretation tasks: task_queue "\<lambda>m. tasks_add_task (Some m)" "tasks_set_result pb" tasks_get_result
  tasks_pending tasks_finished tasks_ok tasks_room message_ok NOT_EXECUTED
  for pb :: protobuf
proof unfold_locales
  fix s :: "('s, 'z) tasks_scheme" and m i r rest
  assume ok: "tasks_ok s"
  show "\<exists>tid s'. tasks_add_task (Some m) s = Some (tid, s') \<and> tasks_ok s' \<and>
      tasks_pending s' = tasks_pending s @ [(tid, m)] \<and> tasks_finished s' = tasks_finished s \<and>
      tasks_room s = Suc (tasks_room s') \<and> tid \<notin> fst ` set (tasks_pending s) \<and>
      tasks_finished s tid = None"
    if "message_ok m" "0 < tasks_room s"
  proof -
    have room: "last_task_id_assigned s < INT_MAX" using that(2) by (simp add: tasks_room_def)
    have "\<forall>i \<in> fst ` set (tasks_results_list s) \<union> task_id ` set (tasks_queue s).
        i \<le> last_task_id_assigned s"
      using ok by (simp add: tasks_ok_def)
    then have "last_task_id_assigned s + 1 \<notin>
        fst ` set (tasks_results_list s) \<union> task_id ` set (tasks_queue s)"
      by (meson zle_add1_eq_le less_irrefl)
    then have "last_task_id_assigned s + 1 \<notin> fst ` set (tasks_pending s)"
      "tasks_finished s (last_task_id_assigned s + 1) = None"
      by (auto simp: tasks_pending_def tasks_finished_def map_of_eq_None_iff image_image)
    then show ?thesis
      using tasks_add_task_eq [OF ok that(1) room] tasks_ok_added [OF ok room] room
      by (auto simp: added_def tasks_pending_def tasks_finished_def tasks_room_def)
  qed
  show "\<exists>s'. tasks_set_result pb i r s = Some (0, s') \<and> tasks_ok s' \<and> tasks_pending s' = rest \<and>
      tasks_finished s' = (tasks_finished s)(i \<mapsto> r) \<and> tasks_room s' = tasks_room s"
    if head: "tasks_pending s = (i, m) # rest" "r \<noteq> NOT_EXECUTED"
  proof -
    obtain t ts where t: "tasks_queue s = t # ts" "task_id t = i"
      using head(1) by (auto simp: tasks_pending_def)
    show ?thesis
      using tasks_set_result_eq [OF ok t(1) head(2)] tasks_ok_set_head [OF ok t(1) head(2)] t head(1)
      by (auto simp: set_head_def tasks_pending_def tasks_finished_def tasks_room_def)
  qed
  show "tasks_set_result pb i r s = Some (-1, s)" if "\<forall>m rest. tasks_pending s \<noteq> (i, m) # rest"
    using that by (intro tasks_set_result_refuse [OF ok]) (auto simp: tasks_pending_def)
  show "tasks_get_result i s = Some (case tasks_finished s i of None \<Rightarrow> NOT_EXECUTED | Some r \<Rightarrow> r, s)"
    by (rule tasks_get_result_eq [OF ok])
  show "tasks_finished s i = None" if "(i, m) \<in> set (tasks_pending s)"
  proof -
    have "i \<in> task_id ` set (tasks_queue s)" using that by (auto simp: tasks_pending_def)
    then show ?thesis
      using ok by (fastforce simp: tasks_ok_def tasks_finished_def map_of_eq_None_iff sorted_wrt_append)
  qed
qed


section \<open>Refinement of a log\<close>

text \<open>The abstract queue: the results of the tasks that are done, in order, and the messages that wait.\<close>

fun log_step :: "(message, TaskResult) queue_op \<Rightarrow> TaskResult list \<times> message list
    \<Rightarrow> TaskResult list \<times> message list" where
  "log_step (Add m) (rs, ms) = (rs, ms @ [m])"
| "log_step (Finish r) (rs, []) = (rs, [])"
| "log_step (Finish r) (rs, m # ms) = (rs @ [r], ms)"

definition log_run :: "(message, TaskResult) queue_op list \<Rightarrow> TaskResult list \<times> message list
    \<Rightarrow> TaskResult list \<times> message list" where
  "log_run ops l = foldl (\<lambda>l x. log_step x l) l ops"

text \<open>The calls of the file that the operations stand for; a task is finished under the identifier
  that \<^verbatim>\<open>tasks_get_next\<close> returns.\<close>

fun run_tasks ::
  "protobuf \<Rightarrow> (message, TaskResult) queue_op list \<Rightarrow> ('s, 'z) tasks_scheme
    \<Rightarrow> ('s, 'z) tasks_scheme option" where
  "run_tasks pb [] s = Some s"
| "run_tasks pb (Add m # ops) s = do { (i, s) \<leftarrow> tasks_add_task (Some m) s; run_tasks pb ops s }"
| "run_tasks pb (Finish r # ops) s = do {
     (next, s) \<leftarrow> tasks_get_next s;
     case next of
       Next (Some t) \<Rightarrow> do { (rc, s) \<leftarrow> tasks_set_result pb (task_id t) r s; run_tasks pb ops s }
     | _ \<Rightarrow> run_tasks pb ops s
   }"

definition queue_op_ok :: "(message, TaskResult) queue_op \<Rightarrow> bool" where
  "queue_op_ok x \<longleftrightarrow> (case x of Add m \<Rightarrow> message_ok m | Finish r \<Rightarrow> r \<noteq> NOT_EXECUTED)"

definition tasks_log :: "('s, 'z) tasks_scheme \<Rightarrow> TaskResult list \<times> message list" where
  "tasks_log s = (rev (map snd (tasks_results_list s)), map op_code_and_args (tasks_queue s))"

text \<open>Identifiers are the positions in the log.\<close>

definition tasks_numbered :: "('s, 'z) tasks_scheme \<Rightarrow> bool" where
  "tasks_numbered s \<longleftrightarrow>
    rev (map fst (tasks_results_list s)) @ map task_id (tasks_queue s) =
      map int [0..<nat (last_task_id_assigned s + 1)]"

definition tasks_blocks :: "('s, 'z) tasks_scheme \<Rightarrow> int" where
  "tasks_blocks s =
    (\<Sum>t\<leftarrow>tasks_queue s. message_blocks (Some (op_code_and_args t)) + 2) +
    int (length (tasks_results_list s))"

lemma tasks_get_next_eq:
  assumes "tasks_ok s"
  shows "tasks_get_next s =
    Some (case tasks_queue s of [] \<Rightarrow> Waiting | t # ts \<Rightarrow> Next (Some t), s)"
  using assms by (cases "tasks_queue s") (simp_all add: tasks_get_next_def tasks_ok_def)

lemma run_tasks_log:
  assumes "protobuf_ok pb" "tasks_ok s" "tasks_numbered s" "list_all queue_op_ok ops"
    and "last_task_id_assigned s + int (length ops) \<le> INT_MAX"
  shows "\<exists>s'. run_tasks pb ops s = Some s' \<and> tasks_ok s' \<and> tasks_numbered s' \<and>
    tasks_log s' = log_run ops (tasks_log s) \<and> live s' - tasks_blocks s' = live s - tasks_blocks s"
  using assms(2-)
proof (induction ops arbitrary: s)
  case Nil
  then show ?case by (simp add: log_run_def)
next
  case (Cons x ops)
  have last: "-1 \<le> last_task_id_assigned s" using Cons.prems(1) by (simp add: tasks_ok_def)
  show ?case
  proof (cases x)
    case (Add m)
    have m: "message_ok m" "last_task_id_assigned s < INT_MAX"
      using Cons.prems Add by (auto simp: queue_op_ok_def)
    have "nat (2 + last_task_id_assigned s) = Suc (nat (last_task_id_assigned s + 1))"
      using last by simp
    then have "tasks_numbered (added m s)"
      using Cons.prems(2) last by (simp add: tasks_numbered_def added_def flip: append_assoc)
    moreover have "tasks_log (added m s) = log_step x (tasks_log s)"
      by (simp add: tasks_log_def added_def Add)
    moreover have "live (added m s) - tasks_blocks (added m s) = live s - tasks_blocks s"
      by (simp add: tasks_blocks_def added_def)
    moreover have "last_task_id_assigned (added m s) + int (length ops) \<le> INT_MAX"
      using Cons.prems(4) by (simp add: added_def)
    ultimately show ?thesis
      using Cons.IH [OF tasks_ok_added [OF Cons.prems(1) m(2), of m]] Cons.prems(3)
        tasks_add_task_eq [OF Cons.prems(1) m] Add
      by (auto simp: log_run_def)
  next
    case (Finish r)
    then have r: "r \<noteq> NOT_EXECUTED" using Cons.prems(3) by (simp add: queue_op_ok_def)
    show ?thesis
    proof (cases "tasks_queue s")
      case Nil
      with Finish Cons.prems Cons.IH [OF Cons.prems(1,2)] show ?thesis
        by (simp add: tasks_get_next_eq log_run_def tasks_log_def)
    next
      case (Cons t ts)
      let ?s = "set_head pb r s"
      have release: "release_message pb (op_code_and_args t) = message_blocks (Some (op_code_and_args t))"
        using assms(1) by (simp add: protobuf_ok_def)
      have "tasks_numbered ?s"
        using Cons.prems(2) Cons by (simp add: tasks_numbered_def set_head_def)
      moreover have "tasks_log ?s = log_step x (tasks_log s)"
        using Cons Finish by (simp add: tasks_log_def set_head_def)
      moreover have "live ?s - tasks_blocks ?s = live s - tasks_blocks s"
        using Cons release by (simp add: tasks_blocks_def set_head_def)
      moreover have "last_task_id_assigned ?s + int (length ops) \<le> INT_MAX"
        using Cons.prems(4) by (simp add: set_head_def)
      ultimately show ?thesis
        using Cons.IH [OF tasks_ok_set_head [OF Cons.prems(1) Cons r, of pb]] Cons.prems
          tasks_set_result_eq [OF Cons.prems(1) Cons r, of pb] Finish Cons
        by (auto simp: tasks_get_next_eq log_run_def)
    qed
  qed
qed

lemma tasks_queue_destroy_live [simp]:
  "tasks_queue_destroy pb ts h =
    h\<lparr>live := live h - (\<Sum>t\<leftarrow>ts. release_message pb (op_code_and_args t) + 2)\<rparr>"
  by (induction ts arbitrary: h) (simp_all add: task_destroy_def Message_destroy_def)

lemma tasks_result_list_destroy_live [simp]:
  "tasks_result_list_destroy rs h = h\<lparr>live := live h - int (length rs)\<rparr>"
  by (induction rs arbitrary: h) simp_all

lemma tasks_destroy_live:
  "protobuf_ok pb \<Longrightarrow> live (tasks_destroy pb s) = live s - tasks_blocks s"
  by (simp add: tasks_destroy_def tasks_blocks_def protobuf_ok_def)

lemma tasks_numbered_results:
  assumes "tasks_ok s" "tasks_numbered s" "tasks_log s = (rs, ms)"
  shows "map op_code_and_args (tasks_queue s) = ms"
    "map task_id (tasks_queue s) = map int [length rs..<length rs + length ms]"
    "tasks_get_result i s =
      Some (if 0 \<le> i \<and> nat i < length rs then rs ! nat i else NOT_EXECUTED, s)"
proof -
  let ?R = "tasks_results_list s"
  show ms: "map op_code_and_args (tasks_queue s) = ms" using assms(3) by (simp add: tasks_log_def)
  have len: "length ?R = length rs" "length (tasks_queue s) = length ms"
    using assms(3) by (auto simp: tasks_log_def)
  have all: "rev (map fst ?R) @ map task_id (tasks_queue s) = map int [0..<length rs + length ms]"
  proof -
    have "length (rev (map fst ?R) @ map task_id (tasks_queue s)) = nat (last_task_id_assigned s + 1)"
      using assms(2) by (simp add: tasks_numbered_def)
    then show ?thesis using assms(2) len by (simp add: tasks_numbered_def)
  qed
  have "[0..<length rs + length ms] = [0..<length rs] @ [length rs..<length rs + length ms]"
    by (rule upt_add_eq_append) simp
  then have "map int [0..<length rs + length ms] =
      map int [0..<length rs] @ map int [length rs..<length rs + length ms]"
    by (simp only: map_append)
  then have split: "rev (map fst ?R) = map int [0..<length rs]"
    "map task_id (tasks_queue s) = map int [length rs..<length rs + length ms]"
    using all len by (simp_all add: append_eq_append_conv)
  show "map task_id (tasks_queue s) = map int [length rs..<length rs + length ms]" by (rule split(2))
  have rs: "rs = map snd (rev ?R)" using assms(3) by (simp add: tasks_log_def rev_map)
  have zip: "rev ?R = zip (map int [0..<length rs]) rs"
    using zip_map_fst_snd [of "rev ?R"]
    by (simp only: rs [symmetric] split(1) rev_map [symmetric, of fst])
  have "distinct (map fst ?R)"
    using arg_cong [OF split(1), of distinct] by (simp add: distinct_map)
  then have "map_of ?R = map_of (rev ?R)"
    by (subst map_of_inject_set) (simp_all add: rev_map [symmetric])
  then have "map_of ?R = map_of (zip (map int [0..<length rs]) rs)"
    by (simp only: zip)
  moreover have "map_of (zip (map int [0..<length rs]) rs) i =
      (if 0 \<le> i \<and> nat i < length rs then Some (rs ! nat i) else None)"
  proof (cases "0 \<le> i \<and> nat i < length rs")
    case True
    then show ?thesis
      using map_of_zip_nth [of "map int [0..<length rs]" rs "nat i"] by (simp add: distinct_map)
  next
    case False
    then have "i \<notin> set (map int [0..<length rs])" by auto
    then have "map_of (zip (map int [0..<length rs]) rs) i = None"
      by (subst map_of_zip_is_None) simp_all
    with False show ?thesis by auto
  qed
  ultimately show "tasks_get_result i s =
      Some (if 0 \<le> i \<and> nat i < length rs then rs ! nat i else NOT_EXECUTED, s)"
    using tasks_get_result_eq [OF assms(1)] by (simp add: tasks_finished_def)
qed


section \<open>Properties\<close>

definition ex_tasks :: "(string \<Rightarrow> string option) tasks" where
  "ex_tasks = zk.extend ex_zk
    \<lparr>last_task_id_assigned = 5, tasks_queue = [], tasks_queue_lock = Unusable,
     tasks_results_list = [], tasks_results_list_lock = Unusable, destroyed = True\<rparr>"

lemma ex_tasks_sel [simp]: "outcomes ex_tasks = []" "live ex_tasks = 0"
  by (simp_all add: ex_tasks_def zk.defs ex_zk_def net.defs ex_net_def heap.defs ex_heap_def)

lemma tasks_init_ok:
  assumes "tasks_init (0, 0, 0, 0) s0 = (r, s)" "outcomes s0 = []"
  shows "r = 0" "tasks_ok s" "tasks_numbered s" "tasks_log s = ([], [])" "tasks_blocks s = 0"
    "live s = live s0" "last_task_id_assigned s = -1"
  using assms
  by (auto simp: tasks_init_def Let_def tasks_ok_def tasks_numbered_def tasks_log_def
      tasks_blocks_def INT_MAX_def)

text \<open>C20: after the initialization, any sequence of additions and completions of tasks works like a log
  with a cursor: tasks are handed out first in first out, each once, their identifiers are their
  positions in the log, the result asked for an identifier is the one its task was completed with,
  and \<^verbatim>\<open>NOT_EXECUTED\<close> for every task that is still queued and every number that names no task;
  destroying the structures then frees every block they took.\<close>

theorem tasks_refine_log:
  assumes "protobuf_ok pb" "tasks_init (0, 0, 0, 0) s0 = (r, s)" "outcomes s0 = []"
    and "list_all queue_op_ok ops" "int (length ops) \<le> INT_MAX"
  shows "\<exists>s'. run_tasks pb ops s = Some s' \<and>
    (case log_run ops ([], []) of (rs, ms) \<Rightarrow>
      map op_code_and_args (tasks_queue s') = ms \<and>
      map task_id (tasks_queue s') = map int [length rs..<length rs + length ms] \<and>
      (\<forall>i. tasks_get_result i s' =
        Some (if 0 \<le> i \<and> nat i < length rs then rs ! nat i else NOT_EXECUTED, s'))) \<and>
    live (tasks_destroy pb s') = live s0"
proof -
  note init = tasks_init_ok [OF assms(2,3)]
  obtain s' where s': "run_tasks pb ops s = Some s'" "tasks_ok s'" "tasks_numbered s'"
      "tasks_log s' = log_run ops ([], [])" "live s' - tasks_blocks s' = live s - tasks_blocks s"
    using run_tasks_log [OF assms(1) init(2,3) assms(4)] init(4,7) assms(5) by auto
  obtain rs ms where l: "log_run ops ([], []) = (rs, ms)" by fastforce
  have "live (tasks_destroy pb s') = live s0"
    using s'(5) init(5,6) by (simp add: tasks_destroy_live [OF assms(1)])
  then show ?thesis
    using tasks_numbered_results [OF s'(2,3), of rs ms] s'(1,4) l by auto
qed

theorem tasks_refine_log_witness:
  "\<exists>s'. run_tasks wire_protobuf [Add ex_message, Add ex_message, Finish SUCCESSFUL]
      (snd (tasks_init (0, 0, 0, 0) ex_tasks)) = Some s' \<and>
    map op_code_and_args (tasks_queue s') = [ex_message] \<and>
    map task_id (tasks_queue s') = [1] \<and> tasks_get_result 0 s' = Some (SUCCESSFUL, s') \<and>
    tasks_get_result 1 s' = Some (NOT_EXECUTED, s') \<and> live (tasks_destroy wire_protobuf s') = 0"
  using tasks_refine_log [OF protobuf_ok_wire prod.collapse [symmetric], of ex_tasks
      "[Add ex_message, Add ex_message, Finish SUCCESSFUL]"]
  by (auto simp: queue_op_ok_def ex_message_ok INT_MAX_def log_run_def)

lemma run_tasks_run:
  assumes "tasks_ok s" "last_task_id_assigned s + int (length ops) \<le> INT_MAX" "list_all queue_op_ok ops"
  shows "run_tasks pb ops s = tasks.run pb ops s"
  using assms
proof (induction ops arbitrary: s)
  case (Cons x ops)
  show ?case
  proof (cases x)
    case (Add m)
    then have m: "message_ok m" "last_task_id_assigned s < INT_MAX"
      using Cons.prems by (auto simp: queue_op_ok_def)
    show ?thesis
      using Add Cons.IH [OF tasks_ok_added [OF Cons.prems(1) m(2), of m]] Cons.prems(2,3)
        tasks_add_task_eq [OF Cons.prems(1) m] by (simp add: added_def)
  next
    case (Finish q)
    then have q: "q \<noteq> NOT_EXECUTED" using Cons.prems(3) by (simp add: queue_op_ok_def)
    show ?thesis
    proof (cases "tasks_queue s")
      case Nil
      then have "tasks_pending s = []" by (simp add: tasks_pending_def)
      with Nil Finish Cons.prems Cons.IH [OF Cons.prems(1)] show ?thesis
        by (simp add: tasks_get_next_eq)
    next
      case (Cons t ts)
      then have "tasks_pending s = (task_id t, op_code_and_args t) #
          map (\<lambda>t. (task_id t, op_code_and_args t)) ts" by (simp add: tasks_pending_def)
      moreover have "last_task_id_assigned (set_head pb q s) = last_task_id_assigned s"
        by (simp add: set_head_def)
      ultimately show ?thesis
        using Finish Cons.IH [OF tasks_ok_set_head [OF Cons.prems(1) Cons q, of pb]] Cons.prems
          tasks_set_result_eq [OF Cons.prems(1) Cons q, of pb] Cons
        by (simp add: tasks_get_next_eq)
    qed
  qed
qed simp

lemma queue_ops_valid: "list_all queue_op_ok ops \<Longrightarrow> list_all tasks.op_valid ops"
  unfolding list_all_iff queue_op_ok_def
  by (auto split: queue_op.splits) (metis (full_types) queue_op.exhaust tasks.op_valid.simps)

lemma adds_in_room:
  assumes "last_task_id_assigned s + int (length ops) \<le> INT_MAX"
  shows "length (tasks.adds ops) \<le> tasks_room s"
proof -
  have "length (tasks.adds ops) \<le> length ops"
    by (induction ops) (auto simp: tasks.adds_def split: queue_op.splits)
  then show ?thesis using assms by (simp add: tasks_room_def)
qed

text \<open>C21: under any later additions and completions the result of a completed task does not change: once
  a client has seen its operation executed it always will.\<close>

theorem tasks_result_stable:
  assumes "tasks_ok s" "list_all queue_op_ok ops" "last_task_id_assigned s + int (length ops) \<le> INT_MAX"
    and "tasks_get_result i s = Some (r, s)" "r \<noteq> NOT_EXECUTED"
  shows "\<exists>s'. run_tasks pb ops s = Some s' \<and> tasks_get_result i s' = Some (r, s')"
proof -
  from tasks.run_fifo [OF assms(1) queue_ops_valid [OF assms(2)] adds_in_room [OF assms(3)], of pb]
    run_tasks_run [OF assms(1,3,2), of pb]
  obtain s' where s': "run_tasks pb ops s = Some s'" "tasks_ok s'"
      "\<forall>i r. tasks_finished s i = Some r \<longrightarrow> tasks_finished s' i = Some r"
    by auto
  have "tasks_finished s i = Some r"
    using assms(4,5) tasks_get_result_eq [OF assms(1), of i] by (auto split: option.splits)
  with s' show ?thesis by (simp add: tasks_get_result_eq)
qed

definition ex_queue :: "(string \<Rightarrow> string option) tasks" where
  "ex_queue = ex_tasks\<lparr>last_task_id_assigned := 1,
     tasks_queue := [\<lparr>task_id = 1, op_code_and_args = ex_message\<rparr>],
     tasks_queue_lock := Unlocked, tasks_results_list := [(0, FAILED)],
     tasks_results_list_lock := Unlocked, destroyed := False\<rparr>"

lemma ex_queue_ok: "tasks_ok ex_queue"
  by (simp add: tasks_ok_def ex_queue_def INT_MAX_def)

theorem tasks_result_stable_witness:
  "\<exists>s'. run_tasks wire_protobuf [Finish SUCCESSFUL, Add ex_message] ex_queue = Some s' \<and>
    tasks_get_result 0 s' = Some (FAILED, s')"
proof (rule tasks_result_stable [OF ex_queue_ok])
  show "list_all queue_op_ok [Finish SUCCESSFUL, Add ex_message]" by (simp add: queue_op_ok_def ex_message_ok)
  show "last_task_id_assigned ex_queue + int (length [Finish SUCCESSFUL, Add ex_message]) \<le> INT_MAX"
    by (simp add: ex_queue_def INT_MAX_def)
  show "tasks_get_result 0 ex_queue = Some (FAILED, ex_queue)"
    unfolding tasks_get_result_eq [OF ex_queue_ok] by (simp add: tasks_finished_def ex_queue_def)
qed simp

end
