(* ===== verification/KV_Skel.thy ===== *)
theory KV_Skel
  imports KV_Tasks
begin

text \<open>
  \<^verbatim>\<open>source/server/tree_skel.c\<close>: the operations of the server. The main thread answers queries at
  once and queues write operations; the task-processing thread takes queued operations one by one,
  applies each to the tree, copies it to the backup server and records its result. Both work under
  the mutex of the tree, so what they do to the tree are atomic steps of one state; the steps of the
  two threads interleave freely. An \<^verbatim>\<open>exit\<close> of the process is a value.
\<close>

section \<open>Definitions\<close>

text \<open>Where the task-processing thread is: about to ask for a task, or holding the pointer it got.\<close>

datatype processor = NotStarted | Ready | Holding task_t | Ended

record 's skel = "'s tasks" +
  tree :: "tree_t option"
  tree_lock :: mutex
  tasks_processor :: processor

datatype flow = Continue | Exit int

definition invoke_tree_size ::
  "message \<Rightarrow> message \<Rightarrow> ('s, 'z) skel_scheme \<Rightarrow> (message \<times> ('s, 'z) skel_scheme) option" where
  "invoke_tree_size request response s =
    Some (response\<lparr>m_op_code := m_op_code request + 1, m_content := CIntResult (tree_size (tree s))\<rparr>, s)"

definition invoke_tree_height ::
  "message \<Rightarrow> message \<Rightarrow> ('s, 'z) skel_scheme \<Rightarrow> (message \<times> ('s, 'z) skel_scheme) option" where
  "invoke_tree_height request response s =
    Some (response\<lparr>m_op_code := m_op_code request + 1, m_content := CIntResult (tree_height (tree s))\<rparr>, s)"

text \<open>Reading a member of the union that \<^verbatim>\<open>content_case\<close> does not select is undefined.\<close>

definition m_key :: "message \<Rightarrow> string option option" where
  "m_key m = (case m_content m of CKey k \<Rightarrow> Some k | _ \<Rightarrow> None)"

definition m_entry :: "message \<Rightarrow> entry_message option option" where
  "m_entry m = (case m_content m of CEntry e \<Rightarrow> Some e | _ \<Rightarrow> None)"

definition m_op_id :: "message \<Rightarrow> int option" where
  "m_op_id m = (case m_content m of COpId n \<Rightarrow> Some n | _ \<Rightarrow> None)"

definition invoke_tree_get ::
  "message \<Rightarrow> message \<Rightarrow> ('s, 'z) skel_scheme \<Rightarrow> (message \<times> ('s, 'z) skel_scheme) option" where
  "invoke_tree_get request response s = do {
     key \<leftarrow> m_key request;
     (val, s) \<leftarrow> tree_get (tree s) key s;
     if val \<noteq> None then do {
       (msg, s) \<leftarrow> data_to_msg val s;
       Some (response\<lparr>m_op_code := m_op_code request + 1, m_content := CValue msg\<rparr>, data_destroy val s)
     }
     else Some (response\<lparr>m_op_code := OP_ERROR, m_content := CNone\<rparr>, s)
   }"

definition invoke_tree_get_keys ::
  "message \<Rightarrow> message \<Rightarrow> ('s, 'z) skel_scheme \<Rightarrow> (message \<times> ('s, 'z) skel_scheme) option" where
  "invoke_tree_get_keys request response s = do {
     (keys, s) \<leftarrow> tree_get_keys (tree s) s;
     if keys \<noteq> None then do {
       (msg, s) \<leftarrow> keys_to_msg keys s;
       s \<leftarrow> tree_free_keys keys s;
       Some (response\<lparr>m_op_code := m_op_code request + 1, m_content := CKeys msg\<rparr>, s)
     }
     else Some (response\<lparr>m_op_code := OP_ERROR, m_content := CNone\<rparr>, s)
   }"

definition invoke_write_operation ::
  "message \<Rightarrow> message \<Rightarrow> ('s, 'z) skel_scheme \<Rightarrow> (message \<times> ('s, 'z) skel_scheme) option" where
  "invoke_write_operation request response s = do {
     (task_id, s) \<leftarrow> tasks_add_task (Some request) s;
     Some (response\<lparr>m_op_code := m_op_code request + 1, m_content := COpId task_id\<rparr>, s)
   }"

definition invoke_verify ::
  "message \<Rightarrow> message \<Rightarrow> ('s, 'z) skel_scheme \<Rightarrow> (message \<times> ('s, 'z) skel_scheme) option" where
  "invoke_verify request response s = do {
     op_id \<leftarrow> m_op_id request;
     (task_result, s) \<leftarrow> tasks_get_result op_id s;
     Some (response\<lparr>m_op_code := m_op_code request + 1,
                    m_content := CIntResult (task_result_int task_result)\<rparr>, s)
   }"

definition lock_tree :: "('s, 'z) skel_scheme \<Rightarrow> ('s, 'z) skel_scheme option" where
  "lock_tree s = do { l \<leftarrow> mutex_lock (tree_lock s); Some (s\<lparr>tree_lock := l\<rparr>) }"

definition unlock_tree :: "('s, 'z) skel_scheme \<Rightarrow> ('s, 'z) skel_scheme option" where
  "unlock_tree s = do { l \<leftarrow> mutex_unlock (tree_lock s); Some (s\<lparr>tree_lock := l\<rparr>) }"

definition invoke2 ::
  "message \<Rightarrow> message \<Rightarrow> ('s, 'z) skel_scheme \<Rightarrow> (message \<times> ('s, 'z) skel_scheme) option" where
  "invoke2 request response s = do {
     s \<leftarrow> lock_tree s;
     (response, s) \<leftarrow>
       (let op = m_op_code request; ct = content_case (m_content request) in
        if op = OP_SIZE then invoke_tree_size request response s
        else if op = OP_HEIGHT then invoke_tree_height request response s
        else if op = OP_DEL \<and> ct = 10 then invoke_write_operation request response s
        else if op = OP_GET \<and> ct = 10 then invoke_tree_get request response s
        else if op = OP_PUT \<and> ct = 30 then invoke_write_operation request response s
        else if op = OP_GETKEYS then invoke_tree_get_keys request response s
        else if op = OP_VERIFY \<and> ct = 60 then invoke_verify request response s
        else Some (response, s));
     s \<leftarrow> unlock_tree s;
     Some (response, s)
   }"

text \<open>The message is returned with what it holds after the call.\<close>

definition invoke ::
  "protobuf \<Rightarrow> message_t option \<Rightarrow> ('s, 'z) skel_scheme
    \<Rightarrow> (int \<times> message_t option \<times> ('s, 'z) skel_scheme) option" where
  "invoke pb message s =
    (if tree s = None then Some (-1, message, s)
     else (case message of
       None \<Rightarrow> Some (-1, message, s)
     | Some w \<Rightarrow>
         (case mt_msg w of
            None \<Rightarrow> Some (-1, message, s)
          | Some request \<Rightarrow>
              (case Message_create s of (response, s) \<Rightarrow> do {
                 response \<leftarrow> response;
                 (response, s) \<leftarrow> invoke2 request (response\<lparr>m_op_code := OP_BAD\<rparr>) s;
                 let response = (if m_op_code response = OP_BAD
                   then response\<lparr>m_op_code := OP_ERROR, m_content := CIntResult (-1)\<rparr> else response);
                 let s = Message_destroy pb (Some request) s;
                 Some (0, Some (w\<lparr>mt_msg := Some response\<rparr>), s)
               }))))"

text \<open>
  The checks of \<^verbatim>\<open>parse_result\<close> and \<^verbatim>\<open>sockfd\<close> compare with -1 by \<^verbatim>\<open><\<close>, so they never hold; a failed
  parse leaves \<^verbatim>\<open>ip_address\<close> and \<^verbatim>\<open>port\<close> unwritten, and reading them is undefined. The message that
  \<^verbatim>\<open>message_create\<close> made is overwritten.
\<close>

definition replicate_to_backup_server ::
  "protobuf \<Rightarrow> 's zoo \<Rightarrow> task_t \<Rightarrow> ('s, 'z) skel_scheme \<Rightarrow> (int \<times> ('s, 'z) skel_scheme) option" where
  "replicate_to_backup_server pb zoo task s =
    (if zk_get_tree_server_role s = BACKUP then Some (0, s)
     else do {
       (backup_server, s) \<leftarrow> zk_get_backup_tree_server zoo s;
       if backup_server = None then Some (-1, s)
       else (case parse_address_port backup_server None None s of
         (parse_result, ip_var, port_var, s) \<Rightarrow>
           let s = free backup_server s in
           if parse_result < -1 then Some (-1, s)
           else do {
             ip_address \<leftarrow> ip_var;
             port \<leftarrow> port_var;
             (sockfd, s) \<leftarrow> server_connect ip_address port s;
             let s = free ip_address s;
             if sockfd < -1 then Some (-1, s)
             else (case message_create s of (request, s) \<Rightarrow>
               if request = None then Some (-1, close_fd sockfd s)
               else do {
                 (copied, s) \<leftarrow> Message_dup (Some (op_code_and_args task)) s;
                 if copied = None then Some (-1, free request (close_fd sockfd s))
                 else do {
                   let request = Some \<lparr>mt_msg = copied\<rparr>;
                   (send_result, s) \<leftarrow> network_send_message pb sockfd request s;
                   let s = message_destroy pb request s;
                   if send_result < 0 then Some (-1, close_fd sockfd s)
                   else Some (0, close_fd sockfd s)
                 }
               })
           })
     })"

definition process_tree_del ::
  "protobuf \<Rightarrow> 's zoo \<Rightarrow> task_t \<Rightarrow> ('s, 'z) skel_scheme \<Rightarrow> (flow \<times> ('s, 'z) skel_scheme) option" where
  "process_tree_del pb zoo task s = do {
     key \<leftarrow> m_key (op_code_and_args task);
     (r, t, s) \<leftarrow> tree_del (tree s) key s;
     let s = s\<lparr>tree := t\<rparr>;
     if r < 0 then Some (Exit 1, s)
     else do {
       (r, s) \<leftarrow> replicate_to_backup_server pb zoo task s;
       if r < 0 then Some (Exit 1, s)
       else do {
         (r, s) \<leftarrow> tasks_set_result pb (task_id task) SUCCESSFUL s;
         Some (Continue, s)
       }
     }
   }"

definition process_tree_put ::
  "protobuf \<Rightarrow> 's zoo \<Rightarrow> task_t \<Rightarrow> ('s, 'z) skel_scheme \<Rightarrow> (flow \<times> ('s, 'z) skel_scheme) option" where
  "process_tree_put pb zoo task s = do {
     em \<leftarrow> m_entry (op_code_and_args task);
     (entry, s) \<leftarrow> msg_to_entry em s;
     case entry of
       None \<Rightarrow> Some (Exit 1, s)
     | Some e \<Rightarrow> do {
         (r, t, s) \<leftarrow> tree_put (tree s) (e_key e) (e_value e) s;
         let s = s\<lparr>tree := t\<rparr>;
         if r < 0 then Some (Exit 1, s)
         else do {
           let s = entry_destroy entry s;
           (r, s) \<leftarrow> replicate_to_backup_server pb zoo task s;
           if r < 0 then Some (Exit 1, s)
           else do {
             (r, s) \<leftarrow> tasks_set_result pb (task_id task) SUCCESSFUL s;
             Some (Continue, s)
           }
         }
       }
   }"

text \<open>The body of the loop of \<^verbatim>\<open>process_tasks\<close> after a task has been taken.\<close>

definition process_task ::
  "protobuf \<Rightarrow> 's zoo \<Rightarrow> task_t \<Rightarrow> ('s, 'z) skel_scheme \<Rightarrow> (flow \<times> ('s, 'z) skel_scheme) option" where
  "process_task pb zoo task s = do {
     let op_code = m_op_code (op_code_and_args task);
     let ct = content_case (m_content (op_code_and_args task));
     s \<leftarrow> lock_tree s;
     (flow, s) \<leftarrow>
       (if op_code = OP_DEL \<and> ct = 10 then process_tree_del pb zoo task s
        else if op_code = OP_PUT \<and> ct = 30 then process_tree_put pb zoo task s
        else do {
          (r, s) \<leftarrow> tasks_set_result pb (task_id task) FAILED s;
          Some (Continue, s)
        });
     if flow = Continue then do { s \<leftarrow> unlock_tree s; Some (Continue, s) }
     else Some (flow, s)
   }"

text \<open>One step of the thread that runs \<^verbatim>\<open>process_tasks\<close>: the check at its start, taking the next task
  (nothing happens while there is none), or working on the task it holds.\<close>

definition process_tasks ::
  "protobuf \<Rightarrow> 's zoo \<Rightarrow> ('s, 'z) skel_scheme \<Rightarrow> (flow \<times> ('s, 'z) skel_scheme) option" where
  "process_tasks pb zoo s =
    (case tasks_processor s of
       NotStarted \<Rightarrow>
         Some (Continue, s\<lparr>tasks_processor := (if tree s = None then Ended else Ready)\<rparr>)
     | Ready \<Rightarrow> do {
         (next, s) \<leftarrow> tasks_get_next s;
         Some (Continue, case next of
             Waiting \<Rightarrow> s
           | Next None \<Rightarrow> s\<lparr>tasks_processor := Ended\<rparr>
           | Next (Some task) \<Rightarrow> s\<lparr>tasks_processor := Holding task\<rparr>)
       }
     | Holding task \<Rightarrow> do {
         (flow, s) \<leftarrow> process_task pb zoo task s;
         Some (flow, s\<lparr>tasks_processor := Ready\<rparr>)
       }
     | Ended \<Rightarrow> Some (Continue, s))"

text \<open>Given the results of the \<^verbatim>\<open>pthread\<close> calls: the four of \<^verbatim>\<open>tasks_init\<close>, the creation of the thread,
  the initialization of the tree's mutex.\<close>

definition tree_skel_init ::
  "int \<times> int \<times> int \<times> int \<Rightarrow> int \<Rightarrow> int \<Rightarrow> ('s, 'z) skel_scheme \<Rightarrow> int \<times> ('s, 'z) skel_scheme" where
  "tree_skel_init rcs thread_rc lock_rc s =
    (case tree_create s of (t, s) \<Rightarrow>
      case tasks_init rcs (s\<lparr>tree := t\<rparr>) of (r, s) \<Rightarrow>
        let s = (if thread_rc = 0 then s\<lparr>tasks_processor := NotStarted\<rparr> else s) in
        if tree s = None \<or> r < 0 \<or> thread_rc < 0 then (-1, s)
        else if lock_rc < 0 then (-1, s)
        else (0, s\<lparr>tree_lock := Unlocked\<rparr>))"

definition tree_skel_destroy :: "protobuf \<Rightarrow> ('s, 'z) skel_scheme \<Rightarrow> ('s, 'z) skel_scheme" where
  "tree_skel_destroy pb s =
    (let s = (tasks_destroy pb s)\<lparr>tree_lock := Unusable\<rparr> in tree_destroy (tree s) s)"


section \<open>The state between steps\<close>

text \<open>The write operation a queued message asks for; none when its entry has no key or no value.\<close>

definition write_request :: "message \<Rightarrow> bool" where
  "write_request m \<longleftrightarrow>
    (m_op_code m = OP_DEL \<and> content_case (m_content m) = 10) \<or>
    (m_op_code m = OP_PUT \<and> content_case (m_content m) = 30)"

definition task_write :: "message \<Rightarrow> write_op option" where
  "task_write m =
    (case m_content m of
       CKey (Some k) \<Rightarrow> Some (Del k)
     | CEntry (Some em) \<Rightarrow> do {
         ns \<leftarrow> em_key em; k \<leftarrow> ns_str ns; v \<leftarrow> em_value em; Some (Put k (data_of_msg v)) }
     | _ \<Rightarrow> None)"

text \<open>
  \<^verbatim>\<open>ws\<close> are all the write requests that were queued since the start, \<^verbatim>\<open>n\<close> how many are done: the tree
  stands for the map that the first \<^verbatim>\<open>n\<close> build, each of those has its result, the others are queued
  in their order, and the processing thread holds nothing but the head of the queue.
\<close>

definition skel_inv :: "protobuf \<Rightarrow> message list \<Rightarrow> nat \<Rightarrow> ('s, 'z) skel_scheme \<Rightarrow> bool" where
  "skel_inv pb ws n s \<longleftrightarrow>
    (\<exists>t. tree s = Some t \<and> tree_ok t \<and> t_size t \<le> int n \<and>
      tree_map t = fold apply_op (map (the \<circ> task_write) (take n ws)) Map.empty) \<and>
    tasks_ok s \<and> tasks_numbered s \<and> tasks_log s = (replicate n SUCCESSFUL, drop n ws) \<and>
    n \<le> length ws \<and> messages_ok pb ws \<and> (\<forall>m \<in> set ws. write_request m) \<and>
    (\<forall>m \<in> set (take n ws). task_write m \<noteq> None) \<and>
    tree_lock s = Unlocked \<and>
    (case tasks_processor s of
       Holding task \<Rightarrow> (\<exists>ts. tasks_queue s = task # ts)
     | Ended \<Rightarrow> False
     | _ \<Rightarrow> True)"

text \<open>What the server answers to a request.\<close>

definition answer :: "message \<Rightarrow> tree_t \<Rightarrow> nat \<Rightarrow> nat \<Rightarrow> message" where
  "answer request t n len =
    (let op = m_op_code request; reply = (\<lambda>c. \<lparr>m_op_code = op + 1, m_content = c\<rparr>);
         bad = \<lparr>m_op_code = OP_ERROR, m_content = CIntResult (-1)\<rparr> in
     if op = OP_SIZE then reply (CIntResult (t_size t))
     else if op = OP_HEIGHT then reply (CIntResult (t_height t))
     else if op = OP_GETKEYS then reply (CKeys (Some (keys_message_of (key_list (t_root t)))))
     else if write_request request then reply (COpId (int len))
     else (case m_content request of
         CKey (Some k) \<Rightarrow>
           if op = OP_GET
           then reply (CValue (Some (msg_of_data
                  (case tree_map t k of None \<Rightarrow> \<lparr>d_size = 0, d_data = None\<rparr> | Some d \<Rightarrow> d))))
           else bad
       | COpId i \<Rightarrow>
           if op = OP_VERIFY then reply (CIntResult (if 0 \<le> i \<and> nat i < n then 1 else 0)) else bad
       | _ \<Rightarrow> bad))"

lemma skel_inv_last:
  assumes "skel_inv pb ws n s"
  shows "last_task_id_assigned s = int (length ws) - 1"
proof -
  have "length (rev (map fst (tasks_results_list s)) @ map task_id (tasks_queue s)) =
      nat (last_task_id_assigned s + 1)"
    using assms by (simp add: skel_inv_def tasks_numbered_def)
  moreover have "length (tasks_results_list s) = n" "length (tasks_queue s) = length ws - n" "n \<le> length ws"
    using assms by (auto simp: skel_inv_def tasks_log_def dest: arg_cong [of _ _ length])
  moreover have "-1 \<le> last_task_id_assigned s" using assms by (simp add: skel_inv_def tasks_ok_def)
  ultimately show ?thesis by simp
qed

lemma skel_inv_result:
  assumes "skel_inv pb ws n s"
  shows "tasks_get_result i s =
    Some (if 0 \<le> i \<and> nat i < n then SUCCESSFUL else NOT_EXECUTED, s)"
  using tasks_numbered_results(3) [of s "replicate n SUCCESSFUL" "drop n ws" i] assms
  by (simp add: skel_inv_def)

text \<open>Changes that concern neither the tree nor the tasks.\<close>

definition kept :: "('s, 'z) skel_scheme \<Rightarrow> ('s, 'z) skel_scheme \<Rightarrow> bool" where
  "kept s s' \<longleftrightarrow>
    outcomes s' = outcomes s \<and> tree s' = tree s \<and> tree_lock s' = tree_lock s \<and>
    tasks_processor s' = tasks_processor s \<and> last_task_id_assigned s' = last_task_id_assigned s \<and>
    tasks_queue s' = tasks_queue s \<and> tasks_queue_lock s' = tasks_queue_lock s \<and>
    tasks_results_list s' = tasks_results_list s \<and>
    tasks_results_list_lock s' = tasks_results_list_lock s \<and> destroyed s' = destroyed s"

lemma kept_refl [simp]: "kept s s"
  by (simp add: kept_def)

lemma kept_trans [trans]: "kept s s' \<Longrightarrow> kept s' s'' \<Longrightarrow> kept s s''"
  by (simp add: kept_def)

lemma kept_updates [simp]:
  "kept s (s'\<lparr>live := n\<rparr>) = kept s s'" "kept s (s'\<lparr>service := v\<rparr>) = kept s s'"
  "kept s (s'\<lparr>socks := k\<rparr>) = kept s s'" "kept s (s'\<lparr>new_fds := fds\<rparr>) = kept s s'"
  "kept s (s'\<lparr>connects := cs\<rparr>) = kept s s'" "kept s (s'\<lparr>dialled := ds\<rparr>) = kept s s'"
  "kept s (s'\<lparr>closed := l\<rparr>) = kept s s'" "kept s (set_out fd es bs s') = kept s s'"
  "kept s (set_in fd is s') = kept s s'"
  by (simp_all add: kept_def set_out_def set_in_def)

lemma kept_close [simp]: "kept s (close_fd fd s') = kept s s'"
  by (simp add: close_fd_def split: option.splits)

lemma kept_inv: "kept s s' \<Longrightarrow> skel_inv pb ws n s' = skel_inv pb ws n s"
  by (simp add: kept_def skel_inv_def tasks_ok_def tasks_numbered_def tasks_log_def
      cong: processor.case_cong)

section \<open>Requests\<close>

lemma message_content_cases:
  assumes "message_ok m"
  obtains (key) k where "m_content m = CKey (Some k)"
    | (entry) e where "m_content m = CEntry (Some e)" "entry_message_ok e"
    | (op_id) i where "m_content m = COpId i"
    | (other) "content_case (m_content m) \<notin> {10, 30, 60}"
  using assms by (cases "m_content m") (auto simp: message_ok_def split: option.splits)

text \<open>The state when the answer is being computed: the response is allocated and the tree locked.\<close>

lemma invoke_eq:
  assumes "outcomes s = []" "tree s \<noteq> None" "tree_lock s = Unlocked"
    and "\<And>s0 r0. s0 = s\<lparr>live := live s + 1\<rparr> \<Longrightarrow> r0 = \<lparr>m_op_code = OP_BAD, m_content = CNone\<rparr> \<Longrightarrow>
      invoke2 request r0 s0 = Some (response, s1)"
  shows "invoke pb (Some \<lparr>mt_msg = Some request\<rparr>) s =
    Some (0, Some \<lparr>mt_msg = Some (if m_op_code response = OP_BAD
        then \<lparr>m_op_code = OP_ERROR, m_content = CIntResult (-1)\<rparr> else response)\<rparr>,
      s1\<lparr>live := live s1 - release_message pb request\<rparr>)"
  using assms by (cases response) (auto simp: invoke_def alloc_simps Message_destroy_def)

lemma lock_tree_eq: "tree_lock s = Unlocked \<Longrightarrow> lock_tree s = Some (s\<lparr>tree_lock := Locked\<rparr>)"
  by (simp add: lock_tree_def)

lemma unlock_tree_eq: "tree_lock s = Locked \<Longrightarrow> unlock_tree s = Some (s\<lparr>tree_lock := Unlocked\<rparr>)"
  by (simp add: unlock_tree_def)

lemma invoke_tree_get_eq:
  assumes "tree s = Some t" "tree_ok t" "outcomes s = []" "m_content request = CKey (Some k)"
  shows "\<exists>n. invoke_tree_get request response s =
    Some (response\<lparr>m_op_code := m_op_code request + 1, m_content := CValue (Some (msg_of_data
        (case tree_map t k of None \<Rightarrow> \<lparr>d_size = 0, d_data = None\<rparr> | Some d \<Rightarrow> d)))\<rparr>,
      s\<lparr>live := n\<rparr>)"
proof (cases "tree_map t k")
  case None
  have "data_ok \<lparr>d_size = 0, d_data = None\<rparr>" by (simp add: data_ok_def INT_MAX_def)
  with None assms show ?thesis
    by (simp add: invoke_tree_get_def m_key_def tree_get_eq alloc_simps) blast
next
  case (Some d)
  with assms tree_map_valid [OF assms(2) Some] show ?thesis
    by (simp add: invoke_tree_get_def m_key_def tree_get_eq alloc_simps) blast
qed

lemma invoke_tree_get_keys_eq:
  assumes "tree s = Some t" "tree_ok t" "outcomes s = []"
  shows "\<exists>n. invoke_tree_get_keys request response s =
    Some (response\<lparr>m_op_code := m_op_code request + 1,
                   m_content := CKeys (Some (keys_message_of (key_list (t_root t))))\<rparr>, s\<lparr>live := n\<rparr>)"
  using assms
  by (simp add: invoke_tree_get_keys_def tree_get_keys_eq keys_to_msg_ok tree_free_keys_eq) blast


lemma skel_inv_sel:
  assumes "skel_inv pb ws n s"
  obtains t where "tree s = Some t" "tree_ok t" "outcomes s = []" "tree_lock s = Unlocked" "tasks_ok s"
  using assms by (auto simp: skel_inv_def tasks_ok_def)

lemma skel_inv_added:
  assumes "skel_inv pb ws n s" "messages_ok pb [m]" "write_request m" "int (length ws) < INT_MAX"
  shows "skel_inv pb (ws @ [m]) n (added m s)"
proof -
  have last: "last_task_id_assigned s < INT_MAX"
    using skel_inv_last [OF assms(1)] assms(4) by simp
  have ok: "tasks_ok s" using assms(1) by (simp add: skel_inv_def)
  have ge: "-1 \<le> last_task_id_assigned s" using ok by (simp add: tasks_ok_def)
  then have "nat (2 + last_task_id_assigned s) = Suc (nat (last_task_id_assigned s + 1))"
    by simp
  with ge have "tasks_numbered (added m s)"
    using assms(1) by (simp add: skel_inv_def tasks_numbered_def added_def flip: append_assoc)
  moreover have "tasks_log (added m s) = (replicate n SUCCESSFUL, drop n (ws @ [m]))"
    using assms(1) by (simp add: skel_inv_def tasks_log_def added_def)
  moreover have "tree (added m s) = tree s" "tree_lock (added m s) = tree_lock s"
    "tasks_processor (added m s) = tasks_processor s"
    "\<exists>ts. tasks_queue (added m s) = tasks_queue s @ ts"
    by (simp_all add: added_def)
  ultimately show ?thesis
    using assms tasks_ok_added [OF ok last, of m] unfolding skel_inv_def
    by (auto simp: messages_ok_def split: processor.splits)
qed

lemma invoke_write_step:
  assumes "skel_inv pb ws n s" "tree s = Some t" "messages_ok pb [request]" "int (length ws) < INT_MAX"
    and "write_request request"
  shows "\<exists>s'. invoke pb (Some \<lparr>mt_msg = Some request\<rparr>) s =
      Some (0, Some \<lparr>mt_msg = Some (answer request t n (length ws))\<rparr>, s') \<and>
    skel_inv pb (ws @ [request]) n s' \<and> tree s' = Some t \<and> tasks_processor s' = tasks_processor s \<and>
    socks s' = socks s \<and> server_role s' = server_role s"
proof -
  have inv: "outcomes s = []" "tree_lock s = Unlocked" "tasks_ok s"
    using assms(1,2) by (auto simp: skel_inv_def tasks_ok_def)
  have req: "message_ok request" using assms(3) by (simp add: messages_ok_def)
  have last: "last_task_id_assigned s = int (length ws) - 1" by (rule skel_inv_last [OF assms(1)])
  define s1 where "s1 = s\<lparr>live := live s + 1, tree_lock := Locked\<rparr>"
  define response where "response = \<lparr>m_op_code = m_op_code request + 1, m_content = COpId (int (length ws))\<rparr>"
  define s2 where "s2 = (added request s1)\<lparr>tree_lock := Unlocked\<rparr>"
  have "tasks_ok s1" using inv(3) by (simp add: tasks_ok_def s1_def)
  then have add: "tasks_add_task (Some request) s1 = Some (int (length ws), added request s1)"
    using tasks_add_task_eq [of s1 request] req last assms(4) by (simp add: s1_def)
  have locked: "lock_tree (s\<lparr>live := live s + 1\<rparr>) = Some s1" "tree_lock (added request s1) = Locked"
    using inv(2) by (simp_all add: lock_tree_def s1_def added_def)
  have "invoke2 request \<lparr>m_op_code = OP_BAD, m_content = CNone\<rparr> (s\<lparr>live := live s + 1\<rparr>) = Some (response, s2)"
    using assms(5) add unfolding write_request_def
    by (elim disjE conjE) (simp_all add: invoke2_def locked unlock_tree_eq invoke_write_operation_def
        response_def s2_def op_codes)
  then have "invoke pb (Some \<lparr>mt_msg = Some request\<rparr>) s =
      Some (0, Some \<lparr>mt_msg = Some (if m_op_code response = OP_BAD
        then \<lparr>m_op_code = OP_ERROR, m_content = CIntResult (-1)\<rparr> else response)\<rparr>,
      s2\<lparr>live := live s2 - release_message pb request\<rparr>)"
    using inv assms(2) by (intro invoke_eq) auto
  moreover have "m_op_code response \<noteq> OP_BAD" "answer request t n (length ws) = response"
    using assms(5) by (auto simp: write_request_def response_def answer_def op_codes)
  moreover have "kept (added request s) (s2\<lparr>live := live s2 - release_message pb request\<rparr>)"
    using inv(2) by (simp add: kept_def added_def s1_def s2_def)
  then have "skel_inv pb (ws @ [request]) n (s2\<lparr>live := live s2 - release_message pb request\<rparr>)"
    using skel_inv_added [OF assms(1,3,5,4)] kept_inv by blast
  moreover have "tree s2 = Some t" "tasks_processor s2 = tasks_processor s"
    "socks s2 = socks s" "server_role s2 = server_role s"
    using assms(2) by (simp_all add: s2_def s1_def added_def)
  ultimately show ?thesis by simp
qed

text \<open>Queries: what \<^verbatim>\<open>invoke2\<close> computes under the lock becomes the answer, and only the count of blocks changes.\<close>

definition answers :: "message \<Rightarrow> message \<Rightarrow> bool" where
  "answers response a \<longleftrightarrow>
    (if m_op_code response = OP_BAD then \<lparr>m_op_code = OP_ERROR, m_content = CIntResult (-1)\<rparr> else response) = a"

lemma invoke_read_finish:
  assumes "skel_inv pb ws n s" "tree s = Some t"
    and "invoke2 request \<lparr>m_op_code = OP_BAD, m_content = CNone\<rparr> (s\<lparr>live := live s + 1\<rparr>) = Some (response, s\<lparr>live := k\<rparr>)"
    and "answers response a"
  shows "\<exists>s'. invoke pb (Some \<lparr>mt_msg = Some request\<rparr>) s = Some (0, Some \<lparr>mt_msg = Some a\<rparr>, s') \<and>
    skel_inv pb ws n s' \<and> tree s' = Some t \<and> tasks_processor s' = tasks_processor s \<and>
    socks s' = socks s \<and> server_role s' = server_role s"
proof -
  let ?s = "s\<lparr>live := live (s\<lparr>live := k\<rparr>) - release_message pb request\<rparr>"
  have "outcomes s = []" "tree_lock s = Unlocked"
    using assms(1,2) by (auto simp: skel_inv_def tasks_ok_def)
  then have "invoke pb (Some \<lparr>mt_msg = Some request\<rparr>) s = Some (0, Some \<lparr>mt_msg = Some a\<rparr>, ?s)"
    using assms(2,3) invoke_eq [of s request response "s\<lparr>live := k\<rparr>" pb] assms(4) by (auto simp: answers_def)
  then show ?thesis using assms(1,2) kept_inv [of s ?s] by auto
qed

lemma invoke2_locked:
  assumes "tree_lock s = Unlocked" "op = m_op_code request" "ct = content_case (m_content request)"
  shows "invoke2 request response s = do {
    (response, s) \<leftarrow>
      (let s = s\<lparr>tree_lock := Locked\<rparr> in
       if op = OP_SIZE then invoke_tree_size request response s
       else if op = OP_HEIGHT then invoke_tree_height request response s
       else if op = OP_DEL \<and> ct = 10 then invoke_write_operation request response s
       else if op = OP_GET \<and> ct = 10 then invoke_tree_get request response s
       else if op = OP_PUT \<and> ct = 30 then invoke_write_operation request response s
       else if op = OP_GETKEYS then invoke_tree_get_keys request response s
       else if op = OP_VERIFY \<and> ct = 60 then invoke_verify request response s
       else Some (response, s));
    s \<leftarrow> unlock_tree s;
    Some (response, s)
  }"
  using assms by (simp add: invoke2_def lock_tree_eq Let_def)

lemma verify_locked:
  assumes "skel_inv pb ws n s" "m_content request = COpId i"
  shows "invoke_verify request response (s\<lparr>live := k, tree_lock := Locked\<rparr>) =
    Some (response\<lparr>m_op_code := m_op_code request + 1, m_content := CIntResult (if 0 \<le> i \<and> nat i < n then 1 else 0)\<rparr>,
      s\<lparr>live := k, tree_lock := Locked\<rparr>)"
proof -
  have "skel_inv pb ws n (s\<lparr>live := k\<rparr>)" using assms(1) kept_inv [of s "s\<lparr>live := k\<rparr>"] by simp
  from skel_inv_result [OF this] have "tasks_get_result i (s\<lparr>live := k\<rparr>) =
      Some (if 0 \<le> i \<and> nat i < n then SUCCESSFUL else NOT_EXECUTED, s\<lparr>live := k\<rparr>)" .
  moreover have "tasks_ok s" using assms(1) by (simp add: skel_inv_def)
  ultimately have "tasks_get_result i (s\<lparr>live := k, tree_lock := Locked\<rparr>) =
      Some (if 0 \<le> i \<and> nat i < n then SUCCESSFUL else NOT_EXECUTED, s\<lparr>live := k, tree_lock := Locked\<rparr>)"
    by (simp add: tasks_get_result_def tasks_ok_def)
  with assms(2) show ?thesis by (simp add: invoke_verify_def m_op_id_def)
qed

lemma invoke2_read:
  assumes "skel_inv pb ws n s" "tree s = Some t" "message_ok request" "\<not> write_request request"
  shows "\<exists>response k. invoke2 request \<lparr>m_op_code = OP_BAD, m_content = CNone\<rparr> (s\<lparr>live := live s + 1\<rparr>) =
      Some (response, s\<lparr>live := k\<rparr>) \<and> answers response (answer request t n (length ws))"
proof -
  let ?empty = "\<lparr>m_op_code = OP_BAD, m_content = CNone\<rparr>" and ?s = "s\<lparr>live := live s + 1\<rparr>"
  let ?s1 = "s\<lparr>live := live s + 1, tree_lock := Locked\<rparr>"
  have inv: "tree_ok t" "outcomes s = []" "tree_lock s = Unlocked"
    using assms(1,2) by (auto simp: skel_inv_def tasks_ok_def)
  have s1: "tree ?s1 = Some t" "outcomes ?s1 = []" using inv(2) assms(2) by simp_all
  have restore: "s\<lparr>live := k, tree_lock := Unlocked\<rparr> = s\<lparr>live := k\<rparr>" for k using inv(3) by simp
  note eval = invoke2_locked [OF _ refl refl, of ?s] unlock_tree_eq restore answers_def answer_def inv(3) op_codes
  define op where "op = m_op_code request"
  have ct: "(content_case (m_content request) = 10 \<longleftrightarrow> (\<exists>k. m_content request = CKey (Some k))) \<and>
    (content_case (m_content request) = 60 \<longleftrightarrow> (\<exists>i. m_content request = COpId i))"
    using assms(3) by (cases rule: message_content_cases) auto
  consider (sz) "op = OP_SIZE" | (height) "op = OP_HEIGHT" | (keys) "op = OP_GETKEYS"
    | (get) k where "op = OP_GET" "m_content request = CKey (Some k)"
    | (verify) i where "op = OP_VERIFY" "m_content request = COpId i"
    | (bad) "op \<notin> {OP_SIZE, OP_HEIGHT, OP_GETKEYS}"
        "\<not> (op = OP_GET \<and> content_case (m_content request) = 10)"
        "\<not> (op = OP_VERIFY \<and> content_case (m_content request) = 60)"
    using ct by blast
  then show ?thesis
  proof cases
    case sz
    then show ?thesis
      using assms(2,4) by (simp add: eval op_def invoke_tree_size_def tree_size_def write_request_def) blast
  next
    case height
    then show ?thesis
      using assms(2,4) by (simp add: eval op_def invoke_tree_height_def tree_height_def write_request_def) blast
  next
    case keys
    let ?reply = "\<lparr>m_op_code = op + 1, m_content = CKeys (Some (keys_message_of (key_list (t_root t))))\<rparr>"
    obtain k where "invoke_tree_get_keys request ?empty ?s1 = Some (?reply, ?s1\<lparr>live := k\<rparr>)"
      using invoke_tree_get_keys_eq [OF s1(1) inv(1) s1(2), of request ?empty] by (auto simp: op_def)
    then have "invoke2 request ?empty ?s = Some (?reply, s\<lparr>live := k\<rparr>)"
      using keys by (simp add: eval op_def)
    moreover have "answers ?reply (answer request t n (length ws))"
      using keys by (simp add: eval op_def write_request_def)
    ultimately show ?thesis by blast
  next
    case (get k)
    let ?reply = "\<lparr>m_op_code = op + 1, m_content = CValue (Some (msg_of_data
        (case tree_map t k of None \<Rightarrow> \<lparr>d_size = 0, d_data = None\<rparr> | Some d \<Rightarrow> d)))\<rparr>"
    obtain l where "invoke_tree_get request ?empty ?s1 = Some (?reply, ?s1\<lparr>live := l\<rparr>)"
      using invoke_tree_get_eq [OF s1(1) inv(1) s1(2) get(2), of ?empty] by (auto simp: op_def)
    then have "invoke2 request ?empty ?s = Some (?reply, s\<lparr>live := l\<rparr>)"
      using get by (simp add: eval op_def)
    moreover have "answers ?reply (answer request t n (length ws))"
      using get by (simp add: eval op_def write_request_def)
    ultimately show ?thesis by blast
  next
    case (verify i)
    let ?reply = "\<lparr>m_op_code = op + 1, m_content = CIntResult (if 0 \<le> i \<and> nat i < n then 1 else 0)\<rparr>"
    have "invoke_verify request ?empty ?s1 = Some (?reply, ?s1)"
      using verify_locked [OF assms(1) verify(2), of ?empty] by (simp add: op_def)
    then have "invoke2 request ?empty ?s = Some (?reply, s\<lparr>live := live s + 1\<rparr>)"
      using verify by (simp add: eval op_def)
    moreover have "answers ?reply (answer request t n (length ws))"
      using verify by (simp add: eval op_def write_request_def)
    ultimately show ?thesis by blast
  next
    case bad
    then have none: "m_op_code request \<noteq> OP_SIZE" "m_op_code request \<noteq> OP_HEIGHT"
      "m_op_code request \<noteq> OP_GETKEYS" "\<not> (m_op_code request = OP_DEL \<and> content_case (m_content request) = 10)"
      "\<not> (m_op_code request = OP_PUT \<and> content_case (m_content request) = 30)"
      "\<not> (m_op_code request = OP_GET \<and> content_case (m_content request) = 10)"
      "\<not> (m_op_code request = OP_VERIFY \<and> content_case (m_content request) = 60)"
      using assms(4) by (auto simp: op_def write_request_def)
    have unlocked: "tree_lock ?s = Unlocked" using inv(3) by simp
    have "invoke2 request ?empty ?s = Some (?empty, s\<lparr>live := live s + 1\<rparr>)"
      by (simp only: invoke2_locked [OF unlocked refl refl] Let_def none if_False)
        (simp add: unlock_tree_eq restore)
    moreover have "answer request t n (length ws) = \<lparr>m_op_code = OP_ERROR, m_content = CIntResult (-1)\<rparr>"
      using assms(4) none by (auto simp: answer_def Let_def split: content.splits option.splits)
    ultimately show ?thesis by (intro exI [of _ ?empty] exI [of _ "live s + 1"]) (simp add: answers_def)
  qed
qed

lemma invoke_step:
  assumes "skel_inv pb ws n s" "tree s = Some t" "messages_ok pb [request]" "int (length ws) < INT_MAX"
  shows "\<exists>s'. invoke pb (Some \<lparr>mt_msg = Some request\<rparr>) s =
      Some (0, Some \<lparr>mt_msg = Some (answer request t n (length ws))\<rparr>, s') \<and>
    skel_inv pb (if write_request request then ws @ [request] else ws) n s' \<and>
    tree s' = Some t \<and> tasks_processor s' = tasks_processor s \<and>
    socks s' = socks s \<and> server_role s' = server_role s"
proof (cases "write_request request")
  case True
  then show ?thesis using invoke_write_step [OF assms] by simp
next
  case False
  have "message_ok request" using assms(3) by (simp add: messages_ok_def)
  from invoke2_read [OF assms(1,2) this False] obtain response k where
      "invoke2 request \<lparr>m_op_code = OP_BAD, m_content = CNone\<rparr> (s\<lparr>live := live s + 1\<rparr>) = Some (response, s\<lparr>live := k\<rparr>)"
      "answers response (answer request t n (length ws))" by blast
  from invoke_read_finish [OF assms(1,2) this] False show ?thesis by simp
qed

end
