(* ===== verification/KV_Replication.thy ===== *)
theory KV_Replication
  imports KV_Skel
begin

text \<open>
  What the task-processing thread of \<^verbatim>\<open>source/server/tree_skel.c\<close> does with a task: the write is
  applied to the tree, the request is sent to the backup server, and only then the result is
  recorded. The properties say what has reached the backup when a result becomes visible.
\<close>

section \<open>The calls that replication makes\<close>

text \<open>Calls that touch neither the tree, nor the tasks, nor the connections.\<close>

definition quiet :: "('s, 'z) skel_scheme \<Rightarrow> ('s, 'z) skel_scheme \<Rightarrow> bool" where
  "quiet s s' \<longleftrightarrow> kept s s' \<and> socks s' = socks s \<and> closed s' = closed s \<and> connects s' = connects s"

lemma quiet_trans: "quiet s s' \<Longrightarrow> quiet s' s'' \<Longrightarrow> quiet s s''"
  by (auto simp: quiet_def intro: kept_trans)

lemma quiet_updates [simp]: "quiet s (s'\<lparr>live := n\<rparr>) = quiet s s'" "quiet s (s'\<lparr>service := v\<rparr>) = quiet s s'"
  "quiet s s"
  by (simp_all add: quiet_def)

lemma quiet_free [simp]: "quiet s (free p s') = quiet s s'"
  by (simp add: free_def)

lemma zk_get_server_quiet:
  assumes "zk_get_server zoo path s = Some (a, s')" "outcomes s = []"
  shows "quiet s s'"
  using assms
  by (auto simp: zk_get_server_def on_service_def alloc_simps bind_eq_Some_conv Let_def
      split: if_splits prod.splits)

lemma parse_address_port_quiet:
  assumes "parse_address_port a iv pv s = (r, iv', pv', s')" "outcomes s = []"
  shows "quiet s s'"
  using assms
  by (auto simp: parse_address_port_def alloc_simps Let_def split: if_splits option.splits prod.splits)

lemma server_connect_kept:
  assumes "server_connect ip port s = Some (fd, s')"
  shows "kept s s' \<and> (0 \<le> fd \<longrightarrow> closed s' = closed s \<and>
    (\<exists>k. Connected k \<in> set (connects s) \<and> socks s' fd = Some k)) \<and>
    (fd < 0 \<longrightarrow> fd = -1 \<and> (socks s (-1) = None \<longrightarrow> socks s' (-1) = None))"
  using assms
  by (auto simp: server_connect_def socket_call_def connect_call_def bind_eq_Some_conv Let_def close_fd_def
      split: if_splits list.splits connect_event.splits option.splits)

lemma message_kept:
  assumes "outcomes s = []" "message_ok m" "int (length (pack_message pb m)) \<le> INT_MAX"
    and "network_send_message pb fd (Some \<lparr>mt_msg = Some m\<rparr>) s = Some (r, s')"
  shows "kept s s' \<and> (r < 0 \<or> (\<exists>k es. socks s fd = Some k \<and> closed s' = closed s \<and>
    socks s' fd = Some (k\<lparr>s_out := es, s_sent := s_sent k @ wire_frame pb m\<rparr>)))"
proof (cases "socks s fd")
  case None
  with network_send_message_closed [OF assms(1-3) None] assms(4) show ?thesis by auto
next
  case (Some k)
  with network_send_message_any [OF assms(1-3) Some] assms(4) show ?thesis
    by (auto simp: set_out_def kept_def)
qed

text \<open>The part of \<^verbatim>\<open>replicate_to_backup_server\<close> after a connection attempt returned \<^verbatim>\<open>sockfd\<close>.\<close>

lemma replicate_send:
  assumes "messages_ok pb [m]" "outcomes s = []"
    and "(case message_create s of (request, s) \<Rightarrow>
           if request = None then Some (-1, close_fd sockfd s)
           else do {
             (copied, s) \<leftarrow> Message_dup (Some m) s;
             if copied = None then Some (-1, free request (close_fd sockfd s))
             else do {
               let request = Some \<lparr>mt_msg = copied\<rparr>;
               (send_result, s) \<leftarrow> network_send_message pb sockfd request s;
               let s = message_destroy pb request s;
               if send_result < 0 then Some (-1, close_fd sockfd s)
               else Some (0, close_fd sockfd s)
             }
           }) = Some (r, s')"
  shows "kept s s' \<and> (r = -1 \<or> r = 0 \<and> (\<exists>k es. socks s sockfd = Some k \<and>
    closed s' = k\<lparr>s_out := es, s_sent := s_sent k @ wire_frame pb m\<rparr> # closed s))"
proof -
  have m: "message_ok m" "int (length (pack_message pb m)) \<le> INT_MAX"
    using assms(1) by (simp_all add: messages_ok_def)
  define s1 where "s1 = s\<lparr>live := live s + 2 + message_blocks (Some m)\<rparr>"
  obtain q s2 where send: "network_send_message pb sockfd (Some \<lparr>mt_msg = Some m\<rparr>) s1 = Some (q, s2)"
    and q: "r = (if q < 0 then -1 else 0)"
      "s' = close_fd sockfd (message_destroy pb (Some \<lparr>mt_msg = Some m\<rparr>) s2)"
    using assms(2,3) m(1) by (auto simp: alloc_simps bind_eq_Some_conv s1_def Let_def split: if_splits)
  have "outcomes s1 = []" using assms(2) by (simp add: s1_def)
  from message_kept [OF this m send]
  show ?thesis
    using q by (auto simp: s1_def message_destroy_def Message_destroy_def close_fd_def kept_def
        split: option.splits if_splits)
qed

lemma replicate_cases:
  assumes "replicate_to_backup_server pb zoo task s = Some (r, s')" "outcomes s = []"
    and "messages_ok pb [op_code_and_args task]" "zk_get_tree_server_role s \<noteq> BACKUP"
  shows "kept s s' \<and> (r = -1 \<or> r = 0 \<and> (socks s (-1) = None \<longrightarrow>
    (\<exists>k es. Connected k \<in> set (connects s) \<and>
      closed s' = k\<lparr>s_out := es, s_sent := s_sent k @ wire_frame pb (op_code_and_args task)\<rparr> # closed s)))"
proof -
  obtain b s1 where get: "zk_get_backup_tree_server zoo s = Some (b, s1)"
    using assms(1,4) by (auto simp: replicate_to_backup_server_def bind_eq_Some_conv)
  then have s1: "quiet s s1"
    unfolding zk_get_backup_tree_server_def using zk_get_server_quiet assms(2) by blast
  then have mem1: "outcomes s1 = []" using assms(2) by (simp add: quiet_def kept_def)
  show ?thesis
  proof (cases b)
    case None
    with assms(1,4) get s1 show ?thesis by (auto simp: replicate_to_backup_server_def quiet_def)
  next
    case (Some a)
    obtain pr iv pv s2 where parse: "parse_address_port (Some a) None None s1 = (pr, iv, pv, s2)"
      by (metis prod_cases4)
    have "quiet s s2" by (rule quiet_trans [OF s1 parse_address_port_quiet [OF parse mem1]])
    moreover define s3 where "s3 = free (Some a) s2"
    ultimately have s3: "quiet s s3" by simp
    show ?thesis
    proof (cases "pr < -1")
      case True
      with assms(1,4) get Some parse s3 show ?thesis
        by (auto simp: replicate_to_backup_server_def quiet_def Let_def s3_def)
    next
      case False
      then obtain ip port sockfd s4 where conn: "server_connect ip port s3 = Some (sockfd, s4)"
        and rest: "(if sockfd < -1 then Some (-1, free ip s4)
          else (case message_create (free ip s4) of (request, s) \<Rightarrow>
               if request = None then Some (-1, close_fd sockfd s)
               else do {
                 (copied, s) \<leftarrow> Message_dup (Some (op_code_and_args task)) s;
                 if copied = None then Some (-1, free request (close_fd sockfd s))
                 else do {
                   let request = Some \<lparr>mt_msg = copied\<rparr>;
                   (send_result, s) \<leftarrow> network_send_message pb sockfd request s;
                   let s = message_destroy pb request s;
                   if send_result < 0 then Some (-1, close_fd sockfd s)
                   else Some (0, close_fd sockfd s)
                 }
               })) = Some (r, s')"
        using assms(1,4) get Some parse
        by (auto simp: replicate_to_backup_server_def Let_def s3_def bind_eq_Some_conv)
      note c = server_connect_kept [OF conn]
      have fd: "\<not> sockfd < -1" using c by (cases "0 \<le> sockfd") auto
      have s4: "kept s (free ip s4)" "closed (free ip s4) = closed s4" "socks (free ip s4) = socks s4"
        using s3 c kept_trans by (auto simp: quiet_def free_def)
      then have mem4: "outcomes (free ip s4) = []" using assms(2) by (simp add: kept_def)
      have "kept (free ip s4) s' \<and> (r = -1 \<or> r = 0 \<and> (\<exists>k es. socks s4 sockfd = Some k \<and>
          closed s' = k\<lparr>s_out := es, s_sent := s_sent k @ wire_frame pb (op_code_and_args task)\<rparr> # closed s4))"
        using replicate_send [OF assms(3) mem4] rest fd s4(2,3) by simp
      moreover have "closed s4 = closed s \<and> (\<exists>k. Connected k \<in> set (connects s) \<and> socks s4 sockfd = Some k)"
        if "socks s (-1) = None" "socks s4 sockfd \<noteq> None"
        using c s3 that by (cases "0 \<le> sockfd") (auto simp: quiet_def)
      ultimately show ?thesis
        using kept_trans [OF s4(1)] by auto blast
    qed
  qed
qed

section \<open>Processing a task\<close>

text \<open>What a server that is not the backup has done for a request before its result is recorded: the
  whole frame of the request has gone out on a new connection, which is closed.\<close>

definition delivered ::
  "protobuf \<Rightarrow> message \<Rightarrow> ('s, 'z) skel_scheme \<Rightarrow> ('s, 'z) skel_scheme \<Rightarrow> bool" where
  "delivered pb m s s' \<longleftrightarrow> zk_get_tree_server_role s \<noteq> BACKUP \<longrightarrow> socks s (-1) = None \<longrightarrow>
    (\<exists>k es. Connected k \<in> set (connects s) \<and>
      closed s' = k\<lparr>s_out := es, s_sent := s_sent k @ wire_frame pb m\<rparr> # closed s)"

text \<open>The common end of \<^verbatim>\<open>process_tree_del\<close> and \<^verbatim>\<open>process_tree_put\<close>.\<close>

definition finish_task ::
  "protobuf \<Rightarrow> 's zoo \<Rightarrow> task_t \<Rightarrow> ('s, 'z) skel_scheme \<Rightarrow> (flow \<times> ('s, 'z) skel_scheme) option" where
  "finish_task pb zoo task s = do {
     (r, s) \<leftarrow> replicate_to_backup_server pb zoo task s;
     if r < 0 then Some (Exit 1, s)
     else do {
       (r, s) \<leftarrow> tasks_set_result pb (task_id task) SUCCESSFUL s;
       Some (Continue, s)
     }
   }"

lemma skel_inv_head:
  assumes "skel_inv pb ws n s" "tasks_processor s = Holding task"
  obtains ts where "tasks_queue s = task # ts" "n < length ws" "ws ! n = op_code_and_args task"
    "drop (Suc n) ws = map op_code_and_args ts" "messages_ok pb [op_code_and_args task]"
    "write_request (op_code_and_args task)"
proof -
  obtain ts where q: "tasks_queue s = task # ts"
    using assms by (auto simp: skel_inv_def)
  have d: "drop n ws = map op_code_and_args (task # ts)"
    using assms q by (auto simp: skel_inv_def tasks_log_def)
  then have n: "n < length ws" by (metis drop_all list.simps(3) list.simps(9) not_le_imp_less)
  then have "ws ! n # drop (Suc n) ws = op_code_and_args task # map op_code_and_args ts"
    using d by (simp add: Cons_nth_drop_Suc)
  moreover from n have "ws ! n \<in> set ws" by simp
  ultimately show ?thesis
    using that [OF q n] assms(1) by (auto simp: skel_inv_def messages_ok_def)
qed

lemma skel_inv_done:
  assumes "skel_inv pb ws n s" "tree s = Some t" "tasks_processor s = Holding task"
    and "task_write (op_code_and_args task) = Some w"
    and "tree_ok t'" "t_size t' \<le> int (Suc n)" "tree_map t' = apply_op w (tree_map t)"
    and "kept (s\<lparr>tree_lock := Locked, tree := Some t'\<rparr>) s1"
  shows "skel_inv pb ws (Suc n) ((set_head pb SUCCESSFUL s1)\<lparr>tree_lock := Unlocked, tasks_processor := Ready\<rparr>)"
proof -
  obtain ts where h: "tasks_queue s = task # ts" "n < length ws" "ws ! n = op_code_and_args task"
    "drop (Suc n) ws = map op_code_and_args ts"
    using skel_inv_head [OF assms(1,3)] by blast
  let ?s = "(set_head pb SUCCESSFUL s1)\<lparr>tree_lock := Unlocked, tasks_processor := Ready\<rparr>"
  have take: "take (Suc n) ws = take n ws @ [op_code_and_args task]"
    using h by (simp add: take_Suc_conv_app_nth)
  have same: "tasks_queue s1 = task # ts" "tasks_results_list s1 = tasks_results_list s"
    "last_task_id_assigned s1 = last_task_id_assigned s" "tree s1 = Some t'"
    using assms(8) h(1) by (simp_all add: kept_def)
  have "tasks_ok s1" using assms(1,8) by (auto simp: skel_inv_def tasks_ok_def kept_def)
  then have "tasks_ok (set_head pb SUCCESSFUL s1)" by (rule tasks_ok_set_head [OF _ same(1)]) simp
  then have "tasks_ok ?s" by (simp add: tasks_ok_def)
  moreover have "tasks_numbered ?s" "tasks_log ?s = (replicate (Suc n) SUCCESSFUL, drop (Suc n) ws)"
    using assms(1) h same
    by (auto simp: skel_inv_def tasks_numbered_def tasks_log_def set_head_def replicate_append_same)
  moreover have "tree_map t' = fold apply_op (map (the \<circ> task_write) (take (Suc n) ws)) Map.empty"
    using assms(1,2,4,7) by (simp add: skel_inv_def take)
  moreover have "\<forall>m \<in> set (take (Suc n) ws). task_write m \<noteq> None"
    using assms(1,4) by (auto simp: skel_inv_def take)
  ultimately show ?thesis
    using assms(1,5,6) h(2) same(4) unfolding skel_inv_def by (simp add: set_head_def)
qed

lemma finish_task_continue:
  assumes "skel_inv pb ws n s" "tree s = Some t" "tasks_processor s = Holding task"
    and "task_write (op_code_and_args task) = Some w"
    and "tree_ok t'" "t_size t' \<le> int (Suc n)" "tree_map t' = apply_op w (tree_map t)"
    and "finish_task pb zoo task (s\<lparr>tree_lock := Locked, tree := Some t', live := l\<rparr>) = Some (Continue, s')"
  shows "\<exists>s''. unlock_tree s' = Some s'' \<and> skel_inv pb ws (Suc n) (s''\<lparr>tasks_processor := Ready\<rparr>) \<and>
    delivered pb (op_code_and_args task) s s''"
proof -
  let ?s = "s\<lparr>tree_lock := Locked, tree := Some t', live := l\<rparr>"
  obtain ts where h: "tasks_queue s = task # ts" "messages_ok pb [op_code_and_args task]"
    using skel_inv_head [OF assms(1,3)] by blast
  have mem: "outcomes ?s = []" using assms(1) by (simp add: skel_inv_def tasks_ok_def)
  obtain r s1 where rep: "replicate_to_backup_server pb zoo task ?s = Some (r, s1)" "\<not> r < 0"
      and set: "\<exists>q. tasks_set_result pb (task_id task) SUCCESSFUL s1 = Some (q, s')"
    using assms(8) by (auto simp: finish_task_def bind_eq_Some_conv split: if_splits)
  have kept: "kept ?s s1 \<and> (zk_get_tree_server_role ?s \<noteq> BACKUP \<longrightarrow> socks ?s (-1) = None \<longrightarrow>
    (\<exists>k es. Connected k \<in> set (connects ?s) \<and>
      closed s1 = k\<lparr>s_out := es, s_sent := s_sent k @ wire_frame pb (op_code_and_args task)\<rparr> # closed ?s))"
  proof (cases "zk_get_tree_server_role ?s = BACKUP")
    case True
    with rep show ?thesis by (simp add: replicate_to_backup_server_def)
  next
    case False
    with replicate_cases [OF rep(1) mem h(2) False] rep(2) show ?thesis by auto
  qed
  have "kept (s\<lparr>tree_lock := Locked, tree := Some t'\<rparr>) s1"
    using kept by (simp add: kept_def)
  note next_inv = skel_inv_done [OF assms(1-7) this]
  have "tasks_ok s1" "tasks_queue s1 = tasks_queue s" "tree_lock s1 = Locked"
    using assms(1) kept by (auto simp: skel_inv_def tasks_ok_def kept_def)
  then have "s' = set_head pb SUCCESSFUL s1"
    using set tasks_set_result_eq [of s1 task] h by (metis TaskResult.distinct(1) option.inject prod.inject)
  then show ?thesis
    using next_inv kept \<open>tree_lock s1 = Locked\<close>
    by (auto simp: unlock_tree_def delivered_def zk_get_tree_server_role_def set_head_def)
qed

lemma skel_updates [simp]:
  "s\<lparr>tree := t, live := l\<rparr> = s\<lparr>live := l, tree := t\<rparr>"
  "tree s = t \<Longrightarrow> s\<lparr>tree := t\<rparr> = s" "tree s = t \<Longrightarrow> s\<lparr>live := l, tree := t\<rparr> = s\<lparr>live := l\<rparr>"
  for s :: "('s, 'z) skel_scheme"
  by auto

lemma process_tree_del_eq:
  "process_tree_del pb zoo task s = do {
     key \<leftarrow> m_key (op_code_and_args task);
     (r, t, s) \<leftarrow> tree_del (tree s) key s;
     if r < 0 then Some (Exit 1, s\<lparr>tree := t\<rparr>) else finish_task pb zoo task (s\<lparr>tree := t\<rparr>)
   }"
  by (simp add: process_tree_del_def finish_task_def Let_def cong: if_cong)

lemma process_tree_put_eq:
  "process_tree_put pb zoo task s = do {
     em \<leftarrow> m_entry (op_code_and_args task);
     (entry, s) \<leftarrow> msg_to_entry em s;
     case entry of
       None \<Rightarrow> Some (Exit 1, s)
     | Some e \<Rightarrow> do {
         (r, t, s) \<leftarrow> tree_put (tree s) (e_key e) (e_value e) s;
         if r < 0 then Some (Exit 1, s\<lparr>tree := t\<rparr>)
         else finish_task pb zoo task (entry_destroy entry (s\<lparr>tree := t\<rparr>))
       }
   }"
  by (simp add: process_tree_put_def finish_task_def Let_def cong: if_cong option.case_cong)

lemma process_del_cases:
  assumes "m_content (op_code_and_args task) = CKey (Some k)" "tree s = Some t" "tree_ok t"
  shows "process_tree_del pb zoo task s =
    (if tree_map t = Map.empty then Some (Exit 1, s)
     else finish_task pb zoo task (s\<lparr>tree := Some (tree_delete k t),
       live := live s + tree_blocks (Some (tree_delete k t)) - tree_blocks (Some t)\<rparr>))"
proof (cases "tree_map t = Map.empty")
  case True
  then have "tree_del (Some t) (Some k) s = Some (-1, Some t, s)"
    by (rule store.del_empty_law [OF assms(3)])
  with True assms show ?thesis by (simp add: process_tree_del_eq m_key_def)
next
  case False
  then have "t_root t \<noteq> NullNode" using tree_root_empty [OF assms(3)] by simp
  from tree_del_eq [OF assms(3) this, of k s] False assms(1,2) show ?thesis
    by (simp add: process_tree_del_eq m_key_def)
qed

lemma process_put_cases:
  assumes "m_content (op_code_and_args task) = CEntry (Some em)" "entry_message_ok em"
    and "tree s = Some t" "tree_ok t" "outcomes s = []" "t_size t < INT_MAX"
  shows "\<exists>l. process_tree_put pb zoo task s =
    (case task_write (op_code_and_args task) of
       Some (Put k d) \<Rightarrow> finish_task pb zoo task (s\<lparr>tree := Some (tree_insert k d t), live := l\<rparr>)
     | _ \<Rightarrow> Some (Exit 1, s\<lparr>live := l\<rparr>))"
proof -
  let ?e = "entry_of_msg em" and ?s = "\<lambda>l. s\<lparr>live := l\<rparr>"
  obtain l0 where entry: "msg_to_entry (Some em) s = Some (Some ?e, ?s l0)"
    using msg_to_entry_ok [OF assms(5,2)] by blast
  show ?thesis
  proof (cases "e_key ?e = None \<or> e_value ?e = None")
    case True
    then have "\<forall>k d. task_write (op_code_and_args task) \<noteq> Some (Put k d)"
      by (auto simp: task_write_def entry_of_msg_def assms(1) bind_eq_Some_conv split: option.splits)
    then show ?thesis
      using True entry assms(1,3) by (auto simp: process_tree_put_eq m_entry_def tree_put_def
        split: option.splits write_op.splits)
  next
    case False
    then obtain k m where e: "e_key ?e = Some k" "em_value em = Some m"
      by (auto simp: entry_of_msg_def)
    then have w: "task_write (op_code_and_args task) = Some (Put k (data_of_msg m))"
      by (auto simp: task_write_def entry_of_msg_def assms(1) split: option.splits)
    have d: "data_ok (data_of_msg m)" "data_copy (data_of_msg m) = data_of_msg m"
      using data_of_msg_ok assms(2) e(2) by (auto simp: entry_message_ok_def)
    have "outcomes (?s l0) = []" using assms(5) by simp
    from tree_put_eq [OF assms(4) d(1) this assms(6), of k] show ?thesis
      using e w d(2) entry assms(1,3)
      by (auto simp: process_tree_put_eq m_entry_def entry_of_msg_def)
  qed
qed

text \<open>The tree after a write.\<close>

definition tree_write :: "write_op \<Rightarrow> tree_t \<Rightarrow> tree_t" where
  "tree_write w t = (case w of Put k d \<Rightarrow> tree_insert k d t | Del k \<Rightarrow> tree_delete k t)"

lemma task_write_valid:
  assumes "message_ok m" "task_write m = Some (Put k d)"
  shows "data_ok d \<and> data_copy d = d"
  using message_content_cases [OF assms(1)] assms(2) data_of_msg_ok
  by cases (auto simp: task_write_def entry_message_ok_def bind_eq_Some_conv
        split: content.splits option.splits)

lemma tree_write_ok:
  assumes "message_ok m" "task_write m = Some w" "tree_ok t" "t_size t \<le> int n" "int n < INT_MAX"
  shows "tree_ok (tree_write w t)" "tree_map (tree_write w t) = apply_op w (tree_map t)"
    "t_size (tree_write w t) \<le> int (Suc n)"
proof -
  have d: "data_ok d \<and> data_copy d = d" if "w = Put k d" for k d
    using task_write_valid assms(1,2) that by blast
  show ok: "tree_ok (tree_write w t)"
    using d assms(3-5) by (auto simp: tree_write_def tree_ok_insert tree_ok_delete split: write_op.splits)
  show map: "tree_map (tree_write w t) = apply_op w (tree_map t)"
    using d assms(3) by (auto simp: tree_write_def tree_map_insert tree_map_delete split: write_op.splits)
  have "card (dom (tree_map (tree_write w t))) \<le> Suc (card (dom (tree_map t)))"
    unfolding map using assms(3) by (intro store.card_apply_op) (simp add: dom_tree_map)
  then show "t_size (tree_write w t) \<le> int (Suc n)"
    using assms(3,4) by (simp add: tree_size_card [OF ok] tree_size_card)
qed

text \<open>Under the mutex: the two kinds of write.\<close>

lemma process_task_eq:
  assumes "skel_inv pb ws n s" "tree s = Some t" "tasks_processor s = Holding task" "int (length ws) \<le> INT_MAX"
  shows "\<exists>l. process_task pb zoo task s =
    (let s = s\<lparr>tree_lock := Locked\<rparr> in
     do {
       (flow, s) \<leftarrow>
         (case task_write (op_code_and_args task) of
            None \<Rightarrow> Some (Exit 1, s\<lparr>live := l\<rparr>)
          | Some w \<Rightarrow>
              if tree_map t = Map.empty \<and> (\<exists>k. w = Del k) then Some (Exit 1, s)
              else finish_task pb zoo task (s\<lparr>live := l, tree := Some (tree_write w t)\<rparr>));
       if flow = Continue then do { s \<leftarrow> unlock_tree s; Some (Continue, s) } else Some (flow, s)
     })"
proof -
  let ?m = "op_code_and_args task" and ?s = "s\<lparr>tree_lock := Locked\<rparr>"
  have h: "messages_ok pb [?m]" "write_request ?m" "n < length ws"
    using skel_inv_head [OF assms(1,3)] by blast+
  have inv: "tree_ok t" "outcomes s = []" "tree_lock s = Unlocked" "t_size t \<le> int n"
    using assms(1,2) by (auto simp: skel_inv_def tasks_ok_def)
  have size: "t_size t < INT_MAX" using inv(4) h(3) assms(4) by simp
  have st: "tree ?s = Some t" "outcomes ?s = []" using assms(2) inv(2) by simp_all
  have lock: "lock_tree s = Some ?s" using inv(3) by (simp add: lock_tree_def)
  have ok: "message_ok ?m" using h(1) by (simp add: messages_ok_def)
  consider (del) k where "m_op_code ?m = OP_DEL" "m_content ?m = CKey (Some k)"
    | (put) em where "m_op_code ?m = OP_PUT" "m_content ?m = CEntry (Some em)" "entry_message_ok em"
    using ok h(2) by (cases rule: message_content_cases) (auto simp: write_request_def)
  then show ?thesis
  proof cases
    case del
    then have "task_write ?m = Some (Del k)" by (simp add: task_write_def)
    with process_del_cases [OF del(2) st(1) inv(1), of pb zoo] del lock show ?thesis
      by (intro exI [of _ "live s + tree_blocks (Some (tree_delete k t)) - tree_blocks (Some t)"])
         (simp add: process_task_def tree_write_def)
  next
    case put
    have not_del: "task_write ?m \<noteq> Some (Del k)" for k
      using put(2) by (auto simp: task_write_def bind_eq_Some_conv split: option.splits)
    obtain l where "process_tree_put pb zoo task ?s = (case task_write ?m of
       Some (Put k d) \<Rightarrow> finish_task pb zoo task (?s\<lparr>tree := Some (tree_insert k d t), live := l\<rparr>)
     | _ \<Rightarrow> Some (Exit 1, ?s\<lparr>live := l\<rparr>))"
      using process_put_cases [OF put(2,3) st(1) inv(1) st(2) size] by blast
    with put lock not_del show ?thesis
      by (intro exI [of _ l]) (simp add: process_task_def op_codes tree_write_def split: option.splits write_op.splits)
  qed
qed

lemma process_task_continue:
  assumes "skel_inv pb ws n s" "tasks_processor s = Holding task" "int (length ws) \<le> INT_MAX"
    and "process_task pb zoo task s = Some (Continue, s')"
  shows "skel_inv pb ws (Suc n) (s'\<lparr>tasks_processor := Ready\<rparr>) \<and>
    delivered pb (op_code_and_args task) s s'"
proof -
  let ?m = "op_code_and_args task"
  obtain t where t: "tree s = Some t" "tree_ok t" "t_size t \<le> int n"
    using assms(1) by (auto simp: skel_inv_def)
  have n: "n < length ws" using skel_inv_head [OF assms(1,2)] by blast
  with t(3) assms(3) have size: "t_size t < INT_MAX" by simp
  obtain l where eq: "process_task pb zoo task s =
    (let s = s\<lparr>tree_lock := Locked\<rparr> in
     do {
       (flow, s) \<leftarrow>
         (case task_write ?m of
            None \<Rightarrow> Some (Exit 1, s\<lparr>live := l\<rparr>)
          | Some w \<Rightarrow>
              if tree_map t = Map.empty \<and> (\<exists>k. w = Del k) then Some (Exit 1, s)
              else finish_task pb zoo task (s\<lparr>live := l, tree := Some (tree_write w t)\<rparr>));
       if flow = Continue then do { s \<leftarrow> unlock_tree s; Some (Continue, s) } else Some (flow, s)
     })"
    using process_task_eq [OF assms(1) t(1) assms(2,3), of zoo] by blast
  then obtain w s1 where w: "task_write ?m = Some w"
      "finish_task pb zoo task (s\<lparr>tree_lock := Locked, tree := Some (tree_write w t), live := l\<rparr>) =
        Some (Continue, s1)"
      "unlock_tree s1 = Some s'"
    using assms(4) unfolding eq Let_def
    by (auto simp: bind_eq_Some_conv split: option.splits if_splits)
  have "message_ok ?m" using skel_inv_head [OF assms(1,2)] by (metis list.set_intros(1) messages_ok_def)
  note t' = tree_write_ok [OF this w(1) t(2,3)]
  from finish_task_continue [OF assms(1) t(1) assms(2) w(1) t'(1) t'(3) t'(2) w(2)] w(3) n assms(3)
  show ?thesis by simp
qed

text \<open>A write that can be carried out is completed when its replication succeeds.\<close>

lemma process_task_completes:
  assumes "skel_inv pb ws n s" "tree s = Some t" "tasks_processor s = Holding task" "int (length ws) \<le> INT_MAX"
    and "task_write (op_code_and_args task) = Some w" "tree_map t = Map.empty \<Longrightarrow> \<nexists>k. w = Del k"
    and "\<And>l t'. \<exists>s'. replicate_to_backup_server pb zoo task (s\<lparr>tree_lock := Locked, live := l, tree := t'\<rparr>) =
      Some (0, s') \<and> server_role s' = server_role s"
  shows "\<exists>s'. process_task pb zoo task s = Some (Continue, s') \<and> server_role s' = server_role s"
proof -
  obtain ts where q: "tasks_queue s = task # ts" and m: "messages_ok pb [op_code_and_args task]"
    using skel_inv_head [OF assms(1,3)] by blast
  have ok: "tasks_ok s" using assms(1) by (simp add: skel_inv_def)
  obtain l where eq: "process_task pb zoo task s =
    (let s = s\<lparr>tree_lock := Locked\<rparr> in
     do {
       (flow, s) \<leftarrow>
         (case task_write (op_code_and_args task) of
            None \<Rightarrow> Some (Exit 1, s\<lparr>live := l\<rparr>)
          | Some w \<Rightarrow>
              if tree_map t = Map.empty \<and> (\<exists>k. w = Del k) then Some (Exit 1, s)
              else finish_task pb zoo task (s\<lparr>live := l, tree := Some (tree_write w t)\<rparr>));
       if flow = Continue then do { s \<leftarrow> unlock_tree s; Some (Continue, s) } else Some (flow, s)
     })"
    using process_task_eq [OF assms(1-4), of zoo] by blast
  let ?s = "s\<lparr>tree_lock := Locked, live := l, tree := Some (tree_write w t)\<rparr>"
  obtain s1 where s1: "replicate_to_backup_server pb zoo task ?s = Some (0, s1)" "server_role s1 = server_role s"
    using assms(7) by blast
  have "outcomes ?s = []" using ok by (simp add: tasks_ok_def)
  then have "kept ?s s1"
    using replicate_cases [OF s1(1) _ m] s1(1)
    by (cases "zk_get_tree_server_role ?s = BACKUP") (auto simp: replicate_to_backup_server_def)
  then have "tasks_ok s1" "tasks_queue s1 = task # ts" "tree_lock s1 = Locked"
    using ok q by (simp_all add: kept_def tasks_ok_def)
  then have "finish_task pb zoo task ?s = Some (Continue, set_head pb SUCCESSFUL s1)"
    "tree_lock (set_head pb SUCCESSFUL s1) = Locked"
    using s1(1) by (simp_all add: finish_task_def tasks_set_result_eq set_head_def)
  with eq assms(5,6) s1(2) show ?thesis
    by (auto simp: unlock_tree_eq set_head_def Let_def)
qed

text \<open>On the backup replication is nothing; on the primary it succeeds when a backup is registered and
  its connection accepts what is written.\<close>

lemma replicate_backup:
  "server_role s = BACKUP \<Longrightarrow> replicate_to_backup_server pb zoo task s = Some (0, s)"
  by (simp add: replicate_to_backup_server_def zk_get_tree_server_role_def)

lemma replicate_primary:
  assumes "zoo_ok zoo nodes" "outcomes s = []" "ip_ok ip" "0 < port" "port < 65536"
    and "nodes (service s) BACKUP_TREE_SERVER_ZNODE_PATH = Some (address_and_port ip port @ [CHR 0x00])"
    and "new_fds s = fd # fds" "0 \<le> fd" "connects s = Connected k # cs" "WriteErr \<notin> set (s_out k)"
    and "messages_ok pb [op_code_and_args task]" "server_role s \<noteq> BACKUP"
  shows "\<exists>s'. replicate_to_backup_server pb zoo task s = Some (0, s') \<and> server_role s' = server_role s"
proof -
  let ?m = "op_code_and_args task"
  have m: "message_ok ?m" "int (length (pack_message pb ?m)) \<le> INT_MAX"
    using assms(11) by (simp_all add: messages_ok_def)
  note found = backup_address_found [OF assms(1-6)]
  define s3 where "s3 = s\<lparr>live := 1 + live s, new_fds := fds, dialled := (inet_ntoa ip, port) # dialled s,
      connects := cs, socks := (socks s)(fd \<mapsto> k)\<rparr>"
  have "int port mod 65536 = int port" using assms(5) by simp
  then have conn: "server_connect (Some (inet_ntoa ip)) (int port) (s\<lparr>live := 1 + live s\<rparr>) = Some (fd, s3)"
    using assms(7-9) inet_pton_ntoa [OF assms(3)]
    by (simp add: server_connect_def socket_call_def connect_call_def Let_def s3_def)
  let ?s = "s3\<lparr>live := live s + 2 + message_blocks (Some ?m)\<rparr>"
  have "outcomes ?s = []" "socks ?s fd = Some k" using assms(2) by (simp_all add: s3_def)
  then obtain es where "network_send_message pb fd (Some \<lparr>mt_msg = Some ?m\<rparr>) ?s =
      Some (0, set_out fd es (wire_frame pb ?m) ?s)"
    using network_send_message_ok [OF _ m _ assms(10)] by blast
  then show ?thesis
    using found conn assms(2,8,12) m(1)
    by (simp add: replicate_to_backup_server_def zk_get_tree_server_role_def Let_def alloc_simps s3_def
        close_fd_def message_destroy_def Message_destroy_def set_out_def)
qed

lemma process_task_killed:
  assumes "skel_inv pb ws n s" "tree s = Some t" "tasks_processor s = Holding task" "int (length ws) \<le> INT_MAX"
    and "task_write (op_code_and_args task) = None \<or>
      (tree_map t = Map.empty \<and> (\<exists>k. task_write (op_code_and_args task) = Some (Del k)))"
  shows "\<exists>s'. process_task pb zoo task s = Some (Exit 1, s')"
  using process_task_eq [OF assms(1-4), of zoo] assms(5) by (auto simp: Let_def)

text \<open>A server that is not the backup and finds no backup ends the process instead of recording a
  result.\<close>

lemma replicate_no_backup:
  assumes "zoo_ok zoo nodes" "server_role s \<noteq> BACKUP"
    and "nodes (service s) BACKUP_TREE_SERVER_ZNODE_PATH = None"
  shows "replicate_to_backup_server pb zoo task s = Some (-1, s)"
  using assms zk_get_server_none [OF assms(1,3)]
  by (simp add: replicate_to_backup_server_def zk_get_tree_server_role_def zk_get_backup_tree_server_def)

lemma process_task_no_backup:
  assumes "skel_inv pb ws n s" "tree s = Some t" "tasks_processor s = Holding task" "int (length ws) \<le> INT_MAX"
    and "zoo_ok zoo nodes" "server_role s \<noteq> BACKUP"
    and "nodes (service s) BACKUP_TREE_SERVER_ZNODE_PATH = None"
  shows "\<exists>s'. process_task pb zoo task s = Some (Exit 1, s')"
proof -
  have "finish_task pb zoo task (s\<lparr>tree_lock := Locked, live := l, tree := t'\<rparr>) =
      Some (Exit 1, s\<lparr>tree_lock := Locked, live := l, tree := t'\<rparr>)" for l t'
    using replicate_no_backup [OF assms(5), of "s\<lparr>tree_lock := Locked, live := l, tree := t'\<rparr>" pb task] assms(6,7)
    by (simp add: finish_task_def)
  with process_task_eq [OF assms(1-4), of zoo] show ?thesis
    by (auto simp: Let_def split: option.splits)
qed

section \<open>A step of the thread\<close>

lemma tasks_processor_frame [simp]:
  "tasks_ok (s\<lparr>tasks_processor := p\<rparr>) = tasks_ok s"
  "tasks_numbered (s\<lparr>tasks_processor := p\<rparr>) = tasks_numbered s"
  "tasks_log (s\<lparr>tasks_processor := p\<rparr>) = tasks_log s"
  by (simp_all add: tasks_ok_def tasks_numbered_def tasks_log_def)

lemma process_tasks_other:
  assumes "skel_inv pb ws n s" "\<nexists>task. tasks_processor s = Holding task"
  shows "\<exists>p. process_tasks pb zoo s = Some (Continue, s\<lparr>tasks_processor := p\<rparr>) \<and>
    skel_inv pb ws n (s\<lparr>tasks_processor := p\<rparr>)"
proof -
  obtain t where t: "tree s = Some t" "tasks_ok s" using assms(1) by (auto simp: skel_inv_def)
  have keep: "skel_inv pb ws n (s\<lparr>tasks_processor := p\<rparr>)"
    if "case p of Holding task \<Rightarrow> \<exists>ts. tasks_queue s = task # ts | Ended \<Rightarrow> False | _ \<Rightarrow> True" for p
    using assms(1) that by (cases p) (simp_all add: skel_inv_def)
  have same: "s\<lparr>tasks_processor := p\<rparr> = s" if "tasks_processor s = p" for p
    using that by auto
  show ?thesis
  proof (cases "tasks_processor s")
    case NotStarted
    then show ?thesis using t keep [of Ready] by (auto simp: process_tasks_def)
  next
    case Ready
    show ?thesis
    proof (cases "tasks_queue s")
      case Nil
      then have "process_tasks pb zoo s = Some (Continue, s\<lparr>tasks_processor := Ready\<rparr>)"
        using Ready t tasks_get_next_eq [OF t(2)] same [OF Ready] by (simp add: process_tasks_def)
      then show ?thesis using keep [of Ready] by auto
    next
      case (Cons task ts)
      then have "process_tasks pb zoo s = Some (Continue, s\<lparr>tasks_processor := Holding task\<rparr>)"
        using Ready t tasks_get_next_eq [OF t(2)] by (simp add: process_tasks_def)
      then show ?thesis using keep [of "Holding task"] Cons by auto
    qed
  next
    case Ended
    then show ?thesis using assms(1) by (simp add: skel_inv_def)
  qed (use assms(2) in auto)
qed

lemma process_tasks_holding:
  assumes "skel_inv pb ws n s" "tasks_processor s = Holding task" "int (length ws) \<le> INT_MAX"
    and "process_tasks pb zoo s = Some (Continue, s')"
  shows "skel_inv pb ws (Suc n) s' \<and> delivered pb (op_code_and_args task) s s'"
proof -
  obtain s1 where "process_task pb zoo task s = Some (Continue, s1)" "s' = s1\<lparr>tasks_processor := Ready\<rparr>"
    using assms(2,4) by (auto simp: process_tasks_def bind_eq_Some_conv)
  with process_task_continue [OF assms(1-3)] show ?thesis by (auto simp: delivered_def)
qed

end
