(* ===== verification/KV_Steps.thy ===== *)
theory KV_Steps
  imports KV_Replication
begin

text \<open>
  The server of \<^verbatim>\<open>source/server/tree_skel.c\<close> as a transition system: requests answered by the main
  thread, steps of the task-processing thread, the end of the process, and changes of the network
  and of the server's role from outside interleave in any order. The history of the labels says
  which writes were asked for and which are done; every state is what that history makes it.
\<close>

section \<open>Histories\<close>

inductive run :: "('e \<Rightarrow> 'c \<Rightarrow> 'c \<Rightarrow> bool) \<Rightarrow> 'c \<Rightarrow> 'e list \<Rightarrow> 'c \<Rightarrow> bool" for step where
  run_Nil: "run step c [] c"
| run_snoc: "run step c es c' \<Longrightarrow> step e c' c'' \<Longrightarrow> run step c (es @ [e]) c''"

text \<open>An invariant may speak of the history as well as of the state.\<close>

locale history_invariant =
  fixes step :: "'e \<Rightarrow> 'c \<Rightarrow> 'c \<Rightarrow> bool"
    and inv :: "'e list \<Rightarrow> 'c \<Rightarrow> bool"
  assumes inv_step: "inv es c \<Longrightarrow> step e c c' \<Longrightarrow> inv (es @ [e]) c'"
begin

lemma inv_run: "run step c es c' \<Longrightarrow> inv [] c \<Longrightarrow> inv es c'"
  by (induction rule: run.induct) (auto intro: inv_step)

end

lemma run_append:
  assumes "run step c (es @ es') c''"
  shows "\<exists>c'. run step c es c' \<and> run step c' es' c''"
  using assms
proof (induction es' arbitrary: c'' rule: rev_induct)
  case Nil
  then show ?case by (auto intro: run_Nil)
next
  case (snoc e es')
  have "run step c ((es @ es') @ [e]) c''" using snoc.prems by simp
  then obtain d where "run step c (es @ es') d" "step e d c''"
    by (cases rule: run.cases) auto
  with snoc.IH show ?case by (meson run_snoc)
qed

lemma run_single: "run step c [e] c' \<longleftrightarrow> step e c c'"
proof
  show "step e c c'" if "run step c [e] c'"
    using that by (cases rule: run.cases) (auto elim: run.cases)
  show "run step c [e] c'" if "step e c c'"
    using run_snoc [OF run_Nil [of step c], of e c'] that by simp
qed

section \<open>The steps of the server\<close>

datatype event =
    Serve message message  \<comment> \<open>a request and its answer\<close>
  | Fetch                  \<comment> \<open>the thread looks for a task\<close>
  | Done message           \<comment> \<open>the thread completes a task\<close>
  | Killed int             \<comment> \<open>the thread ends the process with this status\<close>
  | Outside                \<comment> \<open>network, coordination service, role\<close>

inductive server_step ::
  "protobuf \<Rightarrow> 's zoo \<Rightarrow> event \<Rightarrow> ('s, 'z) skel_scheme option \<Rightarrow> ('s, 'z) skel_scheme option \<Rightarrow> bool"
  for pb :: protobuf and zoo :: "'s zoo" where
  serve: "messages_ok pb [request] \<Longrightarrow>
    invoke pb (Some \<lparr>mt_msg = Some request\<rparr>) s = Some (r, Some \<lparr>mt_msg = Some response\<rparr>, s') \<Longrightarrow>
    server_step pb zoo (Serve request response) (Some s) (Some s')"
| fetch: "\<nexists>task. tasks_processor s = Holding task \<Longrightarrow>
    process_tasks pb zoo s = Some (Continue, s') \<Longrightarrow>
    server_step pb zoo Fetch (Some s) (Some s')"
| completed: "tasks_processor s = Holding task \<Longrightarrow>
    process_tasks pb zoo s = Some (Continue, s') \<Longrightarrow>
    server_step pb zoo (Done (op_code_and_args task)) (Some s) (Some s')"
| killed: "process_tasks pb zoo s = Some (Exit status, s') \<Longrightarrow>
    server_step pb zoo (Killed status) (Some s) None"
| outside: "kept s s' \<Longrightarrow> server_step pb zoo Outside (Some s) (Some s')"

inductive_cases serve_elim: "server_step pb zoo (Serve request response) c c'"
inductive_simps server_step_None: "server_step pb zoo e None c'"

fun writes :: "event list \<Rightarrow> message list" where
  "writes [] = []"
| "writes (Serve request response # es) =
    (if write_request request then request # writes es else writes es)"
| "writes (_ # es) = writes es"

fun dones :: "event list \<Rightarrow> message list" where
  "dones [] = []"
| "dones (Done m # es) = m # dones es"
| "dones (_ # es) = dones es"

text \<open>The map that a list of write requests builds.\<close>

definition written :: "message list \<Rightarrow> string \<Rightarrow> data_t option" where
  "written ms = fold apply_op (map (the \<circ> task_write) ms) Map.empty"

lemma writes_append [simp]: "writes (es @ es') = writes es @ writes es'"
  by (induction es rule: writes.induct) auto

lemma dones_append [simp]: "dones (es @ es') = dones es @ dones es'"
  by (induction es rule: dones.induct) auto

lemma length_writes: "length (writes es) \<le> length es"
  by (induction es rule: writes.induct) auto

definition log_inv :: "protobuf \<Rightarrow> event list \<Rightarrow> ('s, 'z) skel_scheme option \<Rightarrow> bool" where
  "log_inv pb es c \<longleftrightarrow> int (length es) < INT_MAX \<longrightarrow>
    (case c of
       None \<Rightarrow> True
     | Some s \<Rightarrow> skel_inv pb (writes es) (length (dones es)) s \<and>
         dones es = take (length (dones es)) (writes es))"

lemma log_inv_step:
  assumes "log_inv pb es c" "server_step pb zoo e c c'"
  shows "log_inv pb (es @ [e]) c'"
  unfolding log_inv_def
proof
  assume len: "int (length (es @ [e])) < INT_MAX"
  show "case c' of None \<Rightarrow> True
    | Some s \<Rightarrow> skel_inv pb (writes (es @ [e])) (length (dones (es @ [e]))) s \<and>
        dones (es @ [e]) = take (length (dones (es @ [e]))) (writes (es @ [e]))"
    using assms(2)
  proof cases
    case (serve request s r response s')
    have inv: "skel_inv pb (writes es) (length (dones es)) s"
      and d: "dones es = take (length (dones es)) (writes es)"
      using assms(1) len serve(2) by (auto simp: log_inv_def)
    obtain t where t: "tree s = Some t" using inv by (auto simp: skel_inv_def)
    have small: "int (length (writes es)) < INT_MAX" using length_writes [of es] len by simp
    have "length (dones es) \<le> length (writes es)" using inv by (simp add: skel_inv_def)
    with invoke_step [OF inv t serve(4) small] serve d show ?thesis by auto
  next
    case (fetch s s')
    with assms(1) len process_tasks_other [of pb "writes es" "length (dones es)" s zoo]
    show ?thesis by (auto simp: log_inv_def)
  next
    case (completed s task s')
    have inv: "skel_inv pb (writes es) (length (dones es)) s"
      and d: "dones es = take (length (dones es)) (writes es)"
      using assms(1) len completed(2) by (auto simp: log_inv_def)
    have small: "int (length (writes es)) \<le> INT_MAX" using length_writes [of es] len by simp
    obtain "length (dones es) < length (writes es)"
      "writes es ! length (dones es) = op_code_and_args task"
      using skel_inv_head [OF inv completed(4)] by blast
    then have "take (Suc (length (dones es))) (writes es) = dones es @ [op_code_and_args task]"
      using d by (simp add: take_Suc_conv_app_nth)
    with process_tasks_holding [OF inv completed(4) small completed(5)] completed show ?thesis by simp
  next
    case (outside s s')
    with assms(1) len kept_inv [of s s'] show ?thesis by (auto simp: log_inv_def)
  qed auto
qed

interpretation server: history_invariant "server_step pb zoo" "log_inv pb" for pb zoo
  by unfold_locales (rule log_inv_step)

section \<open>The start\<close>

lemma tree_skel_init_inv:
  assumes "tree_skel_init (0, 0, 0, 0) 0 0 s = (r, s1)" "outcomes s = []"
  shows "skel_inv pb [] 0 s1 \<and> r = 0 \<and> server_role s1 = server_role s"
proof -
  have s1: "s1 = s\<lparr>live := live s + 1, tree := Some (tree_of NullNode), last_task_id_assigned := -1,
      destroyed := False, tasks_queue := [], tasks_queue_lock := Unlocked, tasks_results_list := [],
      tasks_results_list_lock := Unlocked, tasks_processor := NotStarted, tree_lock := Unlocked\<rparr>"
    and r: "r = 0"
    using assms by (auto simp: tree_skel_init_def tree_create_def tasks_init_def alloc_simps Let_def tree_of_def
        SIZE_OF_TREE_T_def)
  have "tree_ok (tree_of NullNode)" "tree_map (tree_of NullNode) = Map.empty" "t_size (tree_of NullNode) = 0"
    using tree_ok_empty by (auto simp: tree_map_def)
  then show ?thesis
    using r assms(2) by (simp add: s1 skel_inv_def tasks_ok_def tasks_numbered_def tasks_log_def
        messages_ok_def INT_MAX_def)
qed

text \<open>Everything that is reachable from the start.\<close>

lemma reachable_log:
  assumes "tree_skel_init (0, 0, 0, 0) 0 0 s0 = (r, s1)" "outcomes s0 = []"
    and "run (server_step pb zoo) (Some s1) es (Some s)" "int (length es) < INT_MAX"
  shows "skel_inv pb (writes es) (length (dones es)) s"
    and "dones es = take (length (dones es)) (writes es)"
proof -
  have "log_inv pb [] (Some s1)"
    using tree_skel_init_inv [OF assms(1,2)] by (simp add: log_inv_def)
  from server.inv_run [OF assms(3) this] assms(4)
  show "skel_inv pb (writes es) (length (dones es)) s"
    and "dones es = take (length (dones es)) (writes es)"
    by (simp_all add: log_inv_def)
qed

lemma reachable_tree:
  assumes "tree_skel_init (0, 0, 0, 0) 0 0 s0 = (r, s1)" "outcomes s0 = []"
    and "run (server_step pb zoo) (Some s1) es (Some s)" "int (length es) < INT_MAX"
  obtains t where "tree s = Some t" "tree_ok t" "tree_map t = written (dones es)"
    "dones es = take (length (dones es)) (writes es)"
  using reachable_log [OF assms] that by (metis skel_inv_def written_def)

section \<open>The thread on its own\<close>

fun thread_run ::
  "protobuf \<Rightarrow> 's zoo \<Rightarrow> nat \<Rightarrow> ('s, 'z) skel_scheme \<Rightarrow> (flow \<times> ('s, 'z) skel_scheme) option" where
  "thread_run pb zoo 0 s = Some (Continue, s)"
| "thread_run pb zoo (Suc k) s = do {
     (flow, s) \<leftarrow> process_tasks pb zoo s;
     if flow = Continue then thread_run pb zoo k s else Some (flow, s)
   }"

text \<open>Write requests that can be carried out one after the other: each names a pair or a key, and no
  deletion meets an empty map.\<close>

fun feasible :: "(string \<Rightarrow> data_t option) \<Rightarrow> message list \<Rightarrow> bool" where
  "feasible m [] \<longleftrightarrow> True"
| "feasible m (x # xs) \<longleftrightarrow>
    (case task_write x of
       None \<Rightarrow> False
     | Some w \<Rightarrow> (case w of Put k d \<Rightarrow> True | Del k \<Rightarrow> m \<noteq> Map.empty) \<and> feasible (apply_op w m) xs)"

definition thread_work :: "nat \<Rightarrow> processor \<Rightarrow> nat" where
  "thread_work len p = 2 * len + (case p of NotStarted \<Rightarrow> 1 | _ \<Rightarrow> 0) - (case p of Holding _ \<Rightarrow> 1 | _ \<Rightarrow> 0)"

lemma process_tasks_next:
  assumes "skel_inv pb ws n s" "\<nexists>task. tasks_processor s = Holding task"
  shows "process_tasks pb zoo s = Some (Continue, s\<lparr>tasks_processor :=
    (if tasks_processor s = NotStarted then Ready
     else case tasks_queue s of [] \<Rightarrow> Ready | task # ts \<Rightarrow> Holding task)\<rparr>)"
proof -
  have ok: "tasks_ok s" "tree s \<noteq> None" "tasks_processor s \<noteq> Ended"
    using assms(1) by (auto simp: skel_inv_def)
  note next_task = tasks_get_next_eq [OF ok(1)]
  show ?thesis
  proof (cases "tasks_processor s")
    case NotStarted
    with ok(2) show ?thesis by (simp add: process_tasks_def)
  next
    case Ready
    then have "s\<lparr>tasks_processor := Ready\<rparr> = s" by simp
    with Ready next_task show ?thesis by (cases "tasks_queue s") (simp_all add: process_tasks_def)
  qed (use ok assms(2) in simp_all)
qed

lemma thread_drains:
  assumes "skel_inv pb ws n s" "server_role s = BACKUP" "int (length ws) \<le> INT_MAX"
    and "feasible (written (take n ws)) (drop n ws)"
    and "thread_work (length ws - n) (tasks_processor s) \<le> k"
  shows "\<exists>s'. thread_run pb zoo k s = Some (Continue, s') \<and> skel_inv pb ws (length ws) s' \<and>
    server_role s' = BACKUP"
  using assms
proof (induction k arbitrary: n s)
  case 0
  have "n \<le> length ws" using "0.prems"(1) by (simp add: skel_inv_def)
  moreover have "\<not> n < length ws"
    using "0.prems"(5) by (auto simp: thread_work_def split: processor.splits)
  ultimately show ?case using "0.prems" by simp
next
  case (Suc k)
  show ?case
  proof (cases "\<exists>task. tasks_processor s = Holding task")
    case True
    then obtain task where p: "tasks_processor s = Holding task" by blast
    note h = skel_inv_head [OF Suc.prems(1) p]
    obtain t where t: "tree s = Some t" "tree_map t = written (take n ws)"
      using Suc.prems(1) by (auto simp: skel_inv_def written_def)
    have n: "n < length ws" and m: "ws ! n = op_code_and_args task" using h by blast+
    then have d: "drop n ws = op_code_and_args task # drop (Suc n) ws"
      by (metis Cons_nth_drop_Suc)
    then obtain w where w: "task_write (op_code_and_args task) = Some w"
        "case w of Put k d \<Rightarrow> True | Del k \<Rightarrow> tree_map t \<noteq> Map.empty"
        "feasible (apply_op w (tree_map t)) (drop (Suc n) ws)"
      using Suc.prems(4) unfolding t(2) by (auto split: option.splits)
    have "written (take (Suc n) ws) = apply_op w (tree_map t)"
      using n m w(1) t(2) by (simp add: written_def take_Suc_conv_app_nth)
    then have rest: "feasible (written (take (Suc n) ws)) (drop (Suc n) ws)" using w(3) by simp
    obtain s1 where s1: "process_task pb zoo task s = Some (Continue, s1)" "server_role s1 = BACKUP"
      using process_task_completes [OF Suc.prems(1) t(1) p Suc.prems(3) w(1), of zoo] w(2) Suc.prems(2)
      by (cases w) (auto simp: replicate_backup)
    let ?s = "s1\<lparr>tasks_processor := Ready\<rparr>"
    have step: "process_tasks pb zoo s = Some (Continue, ?s)"
      using p s1(1) by (simp add: process_tasks_def)
    have inv: "skel_inv pb ws (Suc n) ?s"
      using process_tasks_holding [OF Suc.prems(1) p Suc.prems(3) step] by blast
    have "thread_work (length ws - Suc n) (tasks_processor ?s) \<le> k"
      using Suc.prems(5) n p by (simp add: thread_work_def)
    from Suc.IH [OF inv _ Suc.prems(3) rest this] step s1(2) show ?thesis by simp
  next
    case False
    define p where "p = (if tasks_processor s = NotStarted then Ready
       else case tasks_queue s of [] \<Rightarrow> Ready | task # ts \<Rightarrow> Holding task)"
    have step: "process_tasks pb zoo s = Some (Continue, s\<lparr>tasks_processor := p\<rparr>)"
      unfolding p_def by (rule process_tasks_next [OF Suc.prems(1) False])
    obtain q where q: "process_tasks pb zoo s = Some (Continue, s\<lparr>tasks_processor := q\<rparr>)"
        "skel_inv pb ws n (s\<lparr>tasks_processor := q\<rparr>)"
      using process_tasks_other [OF Suc.prems(1) False] by blast
    have inv: "skel_inv pb ws n (s\<lparr>tasks_processor := p\<rparr>)" using q step by simp
    have len: "length (tasks_queue s) = length ws - n"
      using Suc.prems(1) by (auto simp: skel_inv_def tasks_log_def dest: arg_cong [of _ _ length])
    have "thread_work (length ws - n) p \<le> k"
      using Suc.prems(1,5) len False
      by (auto simp: thread_work_def p_def skel_inv_def split: processor.splits list.splits)
    then have "thread_work (length ws - n) (tasks_processor (s\<lparr>tasks_processor := p\<rparr>)) \<le> k" by simp
    from Suc.IH [OF inv _ Suc.prems(3,4) this] step Suc.prems(2) show ?thesis by simp
  qed
qed

lemma reachable_answer:
  assumes "tree_skel_init (0, 0, 0, 0) 0 0 s0 = (r, s1)" "outcomes s0 = []"
    and "run (server_step pb zoo) (Some s1) es (Some s)" "int (length es) < INT_MAX"
    and "server_step pb zoo (Serve request response) (Some s) c"
  shows "\<exists>t. tree s = Some t \<and> tree_ok t \<and> tree_map t = written (dones es) \<and>
    response = answer request t (length (dones es)) (length (writes es))"
proof -
  obtain t where t: "tree s = Some t" "tree_ok t" "tree_map t = written (dones es)"
    using reachable_tree [OF assms(1-4)] by blast
  have small: "int (length (writes es)) < INT_MAX" using length_writes [of es] assms(4) by simp
  from assms(5) obtain q s' where "messages_ok pb [request]"
    "invoke pb (Some \<lparr>mt_msg = Some request\<rparr>) s = Some (q, Some \<lparr>mt_msg = Some response\<rparr>, s')"
    by (auto elim: serve_elim)
  with invoke_step [OF reachable_log(1) [OF assms(1-4)] t(1) _ small] t show ?thesis by fastforce
qed

section \<open>An example\<close>

definition ex_write :: message where
  "ex_write = ex_message\<lparr>m_op_code := OP_PUT\<rparr>"

definition ex_reply :: message where
  "ex_reply = \<lparr>m_op_code = OP_PUT + 1, m_content = COpId 0\<rparr>"

definition ex_get :: message where
  "ex_get = \<lparr>m_op_code = OP_GET, m_content = CKey (Some ''k'')\<rparr>"

definition ex_verify :: message where
  "ex_verify = \<lparr>m_op_code = OP_VERIFY, m_content = COpId 0\<rparr>"

definition ex_del :: message where
  "ex_del = \<lparr>m_op_code = OP_DEL, m_content = CKey (Some ''k'')\<rparr>"

lemmas ex_requests = ex_write_def ex_message_def ex_reply_def ex_get_def ex_verify_def ex_del_def

lemma ex_requests_ok:
  "messages_ok wire_protobuf [ex_write]" "messages_ok wire_protobuf [ex_get]"
  "messages_ok wire_protobuf [ex_verify]" "messages_ok wire_protobuf [ex_del]"
  by (simp_all add: ex_requests messages_ok_def message_ok_def entry_message_ok_def data_message_ok_def
      nul_free_def wire_protobuf_def wire_pack_message_def wire_pack_entry_def
      wire_pack_data_def nullable_fields_def data_fields_def enc_fields_def varint_short
      string_bytes_def INT_MAX_def int_range op_codes enum_varint_def zigzag_def)

definition ex_skel :: "(string \<Rightarrow> string option) skel" where
  "ex_skel = tasks.extend ex_tasks
    \<lparr>tree = None, tree_lock = Unusable, tasks_processor = NotStarted\<rparr>"

lemma ex_skel_mem [simp]: "outcomes ex_skel = []"
  by (simp add: ex_skel_def tasks.defs ex_tasks_def zk.defs ex_zk_def net.defs ex_net_def heap.defs ex_heap_def)

text \<open>The server right after its initialization.\<close>

definition ex_up :: "(string \<Rightarrow> string option) skel" where
  "ex_up = snd (tree_skel_init (0, 0, 0, 0) 0 0 ex_skel)"

lemma ex_up: "tree_skel_init (0, 0, 0, 0) 0 0 ex_skel = (0, ex_up)"
  using tree_skel_init_inv [of ex_skel] by (metis ex_skel_mem ex_up_def prod.collapse)

lemma ex_up_sel: "skel_inv wire_protobuf [] 0 ex_up" "tasks_processor ex_up = NotStarted"
  "tree ex_up = Some (tree_of NullNode)"
  using tree_skel_init_inv [OF ex_up ex_skel_mem]
  by (simp_all add: ex_up_def tree_skel_init_def tree_create_def tasks_init_def alloc_simps Let_def
      SIZE_OF_TREE_T_def tree_of_def)

lemma reachable_serve:
  assumes "tree_skel_init (0, 0, 0, 0) 0 0 s0 = (r, s1)" "outcomes s0 = []"
    and "run (server_step pb zoo) (Some s1) es (Some s)" "int (length es) < INT_MAX"
    and "messages_ok pb [request]" "tree s = Some t"
  shows "\<exists>s'. server_step pb zoo
    (Serve request (answer request t (length (dones es)) (length (writes es)))) (Some s) (Some s')"
proof -
  have "int (length (writes es)) < INT_MAX" using length_writes [of es] assms(4) by simp
  from invoke_step [OF reachable_log(1) [OF assms(1-4)] assms(6,5) this] show ?thesis
    using serve assms(5) by blast
qed

text \<open>One write is asked for, the outside does something, and the thread takes the task.\<close>

lemma ex_hold:
  assumes "messages_ok wire_protobuf [m]" "write_request m"
    and "\<And>s. kept s (f s) \<and> tasks_processor (f s) = tasks_processor s"
  shows "\<exists>s task.
    run (server_step wire_protobuf zoo) (Some ex_up) [Serve m (answer m (tree_of NullNode) 0 0), Outside] (Some (f s)) \<and>
    run (server_step wire_protobuf zoo) (Some ex_up)
       [Serve m (answer m (tree_of NullNode) 0 0), Outside, Fetch, Fetch]
       (Some ((f s)\<lparr>tasks_processor := Holding task\<rparr>)) \<and>
    op_code_and_args task = m \<and> tasks_queue (f s) = [task] \<and>
    skel_inv wire_protobuf [m] 0 ((f s)\<lparr>tasks_processor := Holding task\<rparr>)"
proof -
  let ?run = "run (server_step wire_protobuf zoo) (Some ex_up)"
  let ?S = "Serve m (answer m (tree_of NullNode) 0 0)"
  obtain s2 where s2: "invoke wire_protobuf (Some \<lparr>mt_msg = Some m\<rparr>) ex_up =
      Some (0, Some \<lparr>mt_msg = Some (answer m (tree_of NullNode) 0 0)\<rparr>, s2)"
      "skel_inv wire_protobuf [m] 0 s2" "tasks_processor s2 = NotStarted"
    using invoke_step [OF ex_up_sel(1,3) assms(1)] ex_up_sel(2) assms(2) by (auto simp: INT_MAX_def)
  have same: "kept s2 (f s2)" using assms(3) by blast
  have s3: "skel_inv wire_protobuf [m] 0 (f s2)" "tasks_processor (f s2) = NotStarted"
    using s2(2,3) kept_inv [OF same] assms(3) by simp_all
  obtain task where q: "tasks_queue (f s2) = [task]" "op_code_and_args task = m"
    using s3(1) by (auto simp: skel_inv_def tasks_log_def)
  define s4 where "s4 = (f s2)\<lparr>tasks_processor := Ready\<rparr>"
  define s5 where "s5 = (f s2)\<lparr>tasks_processor := Holding task\<rparr>"
  have step4: "process_tasks wire_protobuf zoo (f s2) = Some (Continue, s4)"
    using process_tasks_next [OF s3(1), of zoo] s3(2) by (simp add: s4_def)
  have s4: "skel_inv wire_protobuf [m] 0 s4"
    using process_tasks_other [OF s3(1), of zoo] step4 s3(2) by auto
  have step5: "process_tasks wire_protobuf zoo s4 = Some (Continue, s5)"
    using process_tasks_next [OF s4, of zoo] q by (simp add: s4_def s5_def)
  have s5: "skel_inv wire_protobuf [m] 0 s5"
    using process_tasks_other [OF s4, of zoo] step5 by (auto simp: s4_def)
  have "?run ([] @ [?S]) (Some s2)"
    by (rule run_snoc [OF run_Nil]) (rule serve [OF assms(1) s2(1)])
  then have r3: "?run (([] @ [?S]) @ [Outside]) (Some (f s2))"
    by (rule run_snoc) (rule outside [OF same])
  then have "?run ((([] @ [?S]) @ [Outside]) @ [Fetch]) (Some s4)"
    by (rule run_snoc) (rule fetch [OF _ step4], simp add: s3(2))
  then have "?run (((([] @ [?S]) @ [Outside]) @ [Fetch]) @ [Fetch]) (Some s5)"
    by (rule run_snoc) (rule fetch [OF _ step5], simp add: s4_def)
  with r3 q s5 show ?thesis by (intro exI [of _ s2] exI [of _ task]) (simp add: s5_def)
qed

text \<open>A server in the role of the backup carries the write out.\<close>

definition ex_events :: "event list" where
  "ex_events = [Serve ex_write ex_reply, Outside, Fetch, Fetch, Done ex_write]"

lemma ex_write_sel: "write_request ex_write" "answer ex_write (tree_of NullNode) 0 0 = ex_reply"
  "task_write ex_write = Some (Put ''k'' \<lparr>d_size = 2, d_data = Some [7, 0]\<rparr>)"
  "written [ex_write] ''k'' = Some \<lparr>d_size = 2, d_data = Some [7, 0]\<rparr>"
  by (simp_all add: answer_def ex_requests op_codes write_request_def task_write_def data_of_msg_def
      written_def data_copy_def)

lemma ex_run: "\<exists>s. run (server_step wire_protobuf zoo) (Some ex_up) ex_events (Some s)"
proof -
  obtain s task where s: "run (server_step wire_protobuf zoo) (Some ex_up)
       [Serve ex_write ex_reply, Outside, Fetch, Fetch]
       (Some (s\<lparr>server_role := BACKUP, tasks_processor := Holding task\<rparr>))"
    "op_code_and_args task = ex_write"
    "skel_inv wire_protobuf [ex_write] 0 (s\<lparr>server_role := BACKUP, tasks_processor := Holding task\<rparr>)"
    using ex_hold [OF ex_requests_ok(1) ex_write_sel(1), of "\<lambda>s. s\<lparr>server_role := BACKUP\<rparr>" zoo]
    unfolding ex_write_sel(2) by (auto simp: kept_def simp del: tasks_processor_frame)
  let ?s = "s\<lparr>server_role := BACKUP, tasks_processor := Holding task\<rparr>"
  obtain t where "tree ?s = Some t" using s(3) by (auto simp: skel_inv_def)
  then obtain s6 where "process_task wire_protobuf zoo task ?s = Some (Continue, s6)"
    using process_task_completes [OF s(3), of t task _ zoo] s(2) ex_write_sel(3)
    by (auto simp: INT_MAX_def replicate_backup)
  then have "process_tasks wire_protobuf zoo ?s = Some (Continue, s6\<lparr>tasks_processor := Ready\<rparr>)"
    by (simp add: process_tasks_def)
  from completed [OF _ this, of task] have
    "server_step wire_protobuf zoo (Done ex_write) (Some ?s) (Some (s6\<lparr>tasks_processor := Ready\<rparr>))"
    by (simp add: s(2))
  from run_snoc [OF s(1) this] show ?thesis by (auto simp: ex_events_def)
qed

lemma ex_events_log: "writes ex_events = [ex_write]" "dones ex_events = [ex_write]"
  "int (length ex_events) < INT_MAX"
  by (simp_all add: ex_events_def ex_requests write_request_def op_codes INT_MAX_def)

section \<open>Properties\<close>

text \<open>C4: in every state the server can reach, however requests, the processing thread and the outside
  interleave, the writes that are done are the first of the writes that were asked for, in their
  order, and the tree is well formed and holds exactly the map that those writes build.\<close>

theorem server_state_is_log:
  assumes "tree_skel_init (0, 0, 0, 0) 0 0 s0 = (r, s1)" "outcomes s0 = []"
    and "run (server_step pb zoo) (Some s1) es (Some s)" "int (length es) < INT_MAX"
  shows "\<exists>t. tree s = Some t \<and> tree_ok t \<and> tree_map t = written (dones es) \<and>
    dones es = take (length (dones es)) (writes es)"
  using reachable_tree [OF assms] by blast

theorem server_state_is_log_witness:
  "\<exists>s t. run (server_step wire_protobuf table_zoo) (Some ex_up) ex_events (Some s) \<and>
    tree s = Some t \<and> tree_ok t \<and> tree_map t = written [ex_write] \<and>
    written [ex_write] ''k'' = Some \<lparr>d_size = 2, d_data = Some [7, 0]\<rparr>"
proof -
  obtain s where s: "run (server_step wire_protobuf table_zoo) (Some ex_up) ex_events (Some s)"
    using ex_run by blast
  with server_state_is_log [OF ex_up ex_skel_mem s ex_events_log(3)] ex_events_log ex_write_sel(4)
  show ?thesis by auto
qed

text \<open>C5: every answer is computed from the current log: a query from the tree that the done writes
  build, a write is answered with its position among all writes, a verification says whether the
  write at that position is done, and anything else is answered with an error.\<close>

theorem server_answers:
  assumes "tree_skel_init (0, 0, 0, 0) 0 0 s0 = (r, s1)" "outcomes s0 = []"
    and "run (server_step pb zoo) (Some s1) es (Some s)" "int (length es) < INT_MAX"
    and "server_step pb zoo (Serve request response) (Some s) c"
  shows "\<exists>t. tree s = Some t \<and> tree_ok t \<and> tree_map t = written (dones es) \<and>
    response = answer request t (length (dones es)) (length (writes es))"
  using assms by (rule reachable_answer)

theorem server_answers_witness:
  "\<exists>s response c. run (server_step wire_protobuf table_zoo) (Some ex_up) ex_events (Some s) \<and>
    server_step wire_protobuf table_zoo (Serve ex_get response) (Some s) c \<and>
    m_content response = CValue (Some \<lparr>dm_len = 2, dm_data = Some [7, 0]\<rparr>)"
proof -
  obtain s where s: "run (server_step wire_protobuf table_zoo) (Some ex_up) ex_events (Some s)"
    using ex_run by blast
  note reach = ex_up ex_skel_mem s ex_events_log(3)
  obtain t where "tree s = Some t" using reachable_tree [OF reach] by blast
  then obtain response c where c:
      "server_step wire_protobuf table_zoo (Serve ex_get response) (Some s) (Some c)"
    using reachable_serve [OF reach ex_requests_ok(2)] by blast
  have "m_content response = CValue (Some \<lparr>dm_len = 2, dm_data = Some [7, 0]\<rparr>)"
    using server_answers [OF reach c] ex_events_log ex_write_sel(4)
    by (auto simp: answer_def ex_get_def op_codes write_request_def msg_of_data_def data_copy_def)
  with s c show ?thesis by blast
qed

text \<open>C12: once a verification has said that the write numbered \<^verbatim>\<open>i\<close> is done, every later read of a key
  returns what a longer prefix of the writes says of it, one that includes that write: a client that
  waits for its write sees it.\<close>

theorem verified_write_is_read:
  assumes "tree_skel_init (0, 0, 0, 0) 0 0 s0 = (r, s1)" "outcomes s0 = []"
    and "run (server_step pb zoo) (Some s1) (es @ Serve v answer_v # es') (Some s)"
    and "int (length (es @ Serve v answer_v # es')) < INT_MAX"
    and "m_op_code v = OP_VERIFY" "m_content v = COpId i" "m_content answer_v = CIntResult 1"
    and "server_step pb zoo (Serve g answer_g) (Some s) c"
    and "m_op_code g = OP_GET" "m_content g = CKey (Some k)"
  shows "\<exists>n. nat i < n \<and> n \<le> length (writes (es @ Serve v answer_v # es')) \<and>
    m_content answer_g = CValue (Some (msg_of_data
      (case written (take n (writes (es @ Serve v answer_v # es'))) k of
         None \<Rightarrow> \<lparr>d_size = 0, d_data = None\<rparr> | Some d \<Rightarrow> d)))"
proof -
  let ?es = "es @ Serve v answer_v # es'"
  have "run (server_step pb zoo) (Some s1) ((es @ [Serve v answer_v]) @ es') (Some s)"
    using assms(3) by simp
  from run_append [OF this] obtain c1
    where "run (server_step pb zoo) (Some s1) (es @ [Serve v answer_v]) c1" by blast
  from run_append [OF this] obtain c0 where c0: "run (server_step pb zoo) (Some s1) es c0"
      "server_step pb zoo (Serve v answer_v) c0 c1"
    by (auto simp: run_single)
  then obtain s2 where s2: "c0 = Some s2" by (auto elim: serve_elim)
  have len: "int (length es) < INT_MAX" using assms(4) by simp
  have "m_content (answer v t (length (dones es)) (length (writes es))) =
      CIntResult (if 0 \<le> i \<and> nat i < length (dones es) then 1 else 0)" for t
    using assms(5,6) by (simp add: answer_def write_request_def op_codes)
  then have "nat i < length (dones es)"
    using reachable_answer [OF assms(1,2) c0(1) [unfolded s2] len c0(2) [unfolded s2]] assms(7)
    by (auto split: if_splits)
  then have "nat i < length (dones ?es)" by simp
  moreover obtain t where t: "tree_map t = written (dones ?es)"
      "answer_g = answer g t (length (dones ?es)) (length (writes ?es))"
    using reachable_answer [OF assms(1-4,8)] by blast
  moreover have "m_content (answer g t n m) = CValue (Some (msg_of_data
      (case tree_map t k of None \<Rightarrow> \<lparr>d_size = 0, d_data = None\<rparr> | Some d \<Rightarrow> d)))" for n m
    using assms(9,10) by (simp add: answer_def write_request_def op_codes)
  moreover have "dones ?es = take (length (dones ?es)) (writes ?es)" "length (dones ?es) \<le> length (writes ?es)"
    using reachable_log [OF assms(1-4)] by (simp_all only: skel_inv_def)
  ultimately show ?thesis by metis
qed

theorem verified_write_is_read_witness:
  "\<exists>answer_v answer_g s c. run (server_step wire_protobuf table_zoo) (Some ex_up)
      (ex_events @ Serve ex_verify answer_v # []) (Some s) \<and>
    server_step wire_protobuf table_zoo (Serve ex_get answer_g) (Some s) c \<and>
    (\<exists>n. nat 0 < n \<and> n \<le> length (writes (ex_events @ Serve ex_verify answer_v # [])) \<and>
      m_content answer_g = CValue (Some (msg_of_data
        (case written (take n (writes (ex_events @ Serve ex_verify answer_v # []))) ''k'' of
           None \<Rightarrow> \<lparr>d_size = 0, d_data = None\<rparr> | Some d \<Rightarrow> d))))"
proof -
  obtain s where s: "run (server_step wire_protobuf table_zoo) (Some ex_up) ex_events (Some s)"
    using ex_run by blast
  note reach = ex_up ex_skel_mem s ex_events_log(3)
  obtain t where "tree s = Some t" using reachable_tree [OF reach] by blast
  then obtain s2 where s2: "server_step wire_protobuf table_zoo
      (Serve ex_verify (answer ex_verify t 1 1)) (Some s) (Some s2)"
    using reachable_serve [OF reach ex_requests_ok(3)] ex_events_log by auto
  let ?a = "answer ex_verify t 1 1" and ?es = "ex_events @ Serve ex_verify (answer ex_verify t 1 1) # []"
  have run2: "run (server_step wire_protobuf table_zoo) (Some ex_up) ?es (Some s2)"
    by (rule run_snoc [OF s s2])
  have len: "int (length ?es) < INT_MAX" by (simp add: ex_events_def INT_MAX_def)
  note reach2 = ex_up ex_skel_mem run2 len
  obtain t2 where "tree s2 = Some t2" using reachable_tree [OF reach2] by blast
  then obtain b c where c: "server_step wire_protobuf table_zoo (Serve ex_get b) (Some s2) (Some c)"
    using reachable_serve [OF reach2 ex_requests_ok(2)] by blast
  have "m_content ?a = CIntResult 1" by (simp add: answer_def ex_verify_def write_request_def op_codes)
  moreover have "m_op_code ex_verify = OP_VERIFY" "m_content ex_verify = COpId 0"
    "m_op_code ex_get = OP_GET" "m_content ex_get = CKey (Some ''k'')"
    by (simp_all add: ex_verify_def ex_get_def)
  ultimately show ?thesis
    using verified_write_is_read [OF reach2 _ _ _ c, of 0 "''k''"] run2 c by blast
qed

text \<open>C13: a server in the role of the backup carries out every queued write without any help: from any
  reachable state in which the pending writes can be carried out one after the other, that many steps
  of the processing thread (two per write, one to start) complete them all, none ends the process,
  and the tree is then the map of all writes asked for.\<close>

theorem backup_drains_queue:
  assumes "tree_skel_init (0, 0, 0, 0) 0 0 s0 = (r, s1)" "outcomes s0 = []"
    and "run (server_step pb zoo) (Some s1) es (Some s)" "int (length es) < INT_MAX"
    and "server_role s = BACKUP"
    and "feasible (written (dones es)) (drop (length (dones es)) (writes es))"
  shows "\<exists>s' t. thread_run pb zoo (2 * length (tasks_queue s) + 1) s = Some (Continue, s') \<and>
    tasks_queue s' = [] \<and> tree s' = Some t \<and> tree_map t = written (writes es)"
proof -
  let ?n = "length (dones es)"
  note log = reachable_log [OF assms(1-4)]
  have len: "length (tasks_queue s) = length (writes es) - ?n"
    using log(1) by (auto simp: skel_inv_def tasks_log_def dest: arg_cong [of _ _ length])
  have "int (length (writes es)) \<le> INT_MAX" using length_writes [of es] assms(4) by simp
  moreover have "feasible (written (take ?n (writes es))) (drop ?n (writes es))"
    using assms(6) log(2) by metis
  moreover have "thread_work (length (writes es) - ?n) (tasks_processor s) \<le> 2 * length (tasks_queue s) + 1"
    using len by (auto simp: thread_work_def split: processor.splits)
  ultimately obtain s' where s': "thread_run pb zoo (2 * length (tasks_queue s) + 1) s = Some (Continue, s')"
      "skel_inv pb (writes es) (length (writes es)) s'"
    using thread_drains [OF log(1) assms(5)] by blast
  then show ?thesis by (auto simp: skel_inv_def written_def tasks_log_def)
qed

theorem backup_drains_queue_witness:
  "\<exists>s s' t. run (server_step wire_protobuf table_zoo) (Some ex_up) [Serve ex_write ex_reply, Outside] (Some s) \<and>
    thread_run wire_protobuf table_zoo (2 * length (tasks_queue s) + 1) s = Some (Continue, s') \<and>
    tasks_queue s' = [] \<and> tree s' = Some t \<and> tree_map t = written [ex_write] \<and>
    length (tasks_queue s) = 1"
proof -
  obtain s task where s: "run (server_step wire_protobuf table_zoo) (Some ex_up)
        [Serve ex_write ex_reply, Outside] (Some (s\<lparr>server_role := BACKUP\<rparr>))"
      "tasks_queue (s\<lparr>server_role := BACKUP\<rparr>) = [task]"
    using ex_hold [OF ex_requests_ok(1) ex_write_sel(1), of "\<lambda>s. s\<lparr>server_role := BACKUP\<rparr>" table_zoo]
    unfolding ex_write_sel(2) by (auto simp: kept_def simp del: tasks_processor_frame)
  let ?es = "[Serve ex_write ex_reply, Outside]"
  have log: "writes ?es = [ex_write]" "dones ?es = []" "int (length ?es) < INT_MAX"
    using ex_write_sel(1) by (simp_all add: INT_MAX_def)
  have "feasible (written (dones ?es)) (drop (length (dones ?es)) (writes ?es))"
    using log ex_write_sel(3) by simp
  from backup_drains_queue [OF ex_up ex_skel_mem s(1) log(3) _ this] obtain s' t where
    "thread_run wire_protobuf table_zoo (2 * length (tasks_queue (s\<lparr>server_role := BACKUP\<rparr>)) + 1)
      (s\<lparr>server_role := BACKUP\<rparr>) = Some (Continue, s')"
    "tasks_queue s' = []" "tree s' = Some t" "tree_map t = written [ex_write]"
    unfolding log(1) by auto
  then show ?thesis
    using s by (intro exI [of _ "s\<lparr>server_role := BACKUP\<rparr>"] exI [of _ s'] exI [of _ t]) simp
qed



text \<open>C36: a deletion that meets an empty tree ends the whole server process: the client's request was
  accepted and numbered, and nothing is answered any more.\<close>

theorem delete_from_empty_kills_server:
  assumes "tree_skel_init (0, 0, 0, 0) 0 0 s0 = (r, s1)" "outcomes s0 = []"
    and "run (server_step pb zoo) (Some s1) es (Some s)" "int (length es) < INT_MAX"
    and "tasks_processor s = Holding task" "m_content (op_code_and_args task) = CKey (Some k)"
    and "written (dones es) = Map.empty"
  shows "server_step pb zoo (Killed 1) (Some s) None"
proof -
  obtain t where t: "tree s = Some t" "tree_map t = written (dones es)"
    using reachable_tree [OF assms(1-4)] by blast
  have small: "int (length (writes es)) \<le> INT_MAX" using length_writes [of es] assms(4) by simp
  have "task_write (op_code_and_args task) = Some (Del k)"
    using assms(6) by (simp add: task_write_def)
  then obtain s' where "process_task pb zoo task s = Some (Exit 1, s')"
    using process_task_killed [OF reachable_log(1) [OF assms(1-4)] t(1) assms(5) small, of zoo] t(2) assms(7)
    by auto
  then have "process_tasks pb zoo s = Some (Exit 1, s'\<lparr>tasks_processor := Ready\<rparr>)"
    using assms(5) by (simp add: process_tasks_def)
  then show ?thesis by (rule killed)
qed

theorem delete_from_empty_kills_server_witness:
  "\<exists>s. run (server_step wire_protobuf table_zoo) (Some ex_up)
      [Serve ex_del (answer ex_del (tree_of NullNode) 0 0), Outside, Fetch, Fetch] (Some s) \<and>
    server_step wire_protobuf table_zoo (Killed 1) (Some s) None"
proof -
  have "write_request ex_del" by (simp add: write_request_def ex_del_def)
  then obtain s task where s: "run (server_step wire_protobuf table_zoo) (Some ex_up)
        [Serve ex_del (answer ex_del (tree_of NullNode) 0 0), Outside, Fetch, Fetch]
        (Some (s\<lparr>tasks_processor := Holding task\<rparr>))" "op_code_and_args task = ex_del"
    using ex_hold [OF ex_requests_ok(4) _, of "\<lambda>s. s" table_zoo]
    by (auto simp: kept_def simp del: tasks_processor_frame)
  have "server_step wire_protobuf table_zoo (Killed 1) (Some (s\<lparr>tasks_processor := Holding task\<rparr>)) None"
    by (rule delete_from_empty_kills_server [OF ex_up ex_skel_mem s(1), where k = "''k''" and task = task])
       (simp add: INT_MAX_def, simp, simp add: s(2) ex_del_def, simp add: written_def)
  with s(1) show ?thesis by blast
qed

text \<open>A server that is not the backup and finds no registered backup never records a result: the next
  write it takes ends the process, whatever the write.\<close>

theorem primary_needs_backup:
  assumes "tree_skel_init (0, 0, 0, 0) 0 0 s0 = (r, s1)" "outcomes s0 = []"
    and "run (server_step pb zoo) (Some s1) es (Some s)" "int (length es) < INT_MAX"
    and "tasks_processor s = Holding task" "server_role s \<noteq> BACKUP"
    and "zoo_ok zoo nodes" "nodes (service s) BACKUP_TREE_SERVER_ZNODE_PATH = None"
  shows "\<exists>s'. process_tasks pb zoo s = Some (Exit 1, s')"
proof -
  obtain t where t: "tree s = Some t" using reachable_tree [OF assms(1-4)] by blast
  have small: "int (length (writes es)) \<le> INT_MAX" using length_writes [of es] assms(4) by simp
  from process_task_no_backup [OF reachable_log(1) [OF assms(1-4)] t assms(5) small assms(7,6,8)]
  show ?thesis using assms(5) by (auto simp: process_tasks_def)
qed

theorem primary_needs_backup_witness:
  "\<exists>s s'. run (server_step wire_protobuf table_zoo) (Some ex_up)
      [Serve ex_write ex_reply, Outside, Fetch, Fetch] (Some s) \<and> server_role s = PRIMARY \<and>
    process_tasks wire_protobuf table_zoo s = Some (Exit 1, s')"
proof -
  let ?f = "\<lambda>s. s\<lparr>server_role := PRIMARY, service := Map.empty\<rparr>"
  obtain s task where s: "run (server_step wire_protobuf table_zoo) (Some ex_up)
        [Serve ex_write ex_reply, Outside, Fetch, Fetch] (Some ((?f s)\<lparr>tasks_processor := Holding task\<rparr>))"
    using ex_hold [OF ex_requests_ok(1) ex_write_sel(1), of ?f table_zoo]
    unfolding ex_write_sel(2) by (auto simp: kept_def simp del: tasks_processor_frame)
  have "\<exists>s'. process_tasks wire_protobuf table_zoo ((?f s)\<lparr>tasks_processor := Holding task\<rparr>) = Some (Exit 1, s')"
    by (rule primary_needs_backup [OF ex_up ex_skel_mem s _ _ _ zoo_ok_table, where task = task])
       (simp add: INT_MAX_def, simp, simp, simp)
  with s show ?thesis by fastforce
qed

text \<open>C29: the server answers: in every reachable state each well-formed request gets a response, without
  undefined behaviour and without waiting, and the server is still up.\<close>

theorem every_request_answered:
  assumes "tree_skel_init (0, 0, 0, 0) 0 0 s0 = (r, s1)" "outcomes s0 = []"
    and "run (server_step pb zoo) (Some s1) es (Some s)" "int (length es) < INT_MAX"
    and "messages_ok pb [request]"
  shows "\<exists>response s'. server_step pb zoo (Serve request response) (Some s) (Some s')"
  using reachable_tree [OF assms(1-4)] reachable_serve [OF assms(1-5)] by metis

theorem every_request_answered_witness:
  "\<exists>s response s'. run (server_step wire_protobuf table_zoo) (Some ex_up) ex_events (Some s) \<and>
    server_step wire_protobuf table_zoo (Serve ex_del response) (Some s) (Some s')"
  using ex_run [of table_zoo]
    every_request_answered [OF ex_up ex_skel_mem _ ex_events_log(3) ex_requests_ok(4)] by blast

end
