(* ===== verification/KV_NetServer.thy ===== *)
theory KV_NetServer
  imports KV_Steps
begin

text \<open>
  \<^verbatim>\<open>source/server/network_server.c\<close>: the listening socket, the array of polled sockets and the loop
  that accepts clients and answers their requests. The array is a list, read and written by index
  with its bounds checked; what \<^verbatim>\<open>poll\<close> and \<^verbatim>\<open>accept\<close> return is a script. The properties say that the
  handlers stay inside the array and keep at most five clients, that moving the closed sockets to
  the end keeps every open one in order, and that whatever the loop does is a run of the server's
  transition system.
\<close>

unbundle bit_operations_syntax

section \<open>Definitions\<close>

record pollfd =
  p_fd :: int
  p_events :: "16 word"
  p_revents :: "16 word"

definition POLLIN :: "16 word" where "POLLIN = 1"

definition MAX_CLIENT_SOCKETS :: int where "MAX_CLIENT_SOCKETS = 5"

record 's netserver = "'s skel" +
  accepts :: "(int \<times> socket) list"   \<comment> \<open>connections that the coming calls of \<^verbatim>\<open>accept\<close> return; -1 after these\<close>

text \<open>\<^verbatim>\<open>network_server_init\<close>, given what \<^verbatim>\<open>gethostbyname\<close> knows and the results of \<^verbatim>\<open>bind\<close>, \<^verbatim>\<open>listen\<close> and
  the \<^verbatim>\<open>pthread\<close> calls. The parameter is a \<^verbatim>\<open>short\<close>; \<^verbatim>\<open>getsockname\<close> then knows the address that was
  bound.\<close>

definition network_server_init ::
  "(int \<times> ipv4) option \<Rightarrow> int \<Rightarrow> int \<Rightarrow> (int \<times> int \<times> int \<times> int) \<times> int \<times> int \<Rightarrow> int
    \<Rightarrow> ('s, 'z) skel_scheme \<Rightarrow> (int \<times> ('s, 'z) skel_scheme) option" where
  "network_server_init host bind_rc listen_rc pthread_rcs port s =
    (case socket_call s of (listening_socket, s) \<Rightarrow>
      if listening_socket < 0 then Some (-1, s)
      else do {
        ip_address \<leftarrow> get_host host;
        case ip_address of
          None \<Rightarrow> Some (-1, close_fd listening_socket s)
        | Some ip \<Rightarrow>
            if bind_rc < 0 then Some (-1, close_fd listening_socket s)
            else (let s = s\<lparr>sock_names := (sock_names s)(listening_socket \<mapsto> (ip, nat (port mod 2 ^ 16)))\<rparr> in
              if listen_rc < 0 then Some (-1, close_fd listening_socket s)
              else (case tree_skel_init (fst pthread_rcs) (fst (snd pthread_rcs)) (snd (snd pthread_rcs)) s of
                (r, s) \<Rightarrow> if r < 0 then Some (-1, close_fd listening_socket s) else Some (listening_socket, s)))
      })"

definition network_receive ::
  "protobuf \<Rightarrow> int \<Rightarrow> 'z net_scheme \<Rightarrow> (message_t option \<times> 'z net_scheme) option" where
  "network_receive pb client_socket = network_receive_message pb client_socket"

definition network_send ::
  "protobuf \<Rightarrow> int \<Rightarrow> message_t option \<Rightarrow> 'z net_scheme \<Rightarrow> (int \<times> 'z net_scheme) option" where
  "network_send pb client_socket msg = network_send_message pb client_socket msg"

text \<open>Reading and writing an element of the array.\<close>

definition slot :: "pollfd list \<Rightarrow> int \<Rightarrow> pollfd option" where
  "slot sockets i = (if 0 \<le> i \<and> nat i < length sockets then Some (sockets ! nat i) else None)"

definition set_slot :: "int \<Rightarrow> pollfd \<Rightarrow> pollfd list \<Rightarrow> pollfd list option" where
  "set_slot i p sockets =
    (if 0 \<le> i \<and> nat i < length sockets then Some (sockets[nat i := p]) else None)"

function close_client_sockets_loop ::
  "int \<Rightarrow> pollfd list \<Rightarrow> 'z net_scheme \<Rightarrow> 'z net_scheme option" where
  "close_client_sockets_loop i sockets s =
    (if i \<le> MAX_CLIENT_SOCKETS then do {
       p \<leftarrow> slot sockets i;
       close_client_sockets_loop (i + 1) sockets (if p_fd p \<noteq> -1 then close_fd (p_fd p) s else s)
     }
     else Some s)"
  by pat_completeness auto
termination
  by (relation "measure (\<lambda>(i, _, _). nat (MAX_CLIENT_SOCKETS + 1 - i))") (auto simp: MAX_CLIENT_SOCKETS_def)

definition close_all_client_sockets :: "pollfd list \<Rightarrow> 'z net_scheme \<Rightarrow> 'z net_scheme option" where
  "close_all_client_sockets sockets s = close_client_sockets_loop 1 sockets s"

definition accept_call :: "('s, 'z) netserver_scheme \<Rightarrow> int \<times> ('s, 'z) netserver_scheme" where
  "accept_call s =
    (case accepts s of
       [] \<Rightarrow> (-1, s)
     | (fd, k) # rest \<Rightarrow>
         (fd, s\<lparr>accepts := rest, socks := (if 0 \<le> fd then (socks s)(fd \<mapsto> k) else socks s)\<rparr>))"

definition handle_listening_socket_events ::
  "pollfd list \<Rightarrow> int \<Rightarrow> ('s, 'z) netserver_scheme
    \<Rightarrow> (pollfd list \<times> int \<times> ('s, 'z) netserver_scheme) option" where
  "handle_listening_socket_events sockets client_sockets_count s = do {
     listening_socket \<leftarrow> slot sockets 0;
     if p_revents listening_socket AND POLLIN \<noteq> 0 \<and> client_sockets_count < MAX_CLIENT_SOCKETS
     then (let i = client_sockets_count + 1 in
       case accept_call s of (fd, s) \<Rightarrow> do {
         p \<leftarrow> slot sockets i;
         sockets \<leftarrow> set_slot i (p\<lparr>p_fd := fd\<rparr>) sockets;
         if fd > 0 then do {
           sockets \<leftarrow> set_slot i \<lparr>p_fd = fd, p_events = POLLIN, p_revents = 0\<rparr> sockets;
           Some (sockets, client_sockets_count + 1, s)
         }
         else Some (sockets, client_sockets_count, s)
       })
     else Some (sockets, client_sockets_count, s)
   }"

definition handle_client_socket_pollin_event ::
  "protobuf \<Rightarrow> int \<Rightarrow> ('s, 'z) skel_scheme \<Rightarrow> (int \<times> ('s, 'z) skel_scheme) option" where
  "handle_client_socket_pollin_event pb client_socket s = do {
     (message, s) \<leftarrow> network_receive pb client_socket s;
     if message = None then Some (-1, s)
     else do {
       (r, message, s) \<leftarrow> invoke pb message s;
       if r < 0 then Some (-1, message_destroy pb message s)
       else do {
         (send_result, s) \<leftarrow> network_send pb client_socket message s;
         let s = message_destroy pb message s;
         Some (if send_result < 0 then -1 else 0, s)
       }
     }
   }"

function handle_clients_loop ::
  "protobuf \<Rightarrow> int \<Rightarrow> int \<Rightarrow> pollfd list \<Rightarrow> bool \<Rightarrow> ('s, 'z) skel_scheme
    \<Rightarrow> (pollfd list \<times> bool \<times> ('s, 'z) skel_scheme) option" where
  "handle_clients_loop pb i client_sockets_count sockets some_fds_closed s =
    (if i \<le> client_sockets_count then do {
       p \<leftarrow> slot sockets i;
       (sockets, some_fds_closed, s) \<leftarrow>
         (if p_fd p \<ge> 0 \<and> p_revents p AND POLLIN \<noteq> 0 then do {
            (handler_result, s) \<leftarrow> handle_client_socket_pollin_event pb (p_fd p) s;
            if handler_result < 0 then do {
              sockets \<leftarrow> set_slot i (p\<lparr>p_fd := -1\<rparr>) sockets;
              Some (sockets, True, close_fd (p_fd p) s)
            }
            else Some (sockets, some_fds_closed, s)
          }
          else Some (sockets, some_fds_closed, s));
       handle_clients_loop pb (i + 1) client_sockets_count sockets some_fds_closed s
     }
     else Some (sockets, some_fds_closed, s))"
  by pat_completeness auto
termination
  by (relation "measure (\<lambda>(_, i, n, _). nat (n + 1 - i))") auto

declare close_client_sockets_loop.simps [simp del]
declare handle_clients_loop.simps [simp del]

text \<open>The last open socket; the maximum when there is none.\<close>

fun find_last_connected :: "nat \<Rightarrow> pollfd list \<Rightarrow> int option" where
  "find_last_connected 0 sockets = Some MAX_CLIENT_SOCKETS"
| "find_last_connected (Suc i) sockets = do {
     p \<leftarrow> slot sockets (int (Suc i));
     if p_fd p \<noteq> -1 then Some (int (Suc i)) else find_last_connected i sockets
   }"

text \<open>\<^verbatim>\<open>for (j = i + 1; j <= last; ++j) sockets[j - 1] = sockets[j]\<close>\<close>

function shift_loop :: "int \<Rightarrow> int \<Rightarrow> pollfd list \<Rightarrow> pollfd list option" where
  "shift_loop j index_of_last sockets =
    (if j \<le> index_of_last then do {
       p \<leftarrow> slot sockets j;
       sockets \<leftarrow> set_slot (j - 1) p sockets;
       shift_loop (j + 1) index_of_last sockets
     }
     else Some sockets)"
  by pat_completeness auto
termination
  by (relation "measure (\<lambda>(j, n, _). nat (n + 1 - j))") auto

declare shift_loop.simps [simp del]

fun compact_loop :: "nat \<Rightarrow> int \<Rightarrow> pollfd list \<Rightarrow> (int \<times> pollfd list) option" where
  "compact_loop 0 index_of_last sockets = Some (index_of_last, sockets)"
| "compact_loop (Suc i) index_of_last sockets = do {
     p \<leftarrow> slot sockets (int (Suc i));
     if p_fd p = -1 then do {
       sockets \<leftarrow> shift_loop (int (Suc i) + 1) index_of_last sockets;
       sockets \<leftarrow> set_slot index_of_last p sockets;
       compact_loop i (index_of_last - 1) sockets
     }
     else compact_loop i index_of_last sockets
   }"

definition compact_sockets :: "pollfd list \<Rightarrow> (int \<times> pollfd list) option" where
  "compact_sockets sockets = do {
     index_of_last_connected \<leftarrow> find_last_connected (nat MAX_CLIENT_SOCKETS) sockets;
     compact_loop (nat (index_of_last_connected - 1)) index_of_last_connected sockets
   }"

definition handle_client_sockets_events ::
  "protobuf \<Rightarrow> pollfd list \<Rightarrow> int \<Rightarrow> ('s, 'z) skel_scheme
    \<Rightarrow> (pollfd list \<times> int \<times> ('s, 'z) skel_scheme) option" where
  "handle_client_sockets_events pb sockets client_sockets_count s = do {
     (sockets, some_fds_closed, s) \<leftarrow> handle_clients_loop pb 1 client_sockets_count sockets False s;
     if some_fds_closed then do {
       (index_of_last_connected, sockets) \<leftarrow> compact_sockets sockets;
       Some (sockets, index_of_last_connected, s)
     }
     else Some (sockets, client_sockets_count, s)
   }"

text \<open>\<^verbatim>\<open>poll\<close> over the first \<^verbatim>\<open>n\<close> elements: its result and, unless it fails, the events of each open one.\<close>

type_synonym poll_outcome = "int \<times> 16 word list"

fun poll_events :: "nat \<Rightarrow> 16 word list \<Rightarrow> pollfd list \<Rightarrow> pollfd list" where
  "poll_events 0 evs ps = ps"
| "poll_events (Suc n) evs [] = []"
| "poll_events (Suc n) evs (p # ps) =
    p\<lparr>p_revents := (if p_fd p < 0 then 0 else case evs of [] \<Rightarrow> 0 | e # _ \<Rightarrow> e)\<rparr> # poll_events n (drop 1 evs) ps"

definition poll_call :: "poll_outcome \<Rightarrow> nat \<Rightarrow> pollfd list \<Rightarrow> int \<times> pollfd list" where
  "poll_call outcome n sockets =
    (case outcome of (r, evs) \<Rightarrow> (r, if r < 0 then sockets else poll_events n evs sockets))"

text \<open>What the loop has come to after a script of results of \<^verbatim>\<open>poll\<close>: it waits in the next call, or it
  has returned.\<close>

datatype loop_state = Polling "pollfd list" int | Returned int

fun main_loop ::
  "protobuf \<Rightarrow> poll_outcome list \<Rightarrow> pollfd list \<Rightarrow> int \<Rightarrow> ('s, 'z) netserver_scheme
    \<Rightarrow> (loop_state \<times> ('s, 'z) netserver_scheme) option" where
  "main_loop pb [] sockets client_sockets_count s = Some (Polling sockets client_sockets_count, s)"
| "main_loop pb (outcome # polls) sockets client_sockets_count s =
    (case poll_call outcome (nat (1 + client_sockets_count)) sockets of (r, sockets) \<Rightarrow>
      if r < 0 then do {
        s \<leftarrow> close_all_client_sockets sockets s;
        Some (Returned (-1), s)
      }
      else if r = 0 then main_loop pb polls sockets client_sockets_count s
      else do {
        (sockets, client_sockets_count, s) \<leftarrow> handle_listening_socket_events sockets client_sockets_count s;
        (sockets, client_sockets_count, s) \<leftarrow> handle_client_sockets_events pb sockets client_sockets_count s;
        main_loop pb polls sockets client_sockets_count s
      })"

definition initial_sockets :: "int \<Rightarrow> pollfd list" where
  "initial_sockets listening_socket =
    \<lparr>p_fd = listening_socket, p_events = POLLIN, p_revents = 0\<rparr> #
      replicate (nat MAX_CLIENT_SOCKETS) \<lparr>p_fd = -1, p_events = POLLIN, p_revents = 0\<rparr>"

definition network_main_loop ::
  "protobuf \<Rightarrow> poll_outcome list \<Rightarrow> int \<Rightarrow> ('s, 'z) netserver_scheme
    \<Rightarrow> (loop_state \<times> ('s, 'z) netserver_scheme) option" where
  "network_main_loop pb polls listening_socket s =
    main_loop pb polls (initial_sockets listening_socket) 0 s"

definition network_server_close :: "protobuf \<Rightarrow> ('s, 'z) skel_scheme \<Rightarrow> int \<times> ('s, 'z) skel_scheme" where
  "network_server_close pb s = (0, tree_skel_destroy pb s)"

section \<open>Moving the closed sockets to the end\<close>

definition connected :: "pollfd \<Rightarrow> bool" where
  "connected p \<longleftrightarrow> p_fd p \<noteq> -1"

lemma slot_append [simp]: "slot (a @ p # b) (int (length a)) = Some p"
  by (simp add: slot_def)

lemma set_slot_append [simp]: "set_slot (int (length a)) q (a @ p # b) = Some (a @ q # b)"
  by (simp add: set_slot_def)

lemma slot_at: "slot xs i = Some p \<longleftrightarrow> 0 \<le> i \<and> nat i < length xs \<and> p = xs ! nat i"
  by (auto simp: slot_def)

lemma shift_loop_eq:
  "i = int (length a) \<Longrightarrow> n = int (length a + length mid) \<Longrightarrow>
    shift_loop (i + 1) n (a @ p # mid @ rest) = Some (a @ mid @ last (p # mid) # rest)"
proof (induction mid arbitrary: a p i)
  case Nil
  then show ?case by (simp add: shift_loop.simps)
next
  case (Cons x mid)
  have "slot (a @ p # (x # mid) @ rest) (i + 1) = Some x"
    using slot_append [of "a @ [p]" x "mid @ rest"] Cons.prems by (simp add: add.commute)
  moreover have "set_slot (i + 1 - 1) x (a @ p # (x # mid) @ rest) = Some (a @ x # x # mid @ rest)"
    using Cons.prems by simp
  moreover have "shift_loop (i + 1 + 1) n ((a @ [x]) @ x # mid @ rest) =
      Some ((a @ [x]) @ mid @ last (x # mid) # rest)"
    using Cons.prems by (intro Cons.IH) simp_all
  ultimately show ?case
    using Cons.prems by (subst shift_loop.simps) simp
qed

lemma compact_loop_eq:
  "mid \<noteq> [] \<Longrightarrow> n = int (length a + length mid) \<Longrightarrow>
    compact_loop (length a) n (h # a @ mid @ rest) =
      Some (int (length (filter connected a) + length mid),
        h # filter connected a @ mid @ filter (Not \<circ> connected) a @ rest)"
proof (induction a arbitrary: mid n rest rule: rev_induct)
  case Nil
  then show ?case by simp
next
  case (snoc p a)
  have slot: "slot (h # (a @ [p]) @ mid @ rest) (int (Suc (length a))) = Some p"
    using slot_append [of "h # a" p "mid @ rest"] by simp
  show ?case
  proof (cases "connected p")
    case True
    with snoc.IH [of "p # mid" n rest] snoc.prems slot show ?thesis
      by (simp add: connected_def)
  next
    case False
    have "shift_loop (int (Suc (length a)) + 1) n ((h # a) @ p # mid @ rest) =
        Some ((h # a) @ mid @ last (p # mid) # rest)"
      using snoc.prems by (intro shift_loop_eq) simp_all
    moreover have "set_slot n p (((h # a) @ mid) @ last (p # mid) # rest) = Some (((h # a) @ mid) @ p # rest)"
      using snoc.prems set_slot_append [of "(h # a) @ mid" p "last (p # mid)" rest] by simp
    moreover have "compact_loop (length a) (n - 1) (h # a @ mid @ p # rest) =
      Some (int (length (filter connected a) + length mid),
        h # filter connected a @ mid @ filter (Not \<circ> connected) a @ p # rest)"
      using snoc.prems by (intro snoc.IH) simp_all
    moreover have "p_fd p = -1" using False by (simp add: connected_def)
    ultimately show ?thesis using slot False by (simp add: comp_def)
  qed
qed

lemma find_last_connected_eq:
  "find_last_connected (length xs) (h # xs @ rest) =
    Some (if \<exists>p \<in> set xs. connected p then int (length xs - length (takeWhile (Not \<circ> connected) (rev xs)))
      else MAX_CLIENT_SOCKETS)"
proof (induction xs arbitrary: rest rule: rev_induct)
  case Nil
  then show ?case by simp
next
  case (snoc p xs)
  have "slot (h # (xs @ [p]) @ rest) (int (Suc (length xs))) = Some p"
    using slot_append [of "h # xs" p rest] by simp
  with snoc.IH [of "p # rest"] show ?case by (auto simp: connected_def)
qed

lemma compact_sockets_eq:
  assumes "length xs = 5"
  shows "\<exists>cs. compact_sockets (h # xs) =
      Some (max 1 (int (length (filter connected xs))), h # filter connected xs @ cs) \<and>
    (\<forall>p \<in> set cs. \<not> connected p) \<and> length (filter connected xs) + length cs = 5"
proof (cases "\<exists>p \<in> set xs. connected p")
  case True
  define closed_end where "closed_end = rev (takeWhile (Not \<circ> connected) (rev xs))"
  obtain l a where l: "dropWhile (Not \<circ> connected) (rev xs) = l # rev a" "connected l"
  proof -
    have "dropWhile (Not \<circ> connected) (rev xs) \<noteq> []" using True by (simp add: dropWhile_eq_Nil_conv)
    then obtain l b where "dropWhile (Not \<circ> connected) (rev xs) = l # b" by (cases "dropWhile (Not \<circ> connected) (rev xs)") auto
    moreover from this have "connected l" by (metis comp_apply dropWhile_eq_Cons_conv)
    ultimately show ?thesis using that [of l "rev b"] by simp
  qed
  have xs: "xs = a @ [l] @ closed_end"
    using takeWhile_dropWhile_id [of "Not \<circ> connected" "rev xs"] l(1)
    by (metis closed_end_def append.assoc append_Cons append_Nil rev.simps(2) rev_append rev_rev_ident)
  have none: "\<forall>p \<in> set closed_end. \<not> connected p"
    by (auto simp: closed_end_def dest: set_takeWhileD)
  have "length xs - length (takeWhile (Not \<circ> connected) (rev xs)) = Suc (length a)"
    using arg_cong [OF xs, of length] by (simp add: closed_end_def)
  then have "find_last_connected 5 (h # xs) = Some (int (Suc (length a)))"
    using find_last_connected_eq [of xs h "[]"] True assms by simp
  moreover have "compact_loop (length a) (int (Suc (length a))) (h # a @ [l] @ closed_end) =
      Some (int (length (filter connected a) + 1), h # filter connected a @ [l] @ filter (Not \<circ> connected) a @ closed_end)"
    using compact_loop_eq [of "[l]" "int (Suc (length a))" a h closed_end] by simp
  moreover have "filter connected closed_end = []" "filter (Not \<circ> connected) closed_end = closed_end"
    using none by (simp_all add: filter_empty_conv filter_id_conv)
  moreover have "length a + length closed_end = 4" using assms xs by simp
  ultimately show ?thesis
    using l(2) none sum_length_filter_compl [of connected a]
    by (intro exI [of _ "filter (Not \<circ> connected) a @ closed_end"])
       (auto simp: compact_sockets_def MAX_CLIENT_SOCKETS_def xs comp_def)
next
  case False
  obtain a l where xs: "xs = a @ [l]" "length a = 4"
    using assms by (cases xs rule: rev_cases) auto
  have "find_last_connected 5 (h # xs) = Some 5"
    using find_last_connected_eq [of xs h "[]"] False assms by (simp add: MAX_CLIENT_SOCKETS_def)
  moreover have "compact_loop 4 5 (h # a @ [l] @ []) =
      Some (int (length (filter connected a) + 1), h # filter connected a @ [l] @ filter (Not \<circ> connected) a @ [])"
    using compact_loop_eq [of "[l]" 5 a h "[]"] xs(2) by simp
  moreover have "filter connected a = []" "filter (Not \<circ> connected) a = a" "\<not> connected l"
    using False xs by (auto simp: filter_empty_conv filter_id_conv)
  ultimately show ?thesis
    using False xs
    by (intro exI [of _ "l # a"]) (auto simp: compact_sockets_def MAX_CLIENT_SOCKETS_def)
qed

section \<open>The transport concerns neither the tree nor the tasks\<close>

lemma malloc_kept: "outcomes s = [] \<Longrightarrow> malloc n s = (ok, s') \<Longrightarrow> kept s s'"
  by (auto simp: malloc_def split: if_splits)

lemma malloc_mem:
  "outcomes s = [] \<Longrightarrow> malloc n s = (0 \<le> n, if 0 \<le> n then s\<lparr>live := live s + 1\<rparr> else s)"
  by (simp add: malloc_def)

lemma read_call_kept: "read_call fd n s = (r, s') \<Longrightarrow> kept s s'"
  by (auto simp: read_call_def split: option.splits prod.splits)

lemma write_call_kept: "write_call fd bs s = (r, s') \<Longrightarrow> kept s s'"
  by (auto simp: write_call_def split: option.splits prod.splits)

lemma free_kept [simp]: "kept s (free p s') = kept s s'"
  by (simp add: free_def)

lemma read_loop_kept:
  fixes s :: "('s, 'z) skel_scheme"
  shows "read_loop fd buffer i n s = Some (q, s') \<Longrightarrow> kept s s'"
proof (induction fd buffer i n s rule: read_loop.induct)
  case (1 fd buffer i n s)
  obtain r s1 where r: "read_call fd (nat (n - i)) s = (r, s1)" by fastforce
  have "kept s s1" by (rule read_call_kept [OF r])
  with 1 r show ?case
    by (cases r)
       (auto simp: read_loop.simps [of fd buffer i n s] bind_eq_Some_conv split: if_splits intro: kept_trans)
qed

lemma send_loop_kept:
  fixes s :: "('s, 'z) skel_scheme"
  shows "send_loop fd buffer w n s = Some (r, s') \<Longrightarrow> kept s s'"
proof (induction fd buffer w n s rule: send_loop.induct)
  case (1 fd buffer w n s)
  show ?case
  proof (cases "w < n")
    case False
    with "1.prems" show ?thesis by (simp add: send_loop.simps)
  next
    case True
    then obtain bs where bs: "read_at (int w) (n - w) buffer = Some bs"
      using "1.prems" by (auto simp: send_loop.simps [of fd buffer w n s] bind_eq_Some_conv)
    obtain q s1 where q: "write_call fd bs s = (q, s1)" by fastforce
    have "kept s s1" by (rule write_call_kept [OF q])
    with 1 True bs q show ?thesis
      by (cases q)
         (auto simp: send_loop.simps [of fd buffer w n s] split: if_splits intro: kept_trans)
  qed
qed

lemma network_read_buffer_kept:
  assumes "network_read_buffer fd n s = Some (q, s')" "outcomes s = []"
  shows "kept s s'"
proof -
  obtain ok s1 where m: "malloc n s = (ok, s1)" by fastforce
  have "kept s s1" by (rule malloc_kept [OF assms(2) m])
  with assms(1) m show ?thesis
    by (auto simp: network_read_buffer_def split: if_splits dest: read_loop_kept intro: kept_trans)
qed

lemma message_to_buffer_kept:
  assumes "message_to_buffer pb m v s = Some (n, v', s')" "outcomes s = []"
  shows "kept s s'"
proof -
  have "kept s s1" if "pack_buffer bytes s = Some (q, s1)" for bytes q s1
    using that malloc_kept [OF assms(2)]
    by (auto simp: pack_buffer_def Let_def bind_eq_Some_conv split: prod.splits if_splits)
  with assms(1) show ?thesis
    by (auto simp: message_to_buffer_def bind_eq_Some_conv split: option.splits if_splits)
qed

lemma network_send_kept:
  assumes "network_send pb fd m s = Some (r, s')" "outcomes s = []"
  shows "kept s s'"
proof -
  obtain n v s1 where m: "message_to_buffer pb m (Some None) s = Some (n, v, s1)"
    using assms(1) by (auto simp: network_send_def network_send_message_def bind_eq_Some_conv)
  have buffer: "kept a b" if "network_send_buffer fd bs k a = Some (q, b)"
    for bs k q and a b :: "('a, 'b) skel_scheme"
    using that unfolding network_send_buffer_def by (rule send_loop_kept)
  note k1 = message_to_buffer_kept [OF m assms(2)]
  show ?thesis
    using assms(1) m k1 unfolding network_send_def network_send_message_def
    by (auto simp: bind_eq_Some_conv split: if_splits dest!: buffer intro: kept_trans)
qed

lemma message_unpack_kept:
  assumes "message__unpack pb n b s = Some (q, s')" "outcomes s = []"
  shows "kept s s' \<and> (\<forall>m. q = Some m \<longrightarrow>
    (\<exists>bs. read_at 0 (size_of_int n) b = Some bs \<and> unpack_message pb bs = Some m))"
  using assms
  by (auto simp: message__unpack_def unpack_with_def bind_eq_Some_conv malloc_mem
      split: option.splits if_splits)

lemma buffer_to_message_kept:
  assumes "buffer_to_message pb (Some b) n s = Some (q, s')" "outcomes s = []" "in_int n"
  shows "kept s s' \<and> (\<forall>m. q = Some \<lparr>mt_msg = Some m\<rparr> \<longrightarrow>
    (\<exists>bs. unpack_message pb bs = Some m \<and> int (length bs) \<le> INT_MAX))"
proof (cases "n < 0")
  case True
  with assms(1) show ?thesis by (auto simp: buffer_to_message_def)
next
  case False
  then obtain u s1 ok s2 where u: "message__unpack pb n b s = Some (u, s1)"
    and m: "malloc SIZE_OF_MESSAGE_T s1 = (ok, s2)"
    and q: "q = (if ok then Some \<lparr>mt_msg = u\<rparr> else None)" "s' = s2"
    using assms(1) by (auto simp: buffer_to_message_def bind_eq_Some_conv Let_def case_prod_beta'
        prod_eq_iff split: if_splits)
  note k1 = message_unpack_kept [OF u assms(2)]
  then have "outcomes s1 = []" using assms(2) by (simp add: kept_def)
  from malloc_kept [OF this m] k1 have k: "kept s s2" using kept_trans by blast
  have "length bs = nat n" if "read_at 0 (size_of_int n) b = Some bs" for bs
    using that size_of_int_id [of n] False assms(3)
    by (auto simp: read_at_def int_range split: if_splits)
  then have len: "int (length bs) \<le> INT_MAX" if "read_at 0 (size_of_int n) b = Some bs" for bs
    using that assms(3) False by (simp add: int_range)
  have "\<exists>bs. unpack_message pb bs = Some m \<and> int (length bs) \<le> INT_MAX" if "q = Some \<lparr>mt_msg = Some m\<rparr>" for m
  proof -
    have "u = Some m" using that q(1) by (cases ok) simp_all
    with k1 len show ?thesis by blast
  qed
  with k q(2) show ?thesis by blast
qed

text \<open>A received message was unpacked from at most \<^verbatim>\<open>INT_MAX\<close> bytes.\<close>

lemma network_receive_kept:
  assumes "network_receive pb fd s = Some (q, s')" "outcomes s = []"
  shows "kept s s' \<and> (\<forall>m. q = Some \<lparr>mt_msg = Some m\<rparr> \<longrightarrow>
    (\<exists>bs. unpack_message pb bs = Some m \<and> int (length bs) \<le> INT_MAX))"
proof -
  obtain q1 s1 where 1: "network_read_buffer fd 4 s = Some (q1, s1)"
    using assms(1) by (auto simp: network_receive_def network_receive_message_def SIZE_OF_INT_def bind_eq_Some_conv)
  have k1: "kept s s1" by (rule network_read_buffer_kept [OF 1 assms(2)])
  show ?thesis
  proof (cases q1)
    case None
    with assms(1) 1 k1 show ?thesis
      by (simp add: network_receive_def network_receive_message_def SIZE_OF_INT_def)
  next
    case (Some b)
    define n where "n = ntohl (bytes_int b)"
    have n_int: "in_int n" by (simp add: n_def ntohl_def in_int_bytes_int)
    let ?s1 = "s1\<lparr>live := live s1 - 1\<rparr>"
    show ?thesis
    proof (cases "n < 0")
      case True
      with assms(1) 1 Some k1 show ?thesis
        by (auto simp: network_receive_def network_receive_message_def SIZE_OF_INT_def Let_def simp flip: n_def)
    next
      case False
      then obtain q2 s2 where 2: "network_read_buffer fd n ?s1 = Some (q2, s2)"
        and rest: "(if q2 = None then Some (None, s2)
           else do {
             (message, s) \<leftarrow> buffer_to_message pb q2 n s2;
             let s = free q2 s;
             Some (message, s)
           }) = Some (q, s')"
        using assms(1) 1 Some
        by (auto simp: network_receive_def network_receive_message_def SIZE_OF_INT_def Let_def
            bind_eq_Some_conv simp flip: n_def)
      have mem: "outcomes ?s1 = []" using k1 assms(2) by (simp add: kept_def)
      have k2: "kept s s2"
        using kept_trans [OF _ network_read_buffer_kept [OF 2 mem], of s] k1 by simp
      have mem2: "outcomes s2 = []" using k2 assms(2) by (simp add: kept_def)
      show ?thesis
      proof (cases q2)
        case None
        with rest k2 show ?thesis by simp
      next
        case (Some b2)
        then obtain s3 where 3: "buffer_to_message pb (Some b2) n s2 = Some (q, s3)" "s' = free q2 s3"
          using rest by (auto simp: bind_eq_Some_conv Let_def)
        from buffer_to_message_kept [OF 3(1) mem2 n_int] show ?thesis
          using kept_trans [OF k2] 3(2) by simp
      qed
    qed
  qed
qed

section \<open>The loop is a run of the server\<close>

text \<open>What is unpacked from a buffer the server can hold is well formed and can be packed again: the
  library never builds a message with a missing member of its union or a string with a NUL inside.\<close>

definition unpack_ok :: "protobuf \<Rightarrow> bool" where
  "unpack_ok pb \<longleftrightarrow>
    (\<forall>bs m. int (length bs) \<le> INT_MAX \<longrightarrow> unpack_message pb bs = Some m \<longrightarrow> messages_ok pb [m])"

fun main_thread :: "event \<Rightarrow> bool" where
  "main_thread (Serve request response) \<longleftrightarrow> True"
| "main_thread Outside \<longleftrightarrow> True"
| "main_thread _ \<longleftrightarrow> False"

definition serves ::
  "protobuf \<Rightarrow> 's zoo \<Rightarrow> nat \<Rightarrow> ('s, 'z) skel_scheme \<Rightarrow> ('s, 'z) skel_scheme \<Rightarrow> bool" where
  "serves pb zoo n s s' \<longleftrightarrow>
    (\<exists>es. run (server_step pb zoo) (Some s) es (Some s') \<and> length es \<le> n \<and> list_all main_thread es)"

text \<open>The state of a server that can take \<^verbatim>\<open>k\<close> more writes.\<close>

definition room :: "protobuf \<Rightarrow> nat \<Rightarrow> ('s, 'z) skel_scheme \<Rightarrow> bool" where
  "room pb k s \<longleftrightarrow> (\<exists>ws n. skel_inv pb ws n s \<and> int (length ws + k) < INT_MAX)"

lemma run_trans: "run step c' es' c'' \<Longrightarrow> run step c es c' \<Longrightarrow> run step c (es @ es') c''"
  by (induction rule: run.induct) (auto intro: run_snoc simp flip: append_assoc)

lemma serves_refl [simp]: "serves pb zoo n s s"
  by (auto simp: serves_def intro: run_Nil exI [of _ "[]"])

lemma serves_trans: "serves pb zoo n s s' \<Longrightarrow> serves pb zoo m s' s'' \<Longrightarrow> serves pb zoo (n + m) s s''"
  unfolding serves_def
  by (elim exE conjE) (auto intro!: exI conjI run_trans)

lemma serves_mono: "serves pb zoo n s s' \<Longrightarrow> n \<le> m \<Longrightarrow> serves pb zoo m s s'"
  by (auto simp: serves_def)

lemma serves_kept: "kept s s' \<Longrightarrow> serves pb zoo 1 s s'"
  unfolding serves_def by (intro exI [of _ "[Outside]"]) (simp add: run_single outside)

lemma room_kept: "kept s s' \<Longrightarrow> room pb k s' = room pb k s"
  by (simp add: room_def kept_inv)

lemma room_mono: "room pb k s \<Longrightarrow> j \<le> k \<Longrightarrow> room pb j s"
  by (force simp: room_def)

lemma room_memory: "room pb k s \<Longrightarrow> outcomes s = []"
  by (auto simp: room_def skel_inv_def tasks_ok_def)

lemma room_serve:
  assumes "room pb (Suc k) s" "messages_ok pb [m]"
  shows "\<exists>response s'. invoke pb (Some \<lparr>mt_msg = Some m\<rparr>) s = Some (0, Some \<lparr>mt_msg = Some response\<rparr>, s') \<and>
    serves pb zoo 1 s s' \<and> room pb k s'"
proof -
  obtain ws n where inv: "skel_inv pb ws n s" and len: "int (length ws + Suc k) < INT_MAX"
    using assms(1) by (auto simp: room_def)
  obtain t where t: "tree s = Some t" using inv by (auto simp: skel_inv_def)
  have "int (length ws) < INT_MAX" using len by simp
  from invoke_step [OF inv t assms(2) this] obtain s' where s':
      "invoke pb (Some \<lparr>mt_msg = Some m\<rparr>) s = Some (0, Some \<lparr>mt_msg = Some (answer m t n (length ws))\<rparr>, s')"
      "skel_inv pb (if write_request m then ws @ [m] else ws) n s'"
    by blast
  have "serves pb zoo 1 s s'"
    unfolding serves_def
    by (intro exI [of _ "[Serve m (answer m t n (length ws))]"]) (simp add: run_single serve [OF assms(2) s'(1)])
  moreover have "room pb k s'"
    using s'(2) len unfolding room_def
    by (intro exI [of _ "if write_request m then ws @ [m] else ws"] exI [of _ n]) auto
  ultimately show ?thesis using s'(1) by blast
qed

lemma pollin_event_serves:
  assumes "unpack_ok pb" "room pb (Suc k) s" "handle_client_socket_pollin_event pb fd s = Some (r, s')"
  shows "serves pb zoo 3 s s' \<and> room pb k s'"
proof -
  obtain q s1 where 1: "network_receive pb fd s = Some (q, s1)"
    using assms(3) by (auto simp: handle_client_socket_pollin_event_def bind_eq_Some_conv)
  note k1 = network_receive_kept [OF 1 room_memory [OF assms(2)]]
  have end_now: ?thesis if "kept s1 s'"
  proof -
    have k: "kept s s'" using k1 that kept_trans by blast
    with assms(2) show ?thesis
      using room_kept [OF k] room_mono [of pb "Suc k" s k] serves_mono [OF serves_kept, of s s' 3 pb zoo] by simp
  qed
  have destroyed: "kept a (message_destroy pb m b) = kept a b" for a m and b :: "('a, 'b) skel_scheme"
    by (auto simp: message_destroy_def Message_destroy_def split: option.splits)
  show ?thesis
  proof (cases "\<exists>m. q = Some \<lparr>mt_msg = Some m\<rparr>")
    case False
    then consider "q = None" | "q = Some \<lparr>mt_msg = None\<rparr>"
      by (metis message_t.cases not_None_eq)
    then have "kept s1 s'"
      using assms(3) 1
      by cases (auto simp: handle_client_socket_pollin_event_def invoke_def destroyed split: if_splits)
    then show ?thesis by (rule end_now)
  next
    case True
    then obtain m bs where m: "q = Some \<lparr>mt_msg = Some m\<rparr>" "unpack_message pb bs = Some m"
        "int (length bs) \<le> INT_MAX"
      using k1 by blast
    then have ok: "messages_ok pb [m]" using assms(1) by (auto simp: unpack_ok_def)
    have "room pb (Suc k) s1" using k1 assms(2) room_kept by blast
    from room_serve [OF this ok, of zoo] obtain response s2 where
        2: "invoke pb q s1 = Some (0, Some \<lparr>mt_msg = Some response\<rparr>, s2)"
        "serves pb zoo 1 s1 s2" "room pb k s2"
      using m(1) by blast
    then obtain r3 s3 where 3: "network_send pb fd (Some \<lparr>mt_msg = Some response\<rparr>) s2 = Some (r3, s3)"
        "s' = message_destroy pb (Some \<lparr>mt_msg = Some response\<rparr>) s3"
      using assms(3) 1 m(1)
      by (auto simp: handle_client_socket_pollin_event_def bind_eq_Some_conv)
    have k: "kept s2 s'" using network_send_kept [OF 3(1) room_memory [OF 2(3)]] 3(2) destroyed by simp
    have "serves pb zoo (1 + 1 + 1) s s'"
      using serves_trans [OF serves_trans [OF serves_kept 2(2)] serves_kept] k1 k by blast
    then show ?thesis using 2(3) room_kept [OF k] by (simp add: numeral_3_eq_3)
  qed
qed

text \<open>The array between two calls of \<^verbatim>\<open>poll\<close>: the listening socket in front, then at most five clients,
  no open descriptor after the counted ones.\<close>

definition pollset_ok :: "int \<Rightarrow> int \<Rightarrow> pollfd list \<Rightarrow> bool" where
  "pollset_ok listening_socket client_sockets_count sockets \<longleftrightarrow>
    length sockets = 6 \<and> p_fd (sockets ! 0) = listening_socket \<and>
    0 \<le> client_sockets_count \<and> client_sockets_count \<le> MAX_CLIENT_SOCKETS \<and>
    (\<forall>j. client_sockets_count < int j \<and> j < 6 \<longrightarrow> p_fd (sockets ! j) \<le> 0)"

lemma pollset_initial: "pollset_ok l 0 (initial_sockets l)"
  by (auto simp: pollset_ok_def initial_sockets_def MAX_CLIENT_SOCKETS_def nth_Cons split: nat.splits)

lemma poll_events_same:
  "length (poll_events n evs ps) = length ps \<and> (\<forall>j. j < length ps \<longrightarrow> p_fd (poll_events n evs ps ! j) = p_fd (ps ! j))"
  by (induction n evs ps rule: poll_events.induct) (auto simp: nth_Cons split: nat.splits)

lemma pollset_poll:
  assumes "pollset_ok l c sockets" "poll_call outcome n sockets = (r, sockets')"
  shows "pollset_ok l c sockets'"
  using assms poll_events_same [of n "snd outcome" sockets]
  by (auto simp: pollset_ok_def poll_call_def split: prod.splits if_splits)

lemma handle_clients_loop_serves:
  "unpack_ok pb \<Longrightarrow> room pb (nat (c + 1 - i) + k) s \<Longrightarrow> 1 \<le> i \<Longrightarrow>
    handle_clients_loop pb i c sockets b s = Some (sockets', b', s') \<Longrightarrow>
    serves pb zoo (4 * nat (c + 1 - i)) s s' \<and> room pb k s' \<and> length sockets' = length sockets \<and>
    (\<forall>j. int j < i \<or> c < int j \<longrightarrow> sockets' ! j = sockets ! j)"
proof (induction "nat (c + 1 - i)" arbitrary: i sockets b s rule: less_induct)
  case less
  show ?case
  proof (cases "i \<le> c")
    case False
    with less.prems show ?thesis by (auto simp: handle_clients_loop.simps [of pb i c sockets b s])
  next
    case True
    have n: "nat (c + 1 - i) = Suc (nat (c + 1 - (i + 1)))" using True by simp
    obtain p where p: "slot sockets i = Some p"
      using less.prems True by (auto simp: handle_clients_loop.simps [of pb i c sockets b s] bind_eq_Some_conv)
    obtain sockets1 b1 s1 where step: "(if p_fd p \<ge> 0 \<and> p_revents p AND POLLIN \<noteq> 0 then do {
            (handler_result, s) \<leftarrow> handle_client_socket_pollin_event pb (p_fd p) s;
            if handler_result < 0 then do {
              sockets \<leftarrow> set_slot i (p\<lparr>p_fd := -1\<rparr>) sockets;
              Some (sockets, True, close_fd (p_fd p) s)
            }
            else Some (sockets, b, s)
          }
          else Some (sockets, b, s)) = Some (sockets1, b1, s1)"
      and rest: "handle_clients_loop pb (i + 1) c sockets1 b1 s1 = Some (sockets', b', s')"
      using less.prems True p
      by (auto simp: handle_clients_loop.simps [of pb i c sockets b s] bind_eq_Some_conv)
    have one: "serves pb zoo 4 s s1 \<and> room pb (nat (c + 1 - (i + 1)) + k) s1 \<and>
        length sockets1 = length sockets \<and> (\<forall>j. j \<noteq> nat i \<longrightarrow> sockets1 ! j = sockets ! j)"
    proof (cases "p_fd p \<ge> 0 \<and> p_revents p AND POLLIN \<noteq> 0")
      case False
      then have "(sockets1, b1, s1) = (sockets, b, s)" using step by (auto split: if_splits)
      then show ?thesis using less.prems(2) room_mono [of pb "Suc (nat (c + 1 - (i + 1)) + k)" s] n by simp
    next
      case True
      then obtain r s2 where h: "handle_client_socket_pollin_event pb (p_fd p) s = Some (r, s2)"
        using step by (auto simp: bind_eq_Some_conv)
      have "room pb (Suc (nat (c + 1 - (i + 1)) + k)) s" using less.prems(2) n by simp
      note sv = pollin_event_serves [OF less.prems(1) this h]
      have k: "kept s2 (close_fd (p_fd p) s2)" by simp
      have "serves pb zoo (3 + 1) s (close_fd (p_fd p) s2)"
        using serves_trans [OF _ serves_kept [OF k]] sv by blast
      moreover have "serves pb zoo 4 s s2" using sv serves_mono [of pb zoo 3 s s2 4] by simp
      ultimately show ?thesis
        using step True h sv room_kept [OF k]
        by (auto simp: set_slot_def bind_eq_Some_conv split: if_splits)
    qed
    have "serves pb zoo (4 * nat (c + 1 - (i + 1))) s1 s' \<and> room pb k s' \<and> length sockets' = length sockets1 \<and>
        (\<forall>j. int j < i + 1 \<or> c < int j \<longrightarrow> sockets' ! j = sockets1 ! j)"
      using less.hyps [of "i + 1" s1 sockets1 b1] n less.prems(1,3) one rest by simp
    moreover from this one have "serves pb zoo (4 + 4 * nat (c + 1 - (i + 1))) s s'" using serves_trans by blast
    ultimately show ?thesis
      using one True less.prems(3) by (auto simp: n)
  qed
qed

lemma pollset_compact:
  assumes "pollset_ok l c sockets" "compact_sockets sockets = Some (c', sockets')"
  shows "pollset_ok l c' sockets'"
proof -
  obtain h xs where s: "sockets = h # xs" "length xs = 5"
    using assms(1) by (cases sockets) (auto simp: pollset_ok_def)
  obtain cs where cs: "c' = max 1 (int (length (filter connected xs)))"
      "sockets' = h # filter connected xs @ cs" "\<forall>p \<in> set cs. \<not> connected p"
      "length (filter connected xs) + length cs = 5"
    using compact_sockets_eq [OF s(2), of h] assms(2) s(1) by auto
  have "p_fd (sockets' ! j) \<le> 0" if j: "c' < int j" "j < 6" for j
  proof -
    have "sockets' ! j = cs ! (j - 1 - length (filter connected xs))"
      using cs(1,2) j by (simp add: nth_Cons nth_append split: nat.splits)
    moreover have "j - 1 - length (filter connected xs) < length cs" using cs(1,4) j by simp arith
    ultimately have "\<not> connected (sockets' ! j)" using cs(3) by simp
    then show ?thesis by (simp add: connected_def)
  qed
  then show ?thesis
    using assms(1) cs s by (auto simp: pollset_ok_def MAX_CLIENT_SOCKETS_def)
qed

lemma handle_client_sockets_events_serves:
  assumes "unpack_ok pb" "room pb (5 + k) s" "pollset_ok l c sockets"
    and "handle_client_sockets_events pb sockets c s = Some (sockets', c', s')"
  shows "serves pb zoo 20 s s' \<and> room pb k s' \<and> pollset_ok l c' sockets'"
proof -
  obtain sockets1 b s1 where loop: "handle_clients_loop pb 1 c sockets False s = Some (sockets1, b, s1)"
    using assms(4) by (auto simp: handle_client_sockets_events_def bind_eq_Some_conv)
  have c: "0 \<le> c" "c \<le> 5" using assms(3) by (auto simp: pollset_ok_def MAX_CLIENT_SOCKETS_def)
  then have "room pb (nat (c + 1 - 1) + k) s" using room_mono [OF assms(2)] by simp
  note loop' = handle_clients_loop_serves [OF assms(1) this _ loop, of zoo]
  then have sv: "serves pb zoo 20 s s1" "room pb k s1"
    using serves_mono [of pb zoo "4 * nat c" s s1 20] c by simp_all
  have "\<forall>j. c < int j \<longrightarrow> sockets1 ! j = sockets ! j" "sockets1 ! 0 = sockets ! 0" "length sockets1 = length sockets"
    using loop' by simp_all
  then have ps: "pollset_ok l c sockets1" using assms(3) by (simp add: pollset_ok_def)
  show ?thesis
  proof (cases b)
    case True
    then obtain "compact_sockets sockets1 = Some (c', sockets')" "s' = s1"
      using assms(4) loop by (auto simp: handle_client_sockets_events_def bind_eq_Some_conv)
    with sv pollset_compact [OF ps] show ?thesis by blast
  next
    case False
    with assms(4) loop sv ps show ?thesis by (simp add: handle_client_sockets_events_def)
  qed
qed

lemma kept_accepts [simp]: "kept s (s'\<lparr>accepts := a\<rparr>) = kept s s'"
  by (simp add: kept_def)

lemma accept_kept: "accept_call s = (fd, s') \<Longrightarrow> kept s s'"
  by (auto simp: accept_call_def split: list.splits prod.splits if_splits)

lemma handle_listening_socket_events_serves:
  assumes "pollset_ok l c sockets"
    and "handle_listening_socket_events sockets c s = Some (sockets', c', s')"
  shows "kept s s' \<and> pollset_ok l c' sockets'"
proof -
  obtain p where p: "slot sockets 0 = Some p"
    using assms(2) by (auto simp: handle_listening_socket_events_def bind_eq_Some_conv)
  show ?thesis
  proof (cases "p_revents p AND POLLIN \<noteq> 0 \<and> c < MAX_CLIENT_SOCKETS")
    case False
    with assms p show ?thesis by (auto simp: handle_listening_socket_events_def)
  next
    case True
    obtain fd s1 where a: "accept_call s = (fd, s1)" by fastforce
    obtain q where q: "slot sockets (c + 1) = Some q"
      using assms(2) p True a by (auto simp: handle_listening_socket_events_def Let_def bind_eq_Some_conv)
    have "kept s s1" by (rule accept_kept [OF a])
    moreover have "s' = s1 \<and> (if fd > 0
        then c' = c + 1 \<and> sockets' = sockets[nat (c + 1) := \<lparr>p_fd = fd, p_events = POLLIN, p_revents = 0\<rparr>]
        else c' = c \<and> sockets' = sockets[nat (c + 1) := q\<lparr>p_fd := fd\<rparr>])"
      using assms(2) p True a q
      by (auto simp: handle_listening_socket_events_def Let_def bind_eq_Some_conv set_slot_def split: if_splits)
    ultimately show ?thesis
      using assms(1) True
      by (auto simp: pollset_ok_def nth_list_update MAX_CLIENT_SOCKETS_def split: if_splits)
  qed
qed

lemma close_client_sockets_kept:
  fixes s :: "('s, 'z) skel_scheme"
  shows "close_client_sockets_loop i sockets s = Some s' \<Longrightarrow> kept s s'"
proof (induction "nat (MAX_CLIENT_SOCKETS + 1 - i)" arbitrary: i s rule: less_induct)
  case less
  show ?case
  proof (cases "i \<le> MAX_CLIENT_SOCKETS")
    case False
    with less.prems show ?thesis by (simp add: close_client_sockets_loop.simps)
  next
    case True
    then obtain s1 where s1: "close_client_sockets_loop (i + 1) sockets s1 = Some s'" "kept s s1"
      using less.prems by (auto simp: close_client_sockets_loop.simps [of i] bind_eq_Some_conv split: if_splits)
    with less.hyps [of "i + 1" s1] True show ?thesis using kept_trans by auto
  qed
qed

lemma main_loop_serves:
  assumes "unpack_ok pb"
  shows "room pb (5 * length polls) s \<Longrightarrow> pollset_ok l c sockets \<Longrightarrow>
    main_loop pb polls sockets c s = Some (st, s') \<Longrightarrow>
    serves pb zoo (21 * length polls) s s' \<and>
    (case st of Polling sockets' c' \<Rightarrow> pollset_ok l c' sockets' | Returned r \<Rightarrow> r = -1)"
proof (induction polls arbitrary: sockets c s)
  case Nil
  then show ?case by auto
next
  case (Cons outcome polls)
  obtain r sockets1 where poll: "poll_call outcome (nat (1 + c)) sockets = (r, sockets1)" by fastforce
  note ps = pollset_poll [OF Cons.prems(2) poll]
  have room: "room pb (5 + 5 * length polls) s" using Cons.prems(1) by simp
  consider "r < 0" | "r = 0" | "0 < r" by linarith
  then show ?case
  proof cases
    case 1
    then have "kept s s'" "st = Returned (-1)"
      using Cons.prems(3) poll
      by (auto simp: close_all_client_sockets_def bind_eq_Some_conv dest: close_client_sockets_kept)
    then show ?thesis using serves_mono [OF serves_kept, of s s' "21 * length (outcome # polls)"] by simp
  next
    case 2
    then have "main_loop pb polls sockets1 c s = Some (st, s')" using Cons.prems(3) poll by simp
    from Cons.IH [OF room_mono [OF room] ps this] show ?thesis
      using serves_mono [of pb zoo "21 * length polls" s s' "21 * length (outcome # polls)"] by simp
  next
    case 3
    then obtain sockets2 c2 s2 sockets3 c3 s3 where
        2: "handle_listening_socket_events sockets1 c s = Some (sockets2, c2, s2)"
      and 3: "handle_client_sockets_events pb sockets2 c2 s2 = Some (sockets3, c3, s3)"
      and rest: "main_loop pb polls sockets3 c3 s3 = Some (st, s')"
      using Cons.prems(3) poll by (auto simp: bind_eq_Some_conv)
    note k = handle_listening_socket_events_serves [OF ps 2]
    then have "room pb (5 + 5 * length polls) s2" using room room_kept by blast
    note h = handle_client_sockets_events_serves [OF assms this _ 3, of l zoo]
    have "serves pb zoo ((1 + 20) + 21 * length polls) s s'"
      using serves_trans [OF serves_trans [OF serves_kept]] k h Cons.IH [OF _ _ rest] by blast
    then show ?thesis using Cons.IH [OF _ _ rest] k h by simp
  qed
qed

section \<open>One request\<close>

text \<open>A client's request on an open connection is read, answered by the server and the answer written.\<close>

lemma pollin_event_answer:
  assumes "protobuf_ok pb" "skel_inv pb ws n s" "tree s = Some t" "int (length ws) < INT_MAX"
    and "socks s fd = Some k" "stream (s_in k) = Some (wire_frame pb m @ rest)" "WriteErr \<notin> set (s_out k)"
    and "messages_ok pb [m]" "messages_ok pb [message_wire m]"
    and "messages_ok pb [answer (message_wire m) t n (length ws)]"
  shows "\<exists>s' k'. handle_client_socket_pollin_event pb fd s = Some (0, s') \<and> socks s' fd = Some k' \<and>
    s_sent k' = s_sent k @ wire_frame pb (answer (message_wire m) t n (length ws)) \<and>
    run (server_step pb zoo) (Some s)
      [Outside, Serve (message_wire m) (answer (message_wire m) t n (length ws)), Outside] (Some s')"
proof -
  let ?m = "message_wire m" and ?a = "answer (message_wire m) t n (length ws)"
  have mem: "outcomes s = []" using assms(2) by (simp add: skel_inv_def tasks_ok_def)
  have ok: "message_ok m" "int (length (pack_message pb m)) \<le> INT_MAX"
    "message_ok ?a" "int (length (pack_message pb ?a)) \<le> INT_MAX"
    using assms(8,10) by (simp_all add: messages_ok_def)
  obtain es where 1: "network_receive_message pb fd s = Some (Some \<lparr>mt_msg = Some ?m\<rparr>,
      (set_in fd es s)\<lparr>live := live s + message_blocks (Some ?m) + 1\<rparr>)"
    using network_receive_message_ok [OF assms(1) mem ok(1,2) assms(5,6)] by blast
  let ?s1 = "(set_in fd es s)\<lparr>live := live s + message_blocks (Some ?m) + 1\<rparr>"
  have k1: "kept s ?s1" by simp
  have sock1: "socks ?s1 fd = Some (k\<lparr>s_in := es\<rparr>)" using assms(5) by simp
  have inv1: "skel_inv pb ws n ?s1" "tree ?s1 = Some t"
    using kept_inv [OF k1] assms(2,3) by (simp_all add: set_in_def)
  obtain s2 where 2: "invoke pb (Some \<lparr>mt_msg = Some ?m\<rparr>) ?s1 = Some (0, Some \<lparr>mt_msg = Some ?a\<rparr>, s2)"
      "outcomes s2 = []" "socks s2 = socks ?s1"
    using invoke_step [OF inv1 assms(9,4)] by (auto simp: skel_inv_def tasks_ok_def)
  then obtain es2 where 3: "network_send_message pb fd (Some \<lparr>mt_msg = Some ?a\<rparr>) s2 =
      Some (0, set_out fd es2 (wire_frame pb ?a) s2)"
    using network_send_message_ok [OF 2(2) ok(3,4), of fd "k\<lparr>s_in := es\<rparr>"] sock1 assms(7) by auto
  let ?s3 = "set_out fd es2 (wire_frame pb ?a) s2"
  let ?s4 = "message_destroy pb (Some \<lparr>mt_msg = Some ?a\<rparr>) ?s3"
  have "kept s2 ?s4"
    by (simp add: set_out_def message_destroy_def Message_destroy_def)
  then have "server_step pb zoo Outside (Some s2) (Some ?s4)" by (rule outside)
  moreover have "server_step pb zoo (Serve ?m ?a) (Some ?s1) (Some s2)"
    using 2(1) by (rule serve [OF assms(9)])
  moreover have "server_step pb zoo Outside (Some s) (Some ?s1)" using k1 by (rule outside)
  ultimately have steps: "run (server_step pb zoo) (Some s) [Outside] (Some ?s1)"
      "run (server_step pb zoo) (Some ?s1) [Serve ?m ?a] (Some s2)"
      "run (server_step pb zoo) (Some s2) [Outside] (Some ?s4)"
    by (simp_all only: run_single)
  have "run (server_step pb zoo) (Some s) ([Outside] @ [Serve ?m ?a] @ [Outside]) (Some ?s4)"
    by (rule run_trans [OF run_trans [OF steps(3,2)] steps(1)])
  moreover have "handle_client_socket_pollin_event pb fd s = Some (0, ?s4)"
    using 1 2(1) 3 by (simp add: handle_client_socket_pollin_event_def network_receive_def network_send_def)
  moreover have "socks ?s4 fd = Some (k\<lparr>s_in := es, s_out := es2, s_sent := s_sent k @ wire_frame pb ?a\<rparr>)"
    using assms(5) 2(3) by (simp add: message_destroy_def Message_destroy_def)
  ultimately show ?thesis
    by (intro exI [of _ ?s4]
        exI [of _ "k\<lparr>s_in := es, s_out := es2, s_sent := s_sent k @ wire_frame pb ?a\<rparr>"]) simp
qed

section \<open>Properties\<close>

text \<open>C37: after clients have been closed the array holds every open client, in the old order and from the
  first position on, then only closed elements, and the count is the number of open clients; but when
  none is left the count is 1, so that one of the five places is lost until the next clean-up.\<close>

theorem closed_clients_moved_to_end:
  assumes "length xs = 5"
  shows "\<exists>cs. compact_sockets (h # xs) =
      Some (max 1 (int (length (filter connected xs))), h # filter connected xs @ cs) \<and>
    (\<forall>p \<in> set cs. \<not> connected p) \<and> length (filter connected xs) + length cs = 5"
  using compact_sockets_eq [OF assms] by blast

definition ex_pollfd :: "int \<Rightarrow> pollfd" where
  "ex_pollfd fd = \<lparr>p_fd = fd, p_events = POLLIN, p_revents = 0\<rparr>"

theorem closed_clients_moved_to_end_witness:
  "\<exists>cs. compact_sockets (ex_pollfd 3 # map ex_pollfd [-1, 7, -1, 9, -1]) =
      Some (2, ex_pollfd 3 # map ex_pollfd [7, 9] @ cs) \<and>
    (\<forall>p \<in> set cs. \<not> connected p) \<and> length cs = 3"
  using closed_clients_moved_to_end [of "map ex_pollfd [-1, 7, -1, 9, -1]" "ex_pollfd 3"]
  by (simp add: connected_def ex_pollfd_def)



text \<open>A library that unpacks nothing but well-formed messages, and a server with a client on its way.\<close>

definition guarded :: "protobuf \<Rightarrow> protobuf" where
  "guarded pb = pb\<lparr>unpack_message := \<lambda>bs.
     (case unpack_message pb bs of None \<Rightarrow> None | Some m \<Rightarrow> if messages_ok pb [m] then Some m else None)\<rparr>"

lemma unpack_ok_guarded: "unpack_ok (guarded pb)"
  by (auto simp: unpack_ok_def guarded_def messages_ok_def split: option.splits if_splits)

definition ex_server0 :: "(string \<Rightarrow> string option) netserver" where
  "ex_server0 = skel.extend ex_skel \<lparr>accepts = [(7, \<lparr>s_in = [ReadErr], s_out = [], s_sent = []\<rparr>)]\<rparr>"

definition ex_server :: "(string \<Rightarrow> string option) netserver" where
  "ex_server = snd (tree_skel_init (0, 0, 0, 0) 0 0 ex_server0)"

lemma ex_server0_mem [simp]: "outcomes ex_server0 = []"
  by (simp add: ex_server0_def skel.defs ex_skel_def tasks.defs ex_tasks_def zk.defs ex_zk_def net.defs
      ex_net_def heap.defs ex_heap_def)

lemma ex_server_init: "tree_skel_init (0, 0, 0, 0) 0 0 ex_server0 = (0, ex_server)"
  using tree_skel_init_inv [of ex_server0] by (metis ex_server0_mem ex_server_def prod.collapse)

lemma ex_server_accepts: "accepts ex_server = [(7, \<lparr>s_in = [ReadErr], s_out = [], s_sent = []\<rparr>)]"
  by (simp add: ex_server_def tree_skel_init_def tree_create_def tasks_init_def alloc_simps Let_def
      SIZE_OF_TREE_T_def) (simp add: ex_server0_def skel.defs)

text \<open>One round: the client is accepted and polled from then on.\<close>

lemma ex_server_loop: "\<exists>s'. network_main_loop (guarded wire_protobuf) [(1, [POLLIN])] 3 ex_server =
    Some (Polling ([\<lparr>p_fd = 3, p_events = POLLIN, p_revents = POLLIN\<rparr>, ex_pollfd 7] @
      replicate 4 (ex_pollfd (-1))) 1, s')"
  by (simp add: network_main_loop_def initial_sockets_def MAX_CLIENT_SOCKETS_def poll_call_def numeral_eq_Suc
   handle_listening_socket_events_def slot_def set_slot_def accept_call_def ex_server_accepts POLLIN_def
   handle_client_sockets_events_def handle_clients_loop.simps Let_def ex_pollfd_def)



text \<open>C28: the request of a connected client, delivered in any pieces, is answered with exactly one frame:
  the answer of the server to what the client meant.\<close>

theorem client_request_answered:
  assumes "tree_skel_init (0, 0, 0, 0) 0 0 s0 = (r, s1)" "outcomes s0 = []"
    and "run (server_step pb zoo) (Some s1) es (Some s)" "int (length es) < INT_MAX"
    and "protobuf_ok pb" "tree s = Some t" "socks s fd = Some k" "WriteErr \<notin> set (s_out k)"
    and "stream (s_in k) = Some (wire_frame pb m @ rest)"
    and "messages_ok pb [m, message_wire m,
      answer (message_wire m) t (length (dones es)) (length (writes es))]"
  shows "\<exists>s' k'. handle_client_socket_pollin_event pb fd s = Some (0, s') \<and> socks s' fd = Some k' \<and>
    s_sent k' = s_sent k @
      wire_frame pb (answer (message_wire m) t (length (dones es)) (length (writes es)))"
proof -
  have "int (length (writes es)) < INT_MAX" using length_writes [of es] assms(4) by simp
  from pollin_event_answer [OF assms(5) reachable_log(1) [OF assms(1-4)] assms(6) this assms(7,9,8)] assms(10)
  show ?thesis unfolding messages_ok_def by fastforce
qed

definition ex_size :: message where
  "ex_size = \<lparr>m_op_code = OP_SIZE, m_content = CNone\<rparr>"

theorem client_request_answered_witness:
  "\<exists>s k s' k'. run (server_step wire_protobuf table_zoo) (Some ex_up) [Outside] (Some s) \<and> socks s 7 = Some k \<and>
    handle_client_socket_pollin_event wire_protobuf 7 s = Some (0, s') \<and> socks s' 7 = Some k' \<and>
    s_sent k' = s_sent k @ wire_frame wire_protobuf \<lparr>m_op_code = OP_SIZE + 1, m_content = CIntResult 0\<rparr>"
proof -
  let ?k = "\<lparr>s_in = [Chunk (wire_frame wire_protobuf ex_size)], s_out = [Accept 3, WriteIntr], s_sent = []\<rparr>"
  let ?s = "ex_up\<lparr>socks := [7 \<mapsto> ?k]\<rparr>"
  have run: "run (server_step wire_protobuf table_zoo) (Some ex_up) [Outside] (Some ?s)"
    unfolding run_single by (rule outside) (simp add: kept_def)
  have a: "answer (message_wire ex_size) (tree_of NullNode) 0 0 = \<lparr>m_op_code = OP_SIZE + 1, m_content = CIntResult 0\<rparr>"
    by (simp add: answer_def message_wire_def ex_size_def)
  have ok: "messages_ok wire_protobuf [ex_size, message_wire ex_size,
      answer (message_wire ex_size) (tree_of NullNode) (length (dones [Outside])) (length (writes [Outside]))]"
    by (simp add: a) (simp add: ex_size_def message_wire_def messages_ok_def message_ok_def
      wire_protobuf_def wire_pack_message_def enc_fields_def varint_short
      INT_MAX_def int_range op_codes enum_varint_def zigzag_def)
  have "length (wire_frame wire_protobuf ex_size) \<ge> 4" by (simp add: wire_frame_def network.length_frame)
  then have nonempty: "wire_frame wire_protobuf ex_size \<noteq> []" by auto
  have "\<exists>s' k'. handle_client_socket_pollin_event wire_protobuf 7 ?s = Some (0, s') \<and> socks s' 7 = Some k' \<and>
    s_sent k' = s_sent ?k @ wire_frame wire_protobuf (answer (message_wire ex_size) (tree_of NullNode)
      (length (dones [Outside])) (length (writes [Outside])))"
    using nonempty
    by (intro client_request_answered [OF ex_up ex_skel_mem run _ protobuf_ok_wire _ _ _ _ ok, where rest = "[]"])
       (simp_all add: INT_MAX_def ex_up_sel(3))
  moreover have "socks ?s 7 = Some ?k" by simp
  ultimately show ?thesis using run a by - (rule exI [of _ ?s], rule exI [of _ ?k], simp)
qed

end
