(* ===== verification/KV_ServerMain.thy ===== *)
theory KV_ServerMain
  imports KV_NetServer
begin

text \<open>
  \<^verbatim>\<open>source/server/tree_server.c\<close>: the program that connects to ZooKeeper, opens the listening
  socket, registers the server and runs the main loop. The properties say when its arguments are
  accepted and that a server that starts is up, has its role, and has published the address it
  listens at.
\<close>

section \<open>Definitions\<close>

text \<open>\<^verbatim>\<open>htons\<close> of an \<^verbatim>\<open>int\<close>: its low 16 bits with the bytes swapped.\<close>

definition htons :: "int \<Rightarrow> int" where
  "htons n = (let m = n mod 2 ^ 16 in (m mod 256) * 256 + m div 256)"

text \<open>An \<^verbatim>\<open>int\<close> passed as a \<^verbatim>\<open>short\<close>.\<close>

definition short_of_int :: "int \<Rightarrow> int" where
  "short_of_int n = (n + 2 ^ 15) mod 2 ^ 16 - 2 ^ 15"

definition validate_args :: "string list \<Rightarrow> int" where
  "validate_args argv =
    (if length argv \<noteq> 3 then -1
     else (let serverPort = htons (atoi (argv ! 1)) in if serverPort \<le> 0 then -1 else 0))"

text \<open>The thread of the ZooKeeper client calls it when the children of the root node change.\<close>

definition on_servers_change :: "'s zoo \<Rightarrow> ('s, 'z) zk_scheme \<Rightarrow> ('s, 'z) zk_scheme option" where
  "on_servers_change zoo s =
    (if zk_get_tree_server_role s = BACKUP then do { (r, s) \<leftarrow> zk_update_server_roles zoo s; Some s }
     else Some s)"

text \<open>The program has ended with a status, or it waits in the main loop.\<close>

datatype program = Exited int | Running "pollfd list" int

definition tree_server_main ::
  "protobuf \<Rightarrow> 's zoo \<Rightarrow> (int \<times> ipv4) option \<Rightarrow> int \<Rightarrow> int \<Rightarrow> (int \<times> int \<times> int \<times> int) \<times> int \<times> int
    \<Rightarrow> poll_outcome list \<Rightarrow> string list \<Rightarrow> ('s, 'z) netserver_scheme
    \<Rightarrow> (program \<times> ('s, 'z) netserver_scheme) option" where
  "tree_server_main pb zoo host bind_rc listen_rc pthread_rcs polls argv s =
    (if validate_args argv < 0 then Some (Exited (-1), s)
     else do {
       let serverPort = atoi (argv ! 1);
       (r, s) \<leftarrow> zk_connect zoo (Some (argv ! 2)) s;
       if r < 0 then Some (Exited (-1), zk_close zoo s)
       else do {
         (listening_socket, s) \<leftarrow>
           network_server_init host bind_rc listen_rc pthread_rcs (short_of_int serverPort) s;
         if listening_socket < 0 then Some (Exited (-1), zk_close zoo s)
         else do {
           (r, s) \<leftarrow> zk_register_tree_server zoo listening_socket s;
           if r < 0 then
             Some (Exited (-1), zk_close zoo (snd (network_server_close pb (close_fd listening_socket s))))
           else do {
             let s = zk_register_servers_listener True s;
             (st, s) \<leftarrow> network_main_loop pb polls listening_socket s;
             case st of
               Polling sockets client_sockets_count \<Rightarrow> Some (Running sockets client_sockets_count, s)
             | Returned r \<Rightarrow>
                 Some (Exited 0, zk_close zoo (snd (network_server_close pb (close_fd listening_socket s))))
           }
         }
       }
     })"

section \<open>Lemmas\<close>

lemma htons_zero: "htons n \<le> 0 \<longleftrightarrow> n mod 2 ^ 16 = 0"
proof -
  define m where "m = n mod 2 ^ 16"
  have m: "0 \<le> m" by (simp add: m_def)
  have "0 \<le> (m mod 256) * 256 + m div 256" using m by simp
  moreover have "(m mod 256) * 256 + m div 256 = 0 \<longleftrightarrow> m = 0"
  proof
    assume z: "(m mod 256) * 256 + m div 256 = 0"
    have "0 \<le> m mod 256" "0 \<le> m div 256" using m by simp_all
    with z have "m mod 256 = 0" "m div 256 = 0" by linarith+
    with div_mult_mod_eq [of m 256] show "m = 0" by simp
  qed simp
  moreover have "htons n = (m mod 256) * 256 + m div 256" by (simp only: htons_def m_def Let_def)
  ultimately have "htons n \<le> 0 \<longleftrightarrow> m = 0" by linarith
  then show ?thesis by (simp only: m_def)
qed

lemma short_of_int_mod: "short_of_int n mod 2 ^ 16 = n mod 2 ^ 16"
  by (simp add: short_of_int_def mod_diff_left_eq)

lemma network_server_init_ok:
  assumes "outcomes s = []" "new_fds s = l # fds" "0 \<le> l" "host = Some (AF_INET, ip)"
  shows "\<exists>s'. network_server_init host 0 0 ((0, 0, 0, 0), 0, 0) port s = Some (l, s') \<and>
    skel_inv pb [] 0 s' \<and> sock_names s' = (sock_names s)(l \<mapsto> (ip, nat (port mod 2 ^ 16))) \<and>
    service s' = service s"
proof -
  let ?s = "s\<lparr>new_fds := fds, sock_names := (sock_names s)(l \<mapsto> (ip, nat (port mod 2 ^ 16)))\<rparr>"
  obtain r s' where init: "tree_skel_init (0, 0, 0, 0) 0 0 ?s = (r, s')" by fastforce
  have "outcomes ?s = []" using assms(1) by simp
  note ok = tree_skel_init_inv [OF init this]
  have "sock_names s' = sock_names ?s" "service s' = service ?s"
    using init assms(1)
    by (auto simp: tree_skel_init_def tree_create_def tasks_init_def alloc_simps Let_def SIZE_OF_TREE_T_def)
  then show ?thesis
    using init ok assms(2-4)
    by (simp add: network_server_init_def socket_call_def get_host_def Let_def)
qed

lemma zk_wait_connected_done: "is_connected s \<Longrightarrow> zk_wait_connected n s = s"
  by (cases n) simp_all

lemma zk_connect_ok:
  assumes "zoo_ok zoo nodes" "outcomes s = []" "is_connected s"
    and "zookeeper_init zoo addr (service s) = (True, v)" "nodes v ROOT_ZNODE_PATH \<noteq> None"
    and "zoo_wget_children zoo ROOT_ZNODE_PATH v = (ZOK, c, v)"
  shows "\<exists>n. zk_connect zoo addr s = Some (0, s\<lparr>service := v, live := n\<rparr>)"
  using assms zk_exists_eq [OF assms(1), of ROOT_ZNODE_PATH "s\<lparr>service := v\<rparr>"]
  by (intro exI [of _ "live s"])
     (auto simp: zk_connect_def on_service_def zk_get_children_def String_vector_destroy_def alloc_simps
        Let_def ZOK_def ZNONODE_def zk_wait_connected_done)

text \<open>The node of a role, and the registration of a server when that of the first free role is not there.\<close>

definition role_path :: "ServerRole \<Rightarrow> string" where
  "role_path role = (if role = PRIMARY then PRIMARY_TREE_SERVER_ZNODE_PATH else BACKUP_TREE_SERVER_ZNODE_PATH)"

lemma zk_register_free_role:
  assumes "zoo_ok zoo nodes" "sock_names s fd = Some (ip, port)" "ip_ok ip" "port < 65536"
    and "nodes (service s) (role_path role) = None"
    and "role = (if nodes (service s) PRIMARY_TREE_SERVER_ZNODE_PATH = None then PRIMARY else BACKUP)"
  shows "\<exists>v. zk_register_tree_server zoo fd s = Some (0, s\<lparr>service := v, server_role := role\<rparr>) \<and>
    nodes v = (nodes (service s))(role_path role \<mapsto> address_and_port ip port @ [CHR 0x00])"
proof (cases "nodes (service s) PRIMARY_TREE_SERVER_ZNODE_PATH")
  case None
  then have "role = PRIMARY" using assms(6) by simp
  with None zk_register_roles [OF assms(1-4)] show ?thesis by (auto simp: role_path_def)
next
  case (Some a)
  then have "role = BACKUP" using assms(6) by simp
  with Some assms(5) zk_register_roles [OF assms(1-4)] show ?thesis by (auto simp: role_path_def)
qed

section \<open>Properties\<close>

text \<open>The port argument is accepted exactly when its value is not a multiple of 65536: negative and
  too large numbers pass, and the server then listens at their value modulo 65536.\<close>

theorem validate_args_accepts:
  "validate_args argv \<ge> 0 \<longleftrightarrow> length argv = 3 \<and> atoi (argv ! 1) mod 2 ^ 16 \<noteq> 0"
  using htons_zero [of "atoi (argv ! 1)"] by (auto simp: validate_args_def Let_def)

text \<open>C25: started with valid arguments, with ZooKeeper reachable and a free role, the program is up: the
  tree is there and empty, the server has the first free role, the node of that role holds exactly the
  address and port it listens at, other nodes are untouched, and it waits for clients with none
  connected.\<close>

theorem server_starts:
  fixes s :: "('s, 'z) netserver_scheme"
  assumes "zoo_ok zoo nodes" "validate_args argv = 0" "outcomes s = []" "is_connected s"
    and "zookeeper_init zoo (Some (argv ! 2)) (service s) = (True, v)" "nodes v ROOT_ZNODE_PATH \<noteq> None"
    and "zoo_wget_children zoo ROOT_ZNODE_PATH v = (ZOK, c, v)"
    and "new_fds s = l # fds" "0 \<le> l" "ip_ok ip"
    and "nodes v (role_path role) = None"
    and "role = (if nodes v PRIMARY_TREE_SERVER_ZNODE_PATH = None then PRIMARY else BACKUP)"
  shows "\<exists>s'. tree_server_main pb zoo (Some (AF_INET, ip)) 0 0 ((0, 0, 0, 0), 0, 0) [] argv s =
      Some (Running (initial_sockets l) 0, s') \<and>
    tree s' = Some (tree_of NullNode) \<and> server_role s' = role \<and> servers_listener s' \<and>
    nodes (service s') = (nodes v)(role_path role \<mapsto>
        address_and_port ip (nat (atoi (argv ! 1) mod 2 ^ 16)) @ [CHR 0x00])"
proof -
  obtain n where 1: "zk_connect zoo (Some (argv ! 2)) s = Some (0, s\<lparr>service := v, live := n\<rparr>)"
    using zk_connect_ok [OF assms(1,3,4,5,6,7)] by blast
  let ?s1 = "s\<lparr>service := v, live := n\<rparr>" and ?port = "short_of_int (atoi (argv ! 1))"
  have "outcomes ?s1 = []" "new_fds ?s1 = l # fds" using assms(3,8) by simp_all
  from network_server_init_ok [OF this assms(9) refl, of ip ?port pb]
  obtain s2 where 2: "network_server_init (Some (AF_INET, ip)) 0 0 ((0, 0, 0, 0), 0, 0) ?port ?s1 = Some (l, s2)"
      "skel_inv pb [] 0 s2" "service s2 = v"
      "sock_names s2 l = Some (ip, nat (?port mod 2 ^ 16))"
    by auto
  have port: "nat (?port mod 2 ^ 16) = nat (atoi (argv ! 1) mod 2 ^ 16)" by (simp only: short_of_int_mod)
  have "nat (?port mod 2 ^ 16) < 65536" by (simp add: nat_less_iff)
  from zk_register_free_role [OF assms(1) 2(4) assms(10) this assms(11,12) [folded 2(3)]] obtain v2 where
      3: "zk_register_tree_server zoo l s2 = Some (0, s2\<lparr>service := v2, server_role := role\<rparr>)"
      "nodes v2 = (nodes v)(role_path role \<mapsto> address_and_port ip (nat (atoi (argv ! 1) mod 2 ^ 16)) @ [CHR 0x00])"
    unfolding port 2(3) by blast
  obtain t where t: "tree s2 = Some t" "tree_ok t" "t_size t \<le> 0"
    using 2(2) by (auto simp: skel_inv_def)
  then have "node_size (t_root t) = 0" using node_size_nonneg [of "t_root t"] by (simp add: tree_ok_def)
  then have "t = tree_of NullNode" using t(2) tree_ok_of [of t] by simp
  then show ?thesis
    using 1 2(1) 3 assms(2,9) t(1)
    by (simp add: tree_server_main_def network_main_loop_def zk_register_servers_listener_def Let_def)
qed

definition ex_argv :: "string list" where
  "ex_argv = [''tree_server'', ''5000'', ''127.0.0.1:2181'']"

lemma ex_argv_port: "atoi (ex_argv ! 1) = 5000"
  by (simp add: ex_argv_def atoi_def decimal_def is_space_def is_digit_def digit_value_def int_wrap_def)

theorem server_starts_witness:
  "\<exists>s s'. tree_server_main wire_protobuf table_zoo (Some (AF_INET, (127, 0, 0, 1))) 0 0 ((0, 0, 0, 0), 0, 0) []
      ex_argv s = Some (Running (initial_sockets 3) 0, s') \<and>
    tree (s' :: (string \<Rightarrow> string option) netserver) = Some (tree_of NullNode) \<and> server_role s' = PRIMARY \<and>
    service s' = [ROOT_ZNODE_PATH \<mapsto> [], PRIMARY_TREE_SERVER_ZNODE_PATH \<mapsto>
      address_and_port (127, 0, 0, 1) 5000 @ [CHR 0x00]]"
proof -
  let ?s = "ex_server0\<lparr>service := [ROOT_ZNODE_PATH \<mapsto> []], is_connected := True, new_fds := [3]\<rparr>"
  have args: "validate_args ex_argv = 0"
    using ex_argv_port by (simp add: validate_args_def htons_def Let_def ex_argv_def)
  have "\<exists>s'. tree_server_main wire_protobuf table_zoo (Some (AF_INET, (127, 0, 0, 1))) 0 0 ((0, 0, 0, 0), 0, 0) []
      ex_argv ?s = Some (Running (initial_sockets 3) 0, s') \<and>
    tree s' = Some (tree_of NullNode) \<and> server_role s' = PRIMARY \<and> servers_listener s' \<and>
    service s' = [ROOT_ZNODE_PATH \<mapsto> []](role_path PRIMARY \<mapsto>
        address_and_port (127, 0, 0, 1) (nat (atoi (ex_argv ! 1) mod 2 ^ 16)) @ [CHR 0x00])"
    by (rule server_starts [OF zoo_ok_table args, where c = "[]" and fds = "[]"])
       (simp_all add: table_zoo_def ROOT_ZNODE_PATH_def zk_paths ip_ok_def role_path_def)
  then obtain s' where "tree_server_main wire_protobuf table_zoo (Some (AF_INET, (127, 0, 0, 1))) 0 0
      ((0, 0, 0, 0), 0, 0) [] ex_argv ?s = Some (Running (initial_sockets 3) 0, s')"
    "tree s' = Some (tree_of NullNode)" "server_role s' = PRIMARY"
    "service s' = [ROOT_ZNODE_PATH \<mapsto> [], PRIMARY_TREE_SERVER_ZNODE_PATH \<mapsto>
      address_and_port (127, 0, 0, 1) 5000 @ [CHR 0x00]]"
    unfolding ex_argv_port role_path_def by auto
  then show ?thesis by blast
qed

end
