(* ===== verification/KV_Client.thy ===== *)
theory KV_Client
  imports KV_Zk
begin

text \<open>
  \<^verbatim>\<open>source/client/network_client.c\<close> and \<^verbatim>\<open>source/client/client_stub.c\<close>: the remote tree that a client
  program uses. The stub finds the two servers in ZooKeeper, connects to both, sends queries to the
  backup and writes to the primary, and turns answers into results. A pointer field that was freed
  and not overwritten is dangling: reading or freeing it again is undefined.
\<close>

section \<open>Definitions\<close>

datatype 'a ptr = Null | Ptr 'a | Freed

fun deref :: "'a ptr \<Rightarrow> 'a option option" where
  "deref Null = Some None"
| "deref (Ptr a) = Some (Some a)"
| "deref Freed = None"

fun free_ptr :: "'a ptr \<Rightarrow> 'z heap_scheme \<Rightarrow> 'z heap_scheme option" where
  "free_ptr Null h = Some h"
| "free_ptr (Ptr a) h = Some (free (Some a) h)"
| "free_ptr Freed h = None"

fun freed :: "'a ptr \<Rightarrow> 'a ptr" where
  "freed Null = Null"
| "freed (Ptr a) = Freed"
| "freed Freed = Freed"

record rtree_t =
  primary_server_ip_address :: "string ptr"
  primary_server_port :: int
  primary_sockfd :: int
  backup_server_ip_address :: "string ptr"
  backup_server_port :: int
  backup_sockfd :: int

record 's client = "'s zk" +
  are_servers_connected :: bool

definition SIZE_OF_RTREE :: int where "SIZE_OF_RTREE = 32"

definition network_connect ::
  "rtree_t option \<Rightarrow> ('s, 'z) client_scheme \<Rightarrow> (int \<times> rtree_t option \<times> ('s, 'z) client_scheme) option" where
  "network_connect rtree s =
    (case rtree of
       None \<Rightarrow> Some (-1, rtree, s)
     | Some rt \<Rightarrow> do {
         ip \<leftarrow> deref (primary_server_ip_address rt);
         (fd, s) \<leftarrow> server_connect ip (primary_server_port rt) s;
         let rt = rt\<lparr>primary_sockfd := fd\<rparr>;
         if fd < 0 then Some (-1, Some rt, s)
         else do {
           ip \<leftarrow> deref (backup_server_ip_address rt);
           (fd, s) \<leftarrow> server_connect ip (backup_server_port rt) s;
           let rt = rt\<lparr>backup_sockfd := fd\<rparr>;
           if fd < 0 then
             (let rt = rt\<lparr>primary_sockfd := -1\<rparr>
              in Some (-1, Some rt, close_fd (primary_sockfd rt) s))
           else Some (0, Some rt, s)
         }
       })"

text \<open>The connection a request goes to.\<close>

definition request_sockfd :: "rtree_t \<Rightarrow> int \<Rightarrow> int option" where
  "request_sockfd rt op_code =
    (if op_code \<in> {OP_SIZE, OP_GET, OP_GETKEYS, OP_HEIGHT, OP_VERIFY} then Some (backup_sockfd rt)
     else if op_code \<in> {OP_DEL, OP_PUT} then Some (primary_sockfd rt)
     else None)"

definition network_send_receive ::
  "protobuf \<Rightarrow> rtree_t option \<Rightarrow> message_t option \<Rightarrow> 'z net_scheme
    \<Rightarrow> (message_t option \<times> 'z net_scheme) option" where
  "network_send_receive pb rtree msg s =
    (case (rtree, Option.bind msg mt_msg) of
       (Some rt, Some m) \<Rightarrow>
         (case request_sockfd rt (m_op_code m) of
            None \<Rightarrow> Some (None, s)
          | Some sockfd \<Rightarrow> do {
              (r, s) \<leftarrow> network_send_message pb sockfd msg s;
              if r < 0 then Some (None, s) else network_receive_message pb sockfd s
            })
     | _ \<Rightarrow> Some (None, s))"

text \<open>\<^verbatim>\<open>close\<close> fails on a descriptor that is not open.\<close>

definition close_call :: "int \<Rightarrow> 'z net_scheme \<Rightarrow> int \<times> 'z net_scheme" where
  "close_call fd s = (if socks s fd = None then -1 else 0, close_fd fd s)"

definition network_close :: "rtree_t option \<Rightarrow> 'z net_scheme \<Rightarrow> int \<times> 'z net_scheme" where
  "network_close rtree s =
    (case rtree of
       None \<Rightarrow> (-1, s)
     | Some rt \<Rightarrow>
         (case (if primary_sockfd rt \<le> 0 then (0, s) else close_call (primary_sockfd rt) s) of (primary_res, s) \<Rightarrow>
          case (if backup_sockfd rt \<le> 0 then (0, s) else close_call (backup_sockfd rt) s) of (backup_res, s) \<Rightarrow>
            (if primary_res < 0 \<or> backup_res < 0 then -1 else 0, s)))"

definition rtree_destroy :: "rtree_t option \<Rightarrow> 'z heap_scheme \<Rightarrow> 'z heap_scheme option" where
  "rtree_destroy rtree h =
    (case rtree of
       None \<Rightarrow> Some h
     | Some rt \<Rightarrow> do {
         h \<leftarrow> free_ptr (primary_server_ip_address rt) h;
         h \<leftarrow> free_ptr (backup_server_ip_address rt) h;
         Some (free (Some rt) h)
       })"

text \<open>The address that \<^verbatim>\<open>parse_address_port\<close> wrote; unchanged when it failed.\<close>

definition ptr_of :: "string option \<Rightarrow> string ptr" where
  "ptr_of a = (case a of None \<Rightarrow> Null | Some x \<Rightarrow> Ptr x)"

definition parse_primary ::
  "string option \<Rightarrow> rtree_t \<Rightarrow> 'z heap_scheme \<Rightarrow> int \<times> rtree_t \<times> 'z heap_scheme" where
  "parse_primary address_port rt h =
    (case parse_address_port address_port None None h of
       (r, Some ip, Some port, h) \<Rightarrow>
         (r, rt\<lparr>primary_server_ip_address := ptr_of ip, primary_server_port := port\<rparr>, h)
     | (r, _, _, h) \<Rightarrow> (r, rt, h))"

definition parse_backup ::
  "string option \<Rightarrow> rtree_t \<Rightarrow> 'z heap_scheme \<Rightarrow> int \<times> rtree_t \<times> 'z heap_scheme" where
  "parse_backup address_port rt h =
    (case parse_address_port address_port None None h of
       (r, Some ip, Some port, h) \<Rightarrow>
         (r, rt\<lparr>backup_server_ip_address := ptr_of ip, backup_server_port := port\<rparr>, h)
     | (r, _, _, h) \<Rightarrow> (r, rt, h))"

definition servers_retry_connect ::
  "'s zoo \<Rightarrow> rtree_t option \<Rightarrow> ('s, 'z) client_scheme
    \<Rightarrow> (int \<times> rtree_t option \<times> ('s, 'z) client_scheme) option" where
  "servers_retry_connect zoo rtree s = do {
     (primary_address_port, s) \<leftarrow> zk_get_primary_tree_server zoo s;
     (backup_address_port, s) \<leftarrow> zk_get_backup_tree_server zoo s;
     rt \<leftarrow> rtree;
     s \<leftarrow> free_ptr (primary_server_ip_address rt) s;
     let rt = rt\<lparr>primary_server_ip_address := freed (primary_server_ip_address rt),
                  primary_server_port := -1, primary_sockfd := -1\<rparr>;
     s \<leftarrow> free_ptr (backup_server_ip_address rt) s;
     let rt = rt\<lparr>backup_server_ip_address := freed (backup_server_ip_address rt),
                  backup_server_port := -1, backup_sockfd := -1\<rparr>;
     (r, rtree, s) \<leftarrow>
       (if primary_address_port = None \<or> backup_address_port = None then Some (-1, Some rt, s)
        else (case parse_primary primary_address_port rt s of (r, rt, s) \<Rightarrow>
          if r < 0 then Some (-1, Some rt, s)
          else (case parse_backup backup_address_port rt s of (r, rt, s) \<Rightarrow>
            if r < 0 then Some (-1, Some rt, s) else network_connect (Some rt) s)));
     let s = free backup_address_port (free primary_address_port s);
     if r < 0 then Some (-1, rtree, s) else Some (0, rtree, s\<lparr>are_servers_connected := True\<rparr>)
   }"

definition on_servers_changed :: "rtree_t option \<Rightarrow> ('s, 'z) client_scheme \<Rightarrow> ('s, 'z) client_scheme" where
  "on_servers_changed rtree s = (snd (network_close rtree s))\<lparr>are_servers_connected := False\<rparr>"

definition rtree_connect ::
  "'s zoo \<Rightarrow> string option \<Rightarrow> ('s, 'z) client_scheme \<Rightarrow> (rtree_t option \<times> ('s, 'z) client_scheme) option" where
  "rtree_connect zoo address_port s =
    (if address_port = None then Some (None, s)
     else do {
       (r, s) \<leftarrow> zk_connect zoo address_port s;
       if r < 0 then Some (None, zk_close zoo s)
       else (case malloc SIZE_OF_RTREE s of (ok, s) \<Rightarrow>
         if \<not> ok then Some (None, s)
         else do {
           let rtree = \<lparr>primary_server_ip_address = Null, primary_server_port = -1, primary_sockfd = -1,
                        backup_server_ip_address = Null, backup_server_port = -1, backup_sockfd = -1\<rparr>;
           (_, rtree, s) \<leftarrow> servers_retry_connect zoo (Some rtree) s;
           let s = zk_register_servers_listener True s;
           Some (rtree, s)
         })
     })"

definition rtree_are_servers_connected :: "('s, 'z) client_scheme \<Rightarrow> bool" where
  "rtree_are_servers_connected s = are_servers_connected s"

definition rtree_disconnect ::
  "'s zoo \<Rightarrow> rtree_t option \<Rightarrow> ('s, 'z) client_scheme \<Rightarrow> (int \<times> ('s, 'z) client_scheme) option" where
  "rtree_disconnect zoo rtree s =
    (case network_close rtree s of (close_result, s) \<Rightarrow> do {
       let s = zk_close zoo (s\<lparr>are_servers_connected := False\<rparr>);
       s \<leftarrow> rtree_destroy rtree s;
       Some (if close_result < 0 then -1 else 0, s)
     })"


text \<open>The remote operations: build the request, exchange it for a response, read the response.\<close>

definition rtree_put ::
  "protobuf \<Rightarrow> rtree_t option \<Rightarrow> entry_t option \<Rightarrow> 'z net_scheme \<Rightarrow> (int \<times> 'z net_scheme) option" where
  "rtree_put pb rtree entry s =
    (if entry = None then Some (-1, s)
     else (case message_create s of (request, s) \<Rightarrow>
       if request = None then Some (-1, s)
       else do {
         (entry_msg, s) \<leftarrow> entry_to_msg entry s;
         let request = Some \<lparr>mt_msg = Some \<lparr>m_op_code = OP_PUT, m_content = CEntry entry_msg\<rparr>\<rparr>;
         (response, s) \<leftarrow> network_send_receive pb rtree request s;
         let s = message_destroy pb request s;
         case response of
           None \<Rightarrow> Some (-1, s)
         | Some r \<Rightarrow> do {
             m \<leftarrow> mt_msg r;
             if m_op_code m = OP_ERROR then Some (-1, message_destroy pb response s)
             else (case m_content m of
               COpId op_id \<Rightarrow> Some (op_id, message_destroy pb response s)
             | _ \<Rightarrow> Some (-1, message_destroy pb response s))
           }
       }))"

definition rtree_get ::
  "protobuf \<Rightarrow> rtree_t option \<Rightarrow> string option \<Rightarrow> 'z net_scheme \<Rightarrow> (data_t option \<times> 'z net_scheme) option" where
  "rtree_get pb rtree key s =
    (case key of
       None \<Rightarrow> Some (None, s)
     | Some k \<Rightarrow> (case message_create s of (request, s) \<Rightarrow>
         if request = None then Some (None, s)
         else do {
           let (copied, s) = strdup k s;
           let request = Some \<lparr>mt_msg = Some \<lparr>m_op_code = OP_GET, m_content = CKey copied\<rparr>\<rparr>;
           (response, s) \<leftarrow> network_send_receive pb rtree request s;
           let s = message_destroy pb request s;
           case response of
             None \<Rightarrow> Some (None, s)
           | Some r \<Rightarrow> do {
               m \<leftarrow> mt_msg r;
               if m_op_code m = OP_ERROR then Some (None, message_destroy pb response s)
               else (case m_content m of
                 CValue val \<Rightarrow> do {
                   (ret, s) \<leftarrow> msg_to_data val s;
                   Some (ret, message_destroy pb response s)
                 }
               | _ \<Rightarrow> Some (None, message_destroy pb response s))
             }
         }))"

definition rtree_del ::
  "protobuf \<Rightarrow> rtree_t option \<Rightarrow> string option \<Rightarrow> 'z net_scheme \<Rightarrow> (int \<times> 'z net_scheme) option" where
  "rtree_del pb rtree key s =
    (case key of
       None \<Rightarrow> Some (-1, s)
     | Some k \<Rightarrow> (case message_create s of (request, s) \<Rightarrow>
         if request = None then Some (-1, s)
         else do {
           let (copied, s) = strdup k s;
           let request = Some \<lparr>mt_msg = Some \<lparr>m_op_code = OP_DEL, m_content = CKey copied\<rparr>\<rparr>;
           (response, s) \<leftarrow> network_send_receive pb rtree request s;
           let s = message_destroy pb request s;
           case response of
             None \<Rightarrow> Some (-1, s)
           | Some r \<Rightarrow> do {
               m \<leftarrow> mt_msg r;
               if m_op_code m = OP_ERROR then Some (-1, message_destroy pb response s)
               else (case m_content m of
                 COpId op_id \<Rightarrow> Some (op_id, message_destroy pb response s)
               | _ \<Rightarrow> Some (-1, message_destroy pb response s))
             }
         }))"

definition rtree_size :: "protobuf \<Rightarrow> rtree_t option \<Rightarrow> 'z net_scheme \<Rightarrow> (int \<times> 'z net_scheme) option" where
  "rtree_size pb rtree s =
    (case message_create s of (request, s) \<Rightarrow>
       if request = None then Some (-1, s)
       else do {
         let request = Some \<lparr>mt_msg = Some \<lparr>m_op_code = OP_SIZE, m_content = CNone\<rparr>\<rparr>;
         (response, s) \<leftarrow> network_send_receive pb rtree request s;
         let s = message_destroy pb request s;
         case response of
           None \<Rightarrow> Some (-1, s)
         | Some r \<Rightarrow> do {
             m \<leftarrow> mt_msg r;
             if m_op_code m = OP_ERROR then Some (-1, message_destroy pb response s)
             else (case m_content m of
               CIntResult ret \<Rightarrow> Some (ret, message_destroy pb response s)
             | _ \<Rightarrow> Some (-1, message_destroy pb response s))
           }
       })"

definition rtree_height :: "protobuf \<Rightarrow> rtree_t option \<Rightarrow> 'z net_scheme \<Rightarrow> (int \<times> 'z net_scheme) option" where
  "rtree_height pb rtree s =
    (case message_create s of (request, s) \<Rightarrow>
       if request = None then Some (-2, s)
       else do {
         let request = Some \<lparr>mt_msg = Some \<lparr>m_op_code = OP_HEIGHT, m_content = CNone\<rparr>\<rparr>;
         (response, s) \<leftarrow> network_send_receive pb rtree request s;
         let s = message_destroy pb request s;
         case response of
           None \<Rightarrow> Some (-2, s)
         | Some r \<Rightarrow> do {
             m \<leftarrow> mt_msg r;
             if m_op_code m = OP_ERROR then Some (-2, message_destroy pb response s)
             else (case m_content m of
               CIntResult ret \<Rightarrow> Some (ret, message_destroy pb response s)
             | _ \<Rightarrow> Some (-2, message_destroy pb response s))
           }
       })"

definition rtree_get_keys ::
  "protobuf \<Rightarrow> rtree_t option \<Rightarrow> 'z net_scheme \<Rightarrow> (keys_array option \<times> 'z net_scheme) option" where
  "rtree_get_keys pb rtree s =
    (case message_create s of (request, s) \<Rightarrow>
       if request = None then Some (None, s)
       else do {
         let request = Some \<lparr>mt_msg = Some \<lparr>m_op_code = OP_GETKEYS, m_content = CNone\<rparr>\<rparr>;
         (response, s) \<leftarrow> network_send_receive pb rtree request s;
         let s = message_destroy pb request s;
         case response of
           None \<Rightarrow> Some (None, s)
         | Some r \<Rightarrow> do {
             m \<leftarrow> mt_msg r;
             if m_op_code m = OP_ERROR then Some (None, message_destroy pb response s)
             else (case m_content m of
               CKeys ks \<Rightarrow> do {
                 (ret, s) \<leftarrow> msg_to_keys ks s;
                 Some (ret, message_destroy pb response s)
               }
             | _ \<Rightarrow> Some (None, message_destroy pb response s))
           }
       })"

definition rtree_verify ::
  "protobuf \<Rightarrow> rtree_t option \<Rightarrow> int \<Rightarrow> 'z net_scheme \<Rightarrow> (int \<times> 'z net_scheme) option" where
  "rtree_verify pb rtree op_id s =
    (case message_create s of (request, s) \<Rightarrow>
       if request = None then Some (-1, s)
       else do {
         let request = Some \<lparr>mt_msg = Some \<lparr>m_op_code = OP_VERIFY, m_content = COpId op_id\<rparr>\<rparr>;
         (response, s) \<leftarrow> network_send_receive pb rtree request s;
         let s = message_destroy pb request s;
         case response of
           None \<Rightarrow> Some (-1, s)
         | Some r \<Rightarrow> do {
             m \<leftarrow> mt_msg r;
             if m_op_code m = OP_ERROR then Some (-1, message_destroy pb response s)
             else (case m_content m of
               CIntResult op_result \<Rightarrow> Some (op_result, message_destroy pb response s)
             | _ \<Rightarrow> Some (-1, message_destroy pb response s))
           }
       })"

text \<open>It only logs that it is not implemented.\<close>

definition rtree_free_keys :: "keys_array option \<Rightarrow> 'z heap_scheme \<Rightarrow> 'z heap_scheme" where
  "rtree_free_keys keys h = h"


section \<open>One exchange\<close>

text \<open>A connection on which a reply is on its way.\<close>

definition reply_ready ::
  "protobuf \<Rightarrow> 'z net_scheme \<Rightarrow> int \<Rightarrow> socket \<Rightarrow> message \<Rightarrow> message \<Rightarrow> byte list \<Rightarrow> bool" where
  "reply_ready pb s fd k request reply rest \<longleftrightarrow>
    outcomes s = [] \<and> socks s fd = Some k \<and> WriteErr \<notin> set (s_out k) \<and>
    stream (s_in k) = Some (wire_frame pb reply @ rest) \<and> messages_ok pb [request, reply]"

text \<open>The connection after the exchange.\<close>

definition exchanged :: "protobuf \<Rightarrow> message \<Rightarrow> byte list \<Rightarrow> socket \<Rightarrow> socket \<Rightarrow> bool" where
  "exchanged pb request rest k k' \<longleftrightarrow>
    s_sent k' = s_sent k @ wire_frame pb request \<and> stream (s_in k') = Some rest \<and> WriteErr \<notin> set (s_out k')"

lemma reply_ready_live [simp]:
  "reply_ready pb (s\<lparr>live := n\<rparr>) fd k request reply rest = reply_ready pb s fd k request reply rest"
  by (simp add: reply_ready_def)

lemma exchange:
  assumes "protobuf_ok pb" "reply_ready pb s fd k request reply rest"
    and "request_sockfd rt (m_op_code request) = Some fd"
  shows "\<exists>k'. network_send_receive pb (Some rt) (Some \<lparr>mt_msg = Some request\<rparr>) s =
      Some (Some \<lparr>mt_msg = Some (message_wire reply)\<rparr>,
        s\<lparr>socks := (socks s)(fd \<mapsto> k'), live := live s + message_blocks (Some (message_wire reply)) + 1\<rparr>) \<and>
    exchanged pb request rest k k'"
proof -
  note r = assms(2) [unfolded reply_ready_def]
  obtain es where 1: "network_send_message pb fd (Some \<lparr>mt_msg = Some request\<rparr>) s =
      Some (0, set_out fd es (wire_frame pb request) s)" "WriteErr \<notin> set es"
    using network_send_message_ok [of s request pb fd k] r by (auto simp: messages_ok_def)
  let ?s = "set_out fd es (wire_frame pb request) s"
  let ?k = "k\<lparr>s_out := es, s_sent := s_sent k @ wire_frame pb request\<rparr>"
  obtain es' where 2: "network_receive_message pb fd ?s = Some (Some \<lparr>mt_msg = Some (message_wire reply)\<rparr>,
      (set_in fd es' ?s)\<lparr>live := live ?s + message_blocks (Some (message_wire reply)) + 1\<rparr>)"
    "stream es' = Some rest"
    using network_receive_message_ok [OF assms(1), of ?s reply fd ?k rest] r
    by (auto simp: messages_ok_def set_out_def)
  show ?thesis
    using 1 2 r assms(3)
    by (intro exI [of _ "?k\<lparr>s_in := es'\<rparr>"])
       (simp add: network_send_receive_def set_in_def set_out_def exchanged_def)
qed


lemma exchange_from:
  assumes "protobuf_ok pb" "reply_ready pb s fd k request reply rest"
    and "request_sockfd rt (m_op_code request) = Some fd"
  shows "\<exists>k'. network_send_receive pb (Some rt) (Some \<lparr>mt_msg = Some request\<rparr>) (s\<lparr>live := n\<rparr>) =
      Some (Some \<lparr>mt_msg = Some (message_wire reply)\<rparr>,
        s\<lparr>socks := (socks s)(fd \<mapsto> k'), live := n + message_blocks (Some (message_wire reply)) + 1\<rparr>) \<and>
    exchanged pb request rest k k'"
  using exchange [of pb "s\<lparr>live := n\<rparr>" fd k request reply rest rt] assms by simp

text \<open>What each operation sends, and what it makes of the reply.\<close>

definition put_request :: "entry_t \<Rightarrow> message" where
  "put_request e = \<lparr>m_op_code = OP_PUT, m_content = CEntry (Some (msg_of_entry e))\<rparr>"

definition del_request :: "string \<Rightarrow> message" where
  "del_request key = \<lparr>m_op_code = OP_DEL, m_content = CKey (Some key)\<rparr>"

definition get_request :: "string \<Rightarrow> message" where
  "get_request key = \<lparr>m_op_code = OP_GET, m_content = CKey (Some key)\<rparr>"

definition query_request :: "int \<Rightarrow> message" where
  "query_request op = \<lparr>m_op_code = op, m_content = CNone\<rparr>"

definition verify_request :: "int \<Rightarrow> message" where
  "verify_request op_id = \<lparr>m_op_code = OP_VERIFY, m_content = COpId op_id\<rparr>"

lemmas requests = put_request_def del_request_def get_request_def query_request_def verify_request_def

definition op_id_result :: "message \<Rightarrow> int" where
  "op_id_result m = (if m_op_code m = OP_ERROR then -1 else case m_content m of COpId n \<Rightarrow> n | _ \<Rightarrow> -1)"

definition int_result :: "int \<Rightarrow> message \<Rightarrow> int" where
  "int_result err m = (if m_op_code m = OP_ERROR then err else case m_content m of CIntResult n \<Rightarrow> n | _ \<Rightarrow> err)"

definition value_result :: "message \<Rightarrow> data_t option" where
  "value_result m = (if m_op_code m = OP_ERROR then None
     else case m_content m of CValue (Some v) \<Rightarrow> Some (data_of_msg (data_wire v)) | _ \<Rightarrow> None)"

definition keys_result :: "message \<Rightarrow> keys_array option" where
  "keys_result m = (if m_op_code m = OP_ERROR then None
     else case m_content m of CKeys (Some ks) \<Rightarrow>
       Some (case km_keys ks of None \<Rightarrow> [Some None] | Some a \<Rightarrow> a @ [Some None]) | _ \<Rightarrow> None)"

lemmas results = op_id_result_def int_result_def value_result_def keys_result_def

lemma message_wire_sel [simp]:
  "m_op_code (message_wire m) = m_op_code m" "m_content (message_wire m) = content_wire (m_content m)"
  by (simp_all add: message_wire_def)

lemma client_destroy [simp]:
  "protobuf_ok pb \<Longrightarrow> message_destroy pb (Some \<lparr>mt_msg = Some m\<rparr>) s =
    s\<lparr>live := live s - message_blocks (Some m) - 1\<rparr>"
  by (simp add: message_destroy_def Message_destroy_def protobuf_ok_def free_def)

lemma rtree_put_exchange:
  assumes "protobuf_ok pb" "entry_sendable e" "reply_ready pb s (primary_sockfd rt) k (put_request e) reply rest"
  shows "\<exists>k'. rtree_put pb (Some rt) (Some e) s =
      Some (op_id_result reply, s\<lparr>socks := (socks s)(primary_sockfd rt \<mapsto> k')\<rparr>) \<and>
    exchanged pb (put_request e) rest k k'"
proof -
  have "outcomes s = []" using assms(3) by (simp add: reply_ready_def)
  with exchange_from [OF assms(1,3), of rt "live s + 2 + entry_message_blocks (Some (msg_of_entry e))"] assms(1,2)
  show ?thesis
    by (cases "m_content reply")
       (auto simp: Let_def rtree_put_def alloc_simps put_request_def op_id_result_def message_blocks_def
          request_sockfd_def op_codes)
qed


lemma rtree_del_exchange:
  assumes "protobuf_ok pb" "reply_ready pb s (primary_sockfd rt) k (del_request key) reply rest"
  shows "\<exists>k'. rtree_del pb (Some rt) (Some key) s =
      Some (op_id_result reply, s\<lparr>socks := (socks s)(primary_sockfd rt \<mapsto> k')\<rparr>) \<and>
    exchanged pb (del_request key) rest k k'"
proof -
  have "outcomes s = []" using assms(2) by (simp add: reply_ready_def)
  with exchange_from [OF assms, of rt "3 + live s"] assms(1)
  show ?thesis
    by (cases "m_content reply")
       (auto simp: Let_def rtree_del_def op_id_result_def del_request_def alloc_simps message_blocks_def
          request_sockfd_def op_codes)
qed

lemma rtree_size_exchange:
  assumes "protobuf_ok pb" "reply_ready pb s (backup_sockfd rt) k (query_request OP_SIZE) reply rest"
  shows "\<exists>k'. rtree_size pb (Some rt) s =
      Some (int_result (-1) reply, s\<lparr>socks := (socks s)(backup_sockfd rt \<mapsto> k')\<rparr>) \<and>
    exchanged pb (query_request OP_SIZE) rest k k'"
proof -
  have "outcomes s = []" using assms(2) by (simp add: reply_ready_def)
  with exchange_from [OF assms, of rt "live s + 2"] assms(1)
  show ?thesis
    by (cases "m_content reply")
       (auto simp: Let_def rtree_size_def int_result_def query_request_def alloc_simps message_blocks_def
          request_sockfd_def op_codes)
qed

lemma rtree_height_exchange:
  assumes "protobuf_ok pb" "reply_ready pb s (backup_sockfd rt) k (query_request OP_HEIGHT) reply rest"
  shows "\<exists>k'. rtree_height pb (Some rt) s =
      Some (int_result (-2) reply, s\<lparr>socks := (socks s)(backup_sockfd rt \<mapsto> k')\<rparr>) \<and>
    exchanged pb (query_request OP_HEIGHT) rest k k'"
proof -
  have "outcomes s = []" using assms(2) by (simp add: reply_ready_def)
  with exchange_from [OF assms, of rt "live s + 2"] assms(1)
  show ?thesis
    by (cases "m_content reply")
       (auto simp: Let_def rtree_height_def int_result_def query_request_def alloc_simps message_blocks_def
          request_sockfd_def op_codes)
qed

lemma rtree_verify_exchange:
  assumes "protobuf_ok pb" "reply_ready pb s (backup_sockfd rt) k (verify_request i) reply rest"
  shows "\<exists>k'. rtree_verify pb (Some rt) i s =
      Some (int_result (-1) reply, s\<lparr>socks := (socks s)(backup_sockfd rt \<mapsto> k')\<rparr>) \<and>
    exchanged pb (verify_request i) rest k k'"
proof -
  have "outcomes s = []" using assms(2) by (simp add: reply_ready_def)
  with exchange_from [OF assms, of rt "live s + 2"] assms(1)
  show ?thesis
    by (cases "m_content reply")
       (auto simp: Let_def rtree_verify_def int_result_def verify_request_def alloc_simps message_blocks_def
          request_sockfd_def op_codes)
qed

lemma data_blocks_wire: "data_message_ok v \<Longrightarrow> data_message_ok (data_wire v)"
  by (auto simp: data_message_ok_def data_wire_def INT_MAX_def)

lemma rtree_get_exchange:
  assumes "protobuf_ok pb" "reply_ready pb s (backup_sockfd rt) k (get_request key) reply rest"
  shows "\<exists>k'. rtree_get pb (Some rt) (Some key) s =
      Some (value_result reply, s\<lparr>socks := (socks s)(backup_sockfd rt \<mapsto> k'),
        live := live s + data_blocks (value_result reply)\<rparr>) \<and>
    exchanged pb (get_request key) rest k k'"
proof -
  have "outcomes s = []" "message_ok reply"
    using assms(2) by (simp_all add: reply_ready_def messages_ok_def)
  with exchange_from [OF assms, of rt "3 + live s"] assms(1)
  show ?thesis
    by (cases "m_content reply")
       (auto simp: Let_def rtree_get_def value_result_def get_request_def alloc_simps message_blocks_def
          request_sockfd_def op_codes data_blocks_def message_ok_def msg_to_data_ok data_blocks_wire
          split: option.splits, (metis add.commute)+)
qed

lemma keys_slots [simp]:
  "(case km_keys (keys_message_of ks) of None \<Rightarrow> [Some None] | Some a \<Rightarrow> a @ [Some None]) = keys_array_of ks"
  by (simp add: keys_message_of_def keys_array_of_def)

lemma length_keys_array [simp]: "length (keys_array_of ks) = Suc (length ks)"
  by (simp add: keys_array_of_def)

lemma rtree_get_keys_exchange:
  assumes "protobuf_ok pb" "reply_ready pb s (backup_sockfd rt) k (query_request OP_GETKEYS) reply rest"
  shows "\<exists>k'. rtree_get_keys pb (Some rt) s =
      Some (keys_result reply, s\<lparr>socks := (socks s)(backup_sockfd rt \<mapsto> k'),
        live := live s + (case keys_result reply of None \<Rightarrow> 0 | Some a \<Rightarrow> int (length a))\<rparr>) \<and>
    exchanged pb (query_request OP_GETKEYS) rest k k'"
proof -
  have "outcomes s = []" "message_ok reply"
    using assms(2) by (simp_all add: reply_ready_def messages_ok_def)
  with exchange_from [OF assms, of rt "live s + 2"] assms(1)
  show ?thesis
    by (cases "m_content reply")
       (auto simp: Let_def rtree_get_keys_def keys_result_def query_request_def alloc_simps message_blocks_def
          request_sockfd_def op_codes message_ok_def keys_message_ok_def msg_to_keys_ok split: option.split_asm, metis add.left_commute)
qed


section \<open>Connecting\<close>

lemma server_connect_ok:
  assumes "ip_ok ip" "port < 65536" "new_fds s = fd # fds" "0 \<le> fd" "connects s = Connected k # cs"
  shows "server_connect (Some (inet_ntoa ip)) (int port) s = Some (fd, s\<lparr>new_fds := fds, connects := cs,
    dialled := (inet_ntoa ip, port) # dialled s, socks := (socks s)(fd \<mapsto> k)\<rparr>)"
proof -
  have "int port mod 65536 = int port" using assms(2) by simp
  then show ?thesis
    using assms inet_pton_ntoa [OF assms(1)]
    by (simp add: server_connect_def socket_call_def connect_call_def Let_def)
qed

lemma server_connect_refused:
  assumes "ip_ok ip" "port < 65536" "new_fds s = fd # fds" "0 \<le> fd" "connects s = Refused # cs"
    and "socks s fd = None"
  shows "server_connect (Some (inet_ntoa ip)) (int port) s = Some (-1, s\<lparr>new_fds := fds, connects := cs,
    dialled := (inet_ntoa ip, port) # dialled s\<rparr>)"
proof -
  have "int port mod 65536 = int port" using assms(2) by simp
  then show ?thesis
    using assms inet_pton_ntoa [OF assms(1)]
    by (simp add: server_connect_def socket_call_def connect_call_def close_fd_def Let_def)
qed


lemma free_ptr_live: "p \<noteq> Freed \<Longrightarrow> \<exists>n. free_ptr p h = Some (h\<lparr>live := n\<rparr>)"
  by (cases p) (auto simp: free_def intro: exI [of _ "live h"])

text \<open>The state of the service in which both servers are registered.\<close>

definition registered ::
  "('s \<Rightarrow> string \<Rightarrow> string option) \<Rightarrow> 's \<Rightarrow> ipv4 \<Rightarrow> nat \<Rightarrow> ipv4 \<Rightarrow> nat \<Rightarrow> bool" where
  "registered nodes v ip1 port1 ip2 port2 \<longleftrightarrow>
    ip_ok ip1 \<and> 0 < port1 \<and> port1 < 65536 \<and> ip_ok ip2 \<and> 0 < port2 \<and> port2 < 65536 \<and>
    nodes v PRIMARY_TREE_SERVER_ZNODE_PATH = Some (address_and_port ip1 port1 @ [CHR 0x00]) \<and>
    nodes v BACKUP_TREE_SERVER_ZNODE_PATH = Some (address_and_port ip2 port2 @ [CHR 0x00])"

lemma servers_retry_connect_dials:
  assumes "zoo_ok zoo nodes" "registered nodes (service s) ip1 port1 ip2 port2" "outcomes s = []"
    and "primary_server_ip_address rt \<noteq> Freed" "backup_server_ip_address rt \<noteq> Freed"
  shows "\<exists>n. servers_retry_connect zoo (Some rt) s = do {
    (r, rtree, s) \<leftarrow> network_connect (Some \<lparr>primary_server_ip_address = Ptr (inet_ntoa ip1),
      primary_server_port = int port1, primary_sockfd = -1,
      backup_server_ip_address = Ptr (inet_ntoa ip2), backup_server_port = int port2,
      backup_sockfd = -1\<rparr>) (s\<lparr>live := n\<rparr>);
    let s = s\<lparr>live := live s - 2\<rparr>;
    if r < 0 then Some (-1, rtree, s) else Some (0, rtree, s\<lparr>are_servers_connected := True\<rparr>)
  }"
proof -
  note reg = assms(2) [unfolded registered_def]
  let ?a1 = "address_and_port ip1 port1" and ?a2 = "address_and_port ip2 port2"
  have 1: "zk_get_primary_tree_server zoo s = Some (Some ?a1, s\<lparr>live := live s + 1\<rparr>)"
    using registered_address_found [OF assms(1,3)] reg by (simp add: zk_get_primary_tree_server_def)
  have 2: "zk_get_backup_tree_server zoo (s\<lparr>live := live s + 1\<rparr>) =
      Some (Some ?a2, s\<lparr>live := live s + 2\<rparr>)"
    using registered_address_found [OF assms(1), of "s\<lparr>live := live s + 1\<rparr>"] assms(3) reg
    by (simp add: zk_get_backup_tree_server_def add.commute)
  obtain n where 3: "free_ptr (primary_server_ip_address rt) (s\<lparr>live := live s + 2\<rparr>) = Some (s\<lparr>live := n\<rparr>)"
    using free_ptr_live [OF assms(4), of "s\<lparr>live := live s + 2\<rparr>"] by auto
  obtain m where 4: "free_ptr (backup_server_ip_address rt) (s\<lparr>live := n\<rparr>) = Some (s\<lparr>live := m\<rparr>)"
    using free_ptr_live [OF assms(5), of "s\<lparr>live := n\<rparr>"] by auto
  have parse: "parse_address_port (Some (address_and_port ip port)) None None (s\<lparr>live := i\<rparr>) =
      (0, Some (Some (inet_ntoa ip)), Some (int port), s\<lparr>live := i + 1\<rparr>)"
    if "ip_ok ip" "0 < port" "port < 65536" for ip port i
    using registered_address_parsed [of "s\<lparr>live := i\<rparr>"] that assms(3) by simp
  show ?thesis
    using reg 3 4
    by (intro exI [of _ "2 + m"], cases rt)
       (simp add: servers_retry_connect_def 1 2 parse_primary_def parse_backup_def parse ptr_of_def
          Let_def, auto intro!: Option.bind_cong simp: free_Some)
qed


section \<open>Properties\<close>

definition ex_registry :: "string \<Rightarrow> string option" where
  "ex_registry = [PRIMARY_TREE_SERVER_ZNODE_PATH \<mapsto> address_and_port (10, 0, 0, 1) 5000 @ [CHR 0x00],
    BACKUP_TREE_SERVER_ZNODE_PATH \<mapsto> address_and_port (10, 0, 0, 2) 5001 @ [CHR 0x00]]"

definition ex_conn :: "read_event list \<Rightarrow> socket" where
  "ex_conn es = \<lparr>s_in = es, s_out = [], s_sent = []\<rparr>"

definition ex_client :: "connect_event list \<Rightarrow> (string \<Rightarrow> string option) client" where
  "ex_client cs = zk.extend (ex_zk\<lparr>service := ex_registry, new_fds := [4, 5], connects := cs\<rparr>)
    \<lparr>are_servers_connected = False\<rparr>"

lemma ex_client_sel [simp]:
  "outcomes (ex_client cs) = []" "service (ex_client cs) = ex_registry" "new_fds (ex_client cs) = [4, 5]"
  "connects (ex_client cs) = cs" "socks (ex_client cs) = (\<lambda>_. None)"
  by (simp_all add: ex_client_def zk.defs)

lemma ex_registered:
  "registered (\<lambda>v. v) (service (ex_client cs)) (10, 0, 0, 1) 5000 (10, 0, 0, 2) 5001"
  by (simp add: registered_def ex_registry_def ip_ok_def)

definition ex_rtree :: rtree_t where
  "ex_rtree = \<lparr>primary_server_ip_address = Null, primary_server_port = -1, primary_sockfd = -1,
     backup_server_ip_address = Null, backup_server_port = -1, backup_sockfd = -1\<rparr>"

text \<open>C26: when both servers are registered and accept connections, connecting (again) dials exactly the two
  registered addresses, primary first, keeps the two connections apart, and marks the client as
  connected.\<close>

theorem client_connects_to_registered:
  assumes "zoo_ok zoo nodes" "registered nodes (service s) ip1 port1 ip2 port2" "outcomes s = []"
    and "primary_server_ip_address rt \<noteq> Freed" "backup_server_ip_address rt \<noteq> Freed"
    and "new_fds s = fd1 # fd2 # fds" "0 \<le> fd1" "0 \<le> fd2" "fd1 \<noteq> fd2"
    and "connects s = Connected k1 # Connected k2 # cs"
  shows "\<exists>rt' s'. servers_retry_connect zoo (Some rt) s = Some (0, Some rt', s') \<and>
    are_servers_connected s' \<and> dialled s' = (inet_ntoa ip2, port2) # (inet_ntoa ip1, port1) # dialled s \<and>
    socks s' (primary_sockfd rt') = Some k1 \<and> socks s' (backup_sockfd rt') = Some k2"
proof -
  note reg = assms(2) [unfolded registered_def]
  let ?rt = "\<lambda>a b. \<lparr>primary_server_ip_address = Ptr (inet_ntoa ip1), primary_server_port = int port1,
    primary_sockfd = a, backup_server_ip_address = Ptr (inet_ntoa ip2), backup_server_port = int port2,
    backup_sockfd = b\<rparr>"
  obtain n where n: "servers_retry_connect zoo (Some rt) s = do {
      (r, rtree, s) \<leftarrow> network_connect (Some (?rt (-1) (-1))) (s\<lparr>live := n\<rparr>);
      let s = s\<lparr>live := live s - 2\<rparr>;
      if r < 0 then Some (-1, rtree, s) else Some (0, rtree, s\<lparr>are_servers_connected := True\<rparr>)
    }"
    using servers_retry_connect_dials [OF assms(1-5)] by blast
  let ?s1 = "s\<lparr>live := n, new_fds := fd2 # fds, connects := Connected k2 # cs,
    dialled := (inet_ntoa ip1, port1) # dialled s, socks := (socks s)(fd1 \<mapsto> k1)\<rparr>"
  have "server_connect (Some (inet_ntoa ip1)) (int port1) (s\<lparr>live := n\<rparr>) = Some (fd1, ?s1)"
    using server_connect_ok [of ip1 port1 "s\<lparr>live := n\<rparr>" fd1] reg assms(6,7,10) by simp
  moreover have "server_connect (Some (inet_ntoa ip2)) (int port2) ?s1 = Some (fd2, ?s1\<lparr>new_fds := fds,
      connects := cs, dialled := (inet_ntoa ip2, port2) # dialled ?s1, socks := (socks ?s1)(fd2 \<mapsto> k2)\<rparr>)"
    using server_connect_ok [of ip2 port2 ?s1 fd2] reg assms(8) by simp
  ultimately show ?thesis
    using assms(7-9) by (simp add: n network_connect_def)
qed

theorem client_connects_to_registered_witness:
  "\<exists>rt' s'. servers_retry_connect table_zoo (Some ex_rtree) (ex_client [Connected (ex_conn []), Connected (ex_conn [ReadErr])]) =
      Some (0, Some rt', s') \<and> are_servers_connected s' \<and>
    dialled s' = (inet_ntoa (10, 0, 0, 2), 5001) # (inet_ntoa (10, 0, 0, 1), 5000) #
      dialled (ex_client [Connected (ex_conn []), Connected (ex_conn [ReadErr])]) \<and>
    socks s' (primary_sockfd rt') = Some (ex_conn []) \<and> socks s' (backup_sockfd rt') = Some (ex_conn [ReadErr])"
  by (rule client_connects_to_registered [OF zoo_ok_table ex_registered,
        where fds = "[]" and cs = "[]" and ?fd1.0 = 4 and ?fd2.0 = 5])
     (simp_all add: ex_rtree_def)

text \<open>C39: when the backup refuses the connection, connecting fails and the client forgets its connection to
  the primary without closing it: the field is overwritten with -1 before it is passed to \<^verbatim>\<open>close\<close>, and
  the descriptor stays open for the rest of the process.\<close>

theorem refused_backup_leaks_primary:
  assumes "zoo_ok zoo nodes" "registered nodes (service s) ip1 port1 ip2 port2" "outcomes s = []"
    and "primary_server_ip_address rt \<noteq> Freed" "backup_server_ip_address rt \<noteq> Freed"
    and "new_fds s = fd1 # fd2 # fds" "0 \<le> fd1" "0 \<le> fd2" "fd1 \<noteq> fd2"
    and "socks s fd2 = None" "socks s (-1) = None" "connects s = Connected k1 # Refused # cs"
  shows "\<exists>rt' s'. servers_retry_connect zoo (Some rt) s = Some (-1, Some rt', s') \<and>
    primary_sockfd rt' = -1 \<and> backup_sockfd rt' = -1 \<and> socks s' fd1 = Some k1"
proof -
  note reg = assms(2) [unfolded registered_def]
  let ?rt = "\<lambda>a b. \<lparr>primary_server_ip_address = Ptr (inet_ntoa ip1), primary_server_port = int port1,
    primary_sockfd = a, backup_server_ip_address = Ptr (inet_ntoa ip2), backup_server_port = int port2,
    backup_sockfd = b\<rparr>"
  obtain n where n: "servers_retry_connect zoo (Some rt) s = do {
      (r, rtree, s) \<leftarrow> network_connect (Some (?rt (-1) (-1))) (s\<lparr>live := n\<rparr>);
      let s = s\<lparr>live := live s - 2\<rparr>;
      if r < 0 then Some (-1, rtree, s) else Some (0, rtree, s\<lparr>are_servers_connected := True\<rparr>)
    }"
    using servers_retry_connect_dials [OF assms(1-5)] by blast
  let ?s1 = "s\<lparr>live := n, new_fds := fd2 # fds, connects := Refused # cs,
    dialled := (inet_ntoa ip1, port1) # dialled s, socks := (socks s)(fd1 \<mapsto> k1)\<rparr>"
  have "server_connect (Some (inet_ntoa ip1)) (int port1) (s\<lparr>live := n\<rparr>) = Some (fd1, ?s1)"
    using server_connect_ok [of ip1 port1 "s\<lparr>live := n\<rparr>" fd1] reg assms(6,7,12) by simp
  moreover have "server_connect (Some (inet_ntoa ip2)) (int port2) ?s1 = Some (-1, ?s1\<lparr>new_fds := fds,
      connects := cs, dialled := (inet_ntoa ip2, port2) # dialled ?s1\<rparr>)"
    using server_connect_refused [of ip2 port2 ?s1 fd2] reg assms(8-10) by simp
  ultimately show ?thesis
    using assms(7,9,11) by (simp add: n network_connect_def close_fd_def)
qed

theorem refused_backup_leaks_primary_witness:
  "\<exists>rt' s'. servers_retry_connect table_zoo (Some ex_rtree) (ex_client [Connected (ex_conn []), Refused]) =
      Some (-1, Some rt', s') \<and>
    primary_sockfd rt' = -1 \<and> backup_sockfd rt' = -1 \<and> socks s' 4 = Some (ex_conn [])"
  by (rule refused_backup_leaks_primary [OF zoo_ok_table ex_registered,
        where fds = "[]" and cs = "[]" and ?fd1.0 = 4 and ?fd2.0 = 5])
     (simp_all add: ex_rtree_def)



end
