(* ===== verification/KV_ClientMain.thy ===== *)
theory KV_ClientMain
  imports KV_Client
begin

text \<open>
  \<^verbatim>\<open>source/client/tree_client.c\<close>: the console program over the remote tree. What it prints and what is
  typed are strings; the notifications of ZooKeeper that the servers changed arrive between
  commands. The properties say what the commands print for the replies of the servers, that a blank
  line is undefined, and that a disconnected client ends at \<^verbatim>\<open>quit\<close> and leaks every other line.
\<close>

section \<open>Definitions\<close>

definition MAX_INPUT_LEN :: nat where "MAX_INPUT_LEN = 5000"

abbreviation newline :: char where "newline \<equiv> CHR 0x0A"

text \<open>\<^verbatim>\<open>fgets\<close>: at most \<^verbatim>\<open>n\<close> characters, up to and with the first newline; and what is left.\<close>

fun fgets :: "nat \<Rightarrow> string \<Rightarrow> string \<times> string" where
  "fgets (Suc n) (c # cs) =
    (if c = newline then ([c], cs) else (case fgets n cs of (l, rest) \<Rightarrow> (c # l, rest)))"
| "fgets _ cs = ([], cs)"

text \<open>At the end of the input \<^verbatim>\<open>fgets\<close> leaves the new block as it is, which has no string to measure; a
  line that starts with a NUL has no last character.\<close>

definition collect_input ::
  "string \<Rightarrow> 'z heap_scheme \<Rightarrow> (string option \<times> string \<times> string \<times> 'z heap_scheme) option" where
  "collect_input stdin_left h =
    (case malloc (int MAX_INPUT_LEN) h of (ok, h) \<Rightarrow>
      if \<not> ok then Some (None, [], stdin_left, h)
      else (case fgets (MAX_INPUT_LEN - 1) stdin_left of (line, stdin_left) \<Rightarrow>
        if line = [] \<or> hd line = CHR 0x00 then None
        else (let input_str = takeWhile (\<lambda>c. c \<noteq> CHR 0x00) line;
                  str = (if last input_str = newline then butlast input_str else input_str)
              in case strdup str h of (copied, h) \<Rightarrow>
                   Some (copied, ''> '', stdin_left, free (Some input_str) h))))"

definition entry_create_from_args ::
  "string option \<Rightarrow> string option \<Rightarrow> 'z heap_scheme \<Rightarrow> entry_t option \<times> 'z heap_scheme" where
  "entry_create_from_args key data h =
    (case (key, data) of
       (Some k, Some d) \<Rightarrow>
         (case strdup d h of (copied, h) \<Rightarrow>
          case data_create2 (int_of_size (length d + 1)) (map_option (\<lambda>s. map byte_of_char s @ [0]) copied) h of
            (dataStruct, h) \<Rightarrow>
              if dataStruct = None then (None, h)
              else (case strdup k h of (copied, h) \<Rightarrow> entry_create copied dataStruct h))
     | _ \<Rightarrow> (None, h))"

text \<open>\<^verbatim>\<open>%s\<close> of \<^verbatim>\<open>printf\<close> of a block of bytes, which must hold a NUL.\<close>

definition print_bytes :: "byte list \<Rightarrow> string option" where
  "print_bytes bs = c_string (map char_of_byte bs)"

fun print_keys_loop :: "keys_array \<Rightarrow> int \<Rightarrow> (string \<times> int) option" where
  "print_keys_loop [] index = None"
| "print_keys_loop (slot # rest) index = do {
     key \<leftarrow> slot;
     case key of
       None \<Rightarrow> Some ([], index)
     | Some k \<Rightarrow> do {
         (out, index) \<leftarrow> print_keys_loop rest (index + 1);
         Some ([newline] @ ''    '' @ k @ out, index)
       }
   }"

definition print_keys :: "keys_array \<Rightarrow> string option" where
  "print_keys keys = do {
     (out, index) \<leftarrow> print_keys_loop keys 0;
     Some (''< keys: ['' @ out @
       (if index = 0 then ''] (#=0)'' @ [newline]
        else [newline] @ ''  ] (#='' @ print_int index @ '')'' @ [newline]))
   }"

definition queued_text :: "int \<Rightarrow> string" where
  "queued_text op_id = ''< Operation queued with id '' @ print_int op_id @ ''.'' @ [newline] @
    ''  (check result with command '' @ [CHR 0x22] @ ''verify '' @ print_int op_id @ [CHR 0x22] @ '')'' @ [newline]"

definition run_command ::
  "protobuf \<Rightarrow> rtree_t option \<Rightarrow> string option \<Rightarrow> string option \<Rightarrow> string option \<Rightarrow> 'z net_scheme
    \<Rightarrow> (string \<times> 'z net_scheme) option" where
  "run_command pb rtree command arg1 arg2 s = do {
     cmd \<leftarrow> command;
     if cmd = ''size'' then do {
       (size, s) \<leftarrow> rtree_size pb rtree s;
       Some (if size < 0 then ''< Query failed!'' @ [newline] else ''< size: '' @ print_int size @ [newline], s)
     }
     else if cmd = ''height'' then do {
       (height, s) \<leftarrow> rtree_height pb rtree s;
       Some (if height < -1 then ''< Query failed!'' @ [newline] else ''< height: '' @ print_int height @ [newline], s)
     }
     else if cmd = ''del'' then
       (if arg1 = None then Some (''< Invalid args. Usage: del <key>'' @ [newline], s)
        else do {
          (op_id, s) \<leftarrow> rtree_del pb rtree arg1 s;
          Some (if op_id < 0 then ''< Operation failed!'' @ [newline] else queued_text op_id, s)
        })
     else if cmd = ''get'' then
       (if arg1 = None then Some (''< Invalid args. Usage: get <key>'' @ [newline], s)
        else do {
          (val, s) \<leftarrow> rtree_get pb rtree arg1 s;
          case val of
            None \<Rightarrow> Some (''< Query failed!'' @ [newline], s)
          | Some d \<Rightarrow>
              (case d_data d of
                 None \<Rightarrow> Some (''< Key not found!'' @ [newline], data_destroy val s)
               | Some bs \<Rightarrow> do {
                   text \<leftarrow> print_bytes bs;
                   Some (''< value: '' @ text @ [newline], data_destroy val s)
                 })
        })
     else if cmd = ''put'' then
       (case entry_create_from_args arg1 arg2 s of (entry, s) \<Rightarrow>
          if entry = None then Some (''< Invalid args. Usage: put <key> <data>'' @ [newline], s)
          else do {
            (op_id, s) \<leftarrow> rtree_put pb rtree entry s;
            Some (if op_id < 0 then ''< Operation failed!'' @ [newline] else queued_text op_id, entry_destroy entry s)
          })
     else if cmd = ''getkeys'' then do {
       (keys, s) \<leftarrow> rtree_get_keys pb rtree s;
       case keys of
         None \<Rightarrow> Some (''< Query failed!'' @ [newline], s)
       | Some ks \<Rightarrow> do {
           text \<leftarrow> print_keys ks;
           s \<leftarrow> tree_free_keys keys s;
           Some (text, s)
         }
     }
     else if cmd = ''verify'' then
       (case arg1 of
          None \<Rightarrow> Some (''< Invalid args. Usage: verify <op_id>'' @ [newline], s)
        | Some a \<Rightarrow>
            if atoi a < 0 then Some (''< Invalid args. Usage: verify <op_id>'' @ [newline], s)
            else do {
              (op_result, s) \<leftarrow> rtree_verify pb rtree (atoi a) s;
              Some (if op_result < 0 then ''< Operation failed!'' @ [newline]
                    else if op_result = 0 then ''< Operation not yet executed!'' @ [newline]
                    else ''< Operation done!'' @ [newline], s)
            })
     else Some (''< Unknown command!'' @ [newline], s)
   }"


text \<open>\<^verbatim>\<open>strtok_r\<close> with its saved position; without a token the position is the end of the string.\<close>

definition strtok_r :: "char \<Rightarrow> string \<Rightarrow> string option \<times> string" where
  "strtok_r sep s = (case strtok sep s of None \<Rightarrow> (None, []) | Some (token, rest) \<Rightarrow> (Some token, rest))"

definition split_command :: "string \<Rightarrow> string option \<times> string option \<times> string option" where
  "split_command input_str =
    (case strtok_r CHR '' '' input_str of (command, rest) \<Rightarrow>
     case strtok_r CHR '' '' rest of (arg1, rest) \<Rightarrow>
       (command, arg1, if rest = [] then None else Some rest))"

definition not_available_text :: string where
  "not_available_text = ''< Server not available.'' @ [newline] @ ''  Please, retry connecting with command '' @
    [CHR 0x22] @ ''retry'' @ [CHR 0x22] @ ''.'' @ [newline]"

lemma fgets_less: "fgets n cs = (line, rest) \<Longrightarrow> line \<noteq> [] \<Longrightarrow> length rest < length cs"
proof (induction n cs arbitrary: line rest rule: fgets.induct)
  case (1 n c cs)
  then show ?case
    by (cases "fst (fgets n cs) = []"; cases n; cases cs)
       (fastforce split: if_splits prod.splits)+
qed simp_all

lemma fgets_nil: "fgets n cs = (line, rest) \<Longrightarrow> line = [] \<Longrightarrow> rest = cs"
  by (induction n cs rule: fgets.induct) (auto split: if_splits prod.splits)

lemma malloc_outcomes: "malloc n h = (ok, h') \<Longrightarrow> 0 \<le> n \<Longrightarrow> \<not> ok \<Longrightarrow> length (outcomes h') < length (outcomes h)"
  by (auto simp: malloc_def split: list.splits)

lemma collect_input_less:
  assumes "collect_input inp h = Some (p, prompt, inp', h')"
  shows "length inp' < length inp \<or>
    p = None \<and> length inp' = length inp \<and> length (outcomes h') < length (outcomes h)"
proof (cases "malloc (int MAX_INPUT_LEN) h")
  case (Pair ok h1)
  show ?thesis
  proof (cases ok)
    case False
    with Pair assms malloc_outcomes [OF Pair] show ?thesis by (auto simp: collect_input_def)
  next
    case True
    with Pair assms fgets_less [of "MAX_INPUT_LEN - 1" inp] show ?thesis
      by (auto simp: collect_input_def Let_def split: prod.splits if_splits)
  qed
qed

lemma outcomes_on_servers_changed [simp]: "outcomes (on_servers_changed rtree s) = outcomes s"
  by (auto simp: on_servers_changed_def network_close_def close_call_def close_fd_def
      split: option.splits prod.splits if_splits)

text \<open>The loop of \<^verbatim>\<open>main\<close> and what follows it. \<^verbatim>\<open>changes\<close> tells in which rounds the listener has been called
  since the round before; \<^verbatim>\<open>out\<close> is what was printed so far.\<close>

function client_loop ::
  "protobuf \<Rightarrow> 's zoo \<Rightarrow> bool list \<Rightarrow> string \<Rightarrow> string \<Rightarrow> rtree_t option \<Rightarrow> ('s, 'z) client_scheme
    \<Rightarrow> (string \<times> int \<times> ('s, 'z) client_scheme) option" where
  "client_loop pb zoo changes stdin_left out rtree s =
    (let s = (if changes \<noteq> [] \<and> hd changes then on_servers_changed rtree s else s);
         out = out @ (if rtree_are_servers_connected s then [] else not_available_text) in
     case collect_input stdin_left s of
       None \<Rightarrow> None
     | Some (None, prompt, stdin_left, s) \<Rightarrow>
         client_loop pb zoo (tl changes) stdin_left
           (out @ prompt @ ''< Failed to read the command. Please, try again.'' @ [newline]) rtree s
     | Some (Some input_str, prompt, stdin_left, s) \<Rightarrow>
         if input_str = ''quit'' then do {
           (r, s) \<leftarrow> rtree_disconnect zoo rtree (free (Some input_str) s);
           Some (out @ prompt @ ''Quitting...'' @ [newline], r, s)
         }
         else if input_str = ''retry'' then
           (if rtree_are_servers_connected s then
              client_loop pb zoo (tl changes) stdin_left
                (out @ prompt @ ''< Server already connected'' @ [newline]) rtree (free (Some input_str) s)
            else (case servers_retry_connect zoo rtree s of
                None \<Rightarrow> None
              | Some (r, rtree, s) \<Rightarrow>
                  client_loop pb zoo (tl changes) stdin_left (out @ prompt) rtree (free (Some input_str) s)))
         else if \<not> rtree_are_servers_connected s then
           client_loop pb zoo (tl changes) stdin_left (out @ prompt) rtree s
         else (case split_command input_str of (command, arg1, arg2) \<Rightarrow>
           (case run_command pb rtree command arg1 arg2 s of
              None \<Rightarrow> None
            | Some (printed, s) \<Rightarrow>
                client_loop pb zoo (tl changes) stdin_left (out @ prompt @ printed) rtree (free (Some input_str) s))))"
  by pat_completeness auto

termination
proof (relation "measures [\<lambda>(_, _, _, i, _). length i, \<lambda>(_, _, _, _, _, _, s). length (outcomes s)]", goal_cases)
  case (2 pb zoo changes i out rtree s s' out' r x y z w v u)
  then show ?case by (auto dest!: collect_input_less split: if_splits)
next
  case (3 pb zoo changes i out rtree s s' out' r x y z w v u)
  then show ?case by (auto dest!: collect_input_less split: if_splits)
next
  case (4 pb zoo changes i out rtree s s' out' r x y z w v u)
  then show ?case by (auto dest!: collect_input_less split: if_splits)
next
  case (5 pb zoo changes i out rtree s s' out' r x y z w v u)
  then show ?case by (auto dest!: collect_input_less split: if_splits)
next
  case (6 pb zoo changes i out rtree s s' out' r x y z w v u)
  then show ?case by (auto dest!: collect_input_less split: if_splits)
qed simp

declare client_loop.simps [simp del]

text \<open>\<^verbatim>\<open>main\<close>: its arguments include the name of the program.\<close>

definition tree_client_main ::
  "protobuf \<Rightarrow> 's zoo \<Rightarrow> bool list \<Rightarrow> string \<Rightarrow> string list \<Rightarrow> ('s, 'z) client_scheme
    \<Rightarrow> (string \<times> int \<times> ('s, 'z) client_scheme) option" where
  "tree_client_main pb zoo changes stdin_left argv s =
    (if length argv \<noteq> 2 then
       Some (''Usage: ./tree_client <zookeeper-ip>:<zookeeper-port>'' @ [newline] @
         '' E.g.: ./tree_client 127.0.0.1:2181'' @ [newline], -1, s)
     else do {
       (rtree, s) \<leftarrow> rtree_connect zoo (Some (argv ! 1)) s;
       if rtree = None then Some ([], -1, s)
       else client_loop pb zoo changes stdin_left [] rtree s
     })"


section \<open>Lines\<close>

definition plain :: "string \<Rightarrow> bool" where
  "plain l \<longleftrightarrow> newline \<notin> set l \<and> CHR 0x00 \<notin> set l \<and> length l + 1 < MAX_INPUT_LEN"

lemma fgets_line:
  "newline \<notin> set l \<Longrightarrow> length l < n \<Longrightarrow> fgets n (l @ newline # rest) = (l @ [newline], rest)"
proof (induction l arbitrary: n)
  case Nil
  then show ?case by (cases n) simp_all
next
  case (Cons c l)
  then show ?case by (cases n) auto
qed

lemma collect_input_line:
  assumes "plain l" "outcomes h = []"
  shows "collect_input (l @ newline # rest) h = Some (Some l, ''> '', rest, h\<lparr>live := live h + 1\<rparr>)"
proof -
  have line: "fgets 4999 (l @ newline # rest) = (l @ [newline], rest)"
    using assms(1) by (intro fgets_line) (auto simp: plain_def MAX_INPUT_LEN_def)
  have "takeWhile (\<lambda>c. c \<noteq> CHR 0x00) (l @ [newline]) = l @ [newline]"
    using assms(1) by (subst takeWhile_append2) (auto simp: plain_def)
  moreover have "hd (l @ [newline]) \<noteq> CHR 0x00"
    using assms(1) by (cases l) (auto simp: plain_def)
  ultimately show ?thesis
    using assms(2) by (simp add: collect_input_def line alloc_simps free_Some Let_def MAX_INPUT_LEN_def)
qed

lemma split_blank: "split_command (replicate n CHR '' '') = (None, None, None)"
  by (simp add: split_command_def strtok_r_def strtok_def)

section \<open>Commands\<close>

text \<open>The entry that \<^verbatim>\<open>put\<close> builds: the value is the text with its NUL.\<close>

definition console_data :: "string \<Rightarrow> data_t" where
  "console_data v = \<lparr>d_size = int (length v) + 1, d_data = Some (map byte_of_char v @ [0])\<rparr>"

definition console_entry :: "string \<Rightarrow> string \<Rightarrow> entry_t" where
  "console_entry key v = \<lparr>e_key = Some key, e_value = Some (console_data v)\<rparr>"

lemma console_data_ok: "int (length v) < INT_MAX \<Longrightarrow> data_ok (console_data v)"
  by (simp add: console_data_def data_ok_def)

lemma entry_create_from_args_ok:
  assumes "outcomes h = []" "int (length v) < INT_MAX"
  shows "entry_create_from_args (Some key) (Some v) h = (Some (console_entry key v), h\<lparr>live := live h + 4\<rparr>)"
proof -
  have "int_of_size (Suc (length v)) = int (length v) + 1"
    using assms(2) by (subst int_of_size_id) simp_all
  then show ?thesis
    using assms
    by (simp add: entry_create_from_args_def alloc_simps data_create2_def areParamsInvalid_def
        SIZE_OF_DATA_T_def entry_create_def SIZE_OF_ENTRY_T_def console_entry_def console_data_def)
qed

lemma print_console_bytes: "CHR 0x00 \<notin> set v \<Longrightarrow> print_bytes (map byte_of_char v @ [0]) = Some v"
proof -
  assume nul: "CHR 0x00 \<notin> set v"
  have "map char_of_byte (map byte_of_char v @ [0]) = v @ [CHR 0x00]"
    by (simp add: char_of_byte_def del: map_map) (simp add: char_of_def)
  moreover have "takeWhile (\<lambda>c. c \<noteq> CHR 0x00) (v @ [CHR 0x00]) = v"
    using nul by (subst takeWhile_append2) auto
  ultimately show ?thesis by (simp add: print_bytes_def c_string_def)
qed


lemma run_get_value:
  assumes "protobuf_ok pb" "reply_ready pb s (backup_sockfd rt) k (get_request key)
      \<lparr>m_op_code = op, m_content = CValue (Some (msg_of_data (console_data v)))\<rparr> rest"
    and "op \<noteq> OP_ERROR" "CHR 0x00 \<notin> set v" "int (length v) < INT_MAX"
  shows "\<exists>k'. run_command pb (Some rt) (Some ''get'') (Some key) arg2 s =
      Some (''< value: '' @ v @ [newline], s\<lparr>socks := (socks s)(backup_sockfd rt \<mapsto> k')\<rparr>) \<and>
    exchanged pb (get_request key) rest k k'"
proof -
  have wire: "data_of_msg (data_wire (msg_of_data (console_data v))) = console_data v"
    by (simp add: data_wire_def msg_of_data_def data_of_msg_def console_data_def data_copy_def nat_add_distrib)
  have blocks: "data_blocks (Some (console_data v)) = 2"
    by (simp add: data_blocks_def console_data_def)
  obtain k' where "rtree_get pb (Some rt) (Some key) s =
      Some (Some (console_data v), s\<lparr>socks := (socks s)(backup_sockfd rt \<mapsto> k'), live := live s + 2\<rparr>)"
      "exchanged pb (get_request key) rest k k'"
    using rtree_get_exchange [OF assms(1,2)] assms(3)
    by (auto simp: value_result_def wire blocks)
  then show ?thesis
    using print_console_bytes [OF assms(4)]
    by (intro exI [of _ k']) (simp add: run_command_def data_destroy_def console_data_def data_blocks_def)
qed

lemma run_put_queued:
  assumes "protobuf_ok pb" "reply_ready pb s (primary_sockfd rt) k (put_request (console_entry key v))
      \<lparr>m_op_code = op, m_content = COpId n\<rparr> rest"
    and "op \<noteq> OP_ERROR" "0 \<le> n" "nul_free key" "int (length v) < INT_MAX"
  shows "\<exists>k'. run_command pb (Some rt) (Some ''put'') (Some key) (Some v) s =
      Some (queued_text n, s\<lparr>socks := (socks s)(primary_sockfd rt \<mapsto> k')\<rparr>) \<and>
    exchanged pb (put_request (console_entry key v)) rest k k'"
proof -
  have mem: "outcomes s = []" using assms(2) by (simp add: reply_ready_def)
  have send: "entry_sendable (console_entry key v)"
    using assms(5) console_data_ok [OF assms(6)] by (simp add: entry_sendable_def console_entry_def)
  obtain k' where "rtree_put pb (Some rt) (Some (console_entry key v)) (s\<lparr>live := live s + 4\<rparr>) =
      Some (n, s\<lparr>live := live s + 4, socks := (socks s)(primary_sockfd rt \<mapsto> k')\<rparr>)"
      "exchanged pb (put_request (console_entry key v)) rest k k'"
    using rtree_put_exchange [OF assms(1) send, of "s\<lparr>live := live s + 4\<rparr>" rt k
        "\<lparr>m_op_code = op, m_content = COpId n\<rparr>" rest] assms(2,3)
    by (auto simp: op_id_result_def)
  then show ?thesis
    using assms(4) entry_create_from_args_ok [OF mem assms(6)]
    by (intro exI [of _ k'])
       (simp add: run_command_def entry_destroy_def data_destroy_def console_entry_def console_data_def
          entry_blocks_def data_blocks_def)
qed


section \<open>The loop\<close>

fun ptr_blocks :: "'a ptr \<Rightarrow> int" where
  "ptr_blocks (Ptr a) = 1"
| "ptr_blocks _ = 0"

definition rtree_blocks :: "rtree_t \<Rightarrow> int" where
  "rtree_blocks rt = 1 + ptr_blocks (primary_server_ip_address rt) + ptr_blocks (backup_server_ip_address rt)"

lemma free_ptr_eq: "p \<noteq> Freed \<Longrightarrow> free_ptr p h = Some (h\<lparr>live := live h - ptr_blocks p\<rparr>)"
  by (cases p) (simp_all add: free_Some)

lemma live_network_close [simp]: "live (snd (network_close rtree s)) = live s"
  by (auto simp: network_close_def close_call_def close_fd_def split: option.splits prod.splits if_splits)

lemma rtree_disconnect_eq:
  assumes "primary_server_ip_address rt \<noteq> Freed" "backup_server_ip_address rt \<noteq> Freed"
  shows "\<exists>s'. rtree_disconnect zoo (Some rt) s = Some (if fst (network_close (Some rt) s) < 0 then -1 else 0, s') \<and>
    live s' = live s - rtree_blocks rt"
proof -
  obtain r s1 where c: "network_close (Some rt) s = (r, s1)" by (cases "network_close (Some rt) s")
  then have "live s1 = live s" using live_network_close [of "Some rt" s] by simp
  then show ?thesis
    using assms by (simp add: rtree_disconnect_def c rtree_destroy_def free_ptr_eq free_Some zk_close_def
        rtree_blocks_def)
qed

lemma disconnected_step:
  assumes "outcomes s = []" "\<not> are_servers_connected s" "plain l" "l \<notin> {''quit'', ''retry''}"
  shows "client_loop pb zoo [] (l @ newline # rest) out rtree s =
    client_loop pb zoo [] rest (out @ not_available_text @ ''> '') rtree (s\<lparr>live := live s + 1\<rparr>)"
  using assms
  by (subst client_loop.simps) (simp add: collect_input_line rtree_are_servers_connected_def)

lemma disconnected_quit:
  assumes "outcomes s = []" "\<not> are_servers_connected s"
    and "primary_server_ip_address rt \<noteq> Freed" "backup_server_ip_address rt \<noteq> Freed"
  shows "\<exists>r s'. client_loop pb zoo [] (''quit'' @ newline # rest) out (Some rt) s =
      Some (out @ not_available_text @ ''> Quitting...'' @ [newline], r, s') \<and>
    live s' = live s - rtree_blocks rt"
proof -
  have "plain ''quit''" by (simp add: plain_def MAX_INPUT_LEN_def)
  from collect_input_line [OF this assms(1)]
  have c: "collect_input (''quit'' @ newline # rest) s = Some (Some ''quit'', ''> '', rest, s\<lparr>live := live s + 1\<rparr>)" .
  obtain s' r where "rtree_disconnect zoo (Some rt) s = Some (r, s')" "live s' = live s - rtree_blocks rt"
    using rtree_disconnect_eq [OF assms(3,4)] by blast
  then show ?thesis
    using assms(2) by (subst client_loop.simps) (simp add: c [simplified] rtree_are_servers_connected_def free_Some)
qed

lemma disconnected_lines:
  assumes "outcomes s = []" "\<not> are_servers_connected s"
    and "primary_server_ip_address rt \<noteq> Freed" "backup_server_ip_address rt \<noteq> Freed"
    and "list_all (\<lambda>l. plain l \<and> l \<notin> {''quit'', ''retry''}) lines"
  shows "\<exists>r s'. client_loop pb zoo [] (concat (map (\<lambda>l. l @ [newline]) lines) @ ''quit'' @ newline # rest) out (Some rt) s =
      Some (out @ concat (replicate (length lines + 1) (not_available_text @ ''> '')) @ ''Quitting...'' @ [newline], r, s') \<and>
    live s' = live s + int (length lines) - rtree_blocks rt"
  using assms
proof (induction lines arbitrary: s out)
  case Nil
  then show ?case using disconnected_quit [OF Nil(1-4), of pb zoo rest out] by simp
next
  case (Cons l lines)
  have step: "client_loop pb zoo [] (l @ newline # (concat (map (\<lambda>l. l @ [newline]) lines) @ ''quit'' @ newline # rest)) out (Some rt) s =
    client_loop pb zoo [] (concat (map (\<lambda>l. l @ [newline]) lines) @ ''quit'' @ newline # rest)
      (out @ not_available_text @ ''> '') (Some rt) (s\<lparr>live := live s + 1\<rparr>)"
    by (rule disconnected_step) (use Cons.prems in simp_all)
  show ?case
    using Cons.IH [of "s\<lparr>live := live s + 1\<rparr>" "out @ not_available_text @ ''> ''"] Cons.prems step
    by (simp add: algebra_simps)
qed


section \<open>Properties\<close>

text \<open>C34: a client whose servers are away always ends at \<^verbatim>\<open>quit\<close>: whatever lines come before (other than
  \<^verbatim>\<open>retry\<close>), each is answered with the hint to reconnect, and at \<^verbatim>\<open>quit\<close> the loop returns. The block of every
  line typed before is never freed.\<close>

theorem disconnected_client_quits:
  assumes "outcomes s = []" "\<not> are_servers_connected s"
    and "primary_server_ip_address rt \<noteq> Freed" "backup_server_ip_address rt \<noteq> Freed"
    and "list_all (\<lambda>l. plain l \<and> l \<notin> {''quit'', ''retry''}) lines"
  shows "\<exists>r s'. client_loop pb zoo [] (concat (map (\<lambda>l. l @ [newline]) lines) @ ''quit'' @ newline # rest) [] (Some rt) s =
      Some (concat (replicate (length lines + 1) (not_available_text @ ''> '')) @ ''Quitting...'' @ [newline], r, s') \<and>
    live s' = live s + int (length lines) - rtree_blocks rt"
  using disconnected_lines [OF assms, of pb zoo rest "[]"] by simp

theorem disconnected_client_quits_witness:
  "\<exists>r s'. client_loop wire_protobuf table_zoo [] (concat (map (\<lambda>l. l @ [newline]) [''size'', ''get k'']) @ ''quit'' @ newline # [])
      [] (Some ex_rtree) (ex_client []) =
      Some (concat (replicate (length [''size'', ''get k''] + 1) (not_available_text @ ''> '')) @ ''Quitting...'' @ [newline], r, s') \<and>
    live s' = live (ex_client []) + int (length [''size'', ''get k'']) - rtree_blocks ex_rtree"
  by (rule disconnected_client_quits)
     (simp_all add: ex_rtree_def ex_client_def zk.defs plain_def MAX_INPUT_LEN_def)

text \<open>A connected client does not survive a line of blanks: there is no first word, and the comparison
  with the names of the commands is made on \<^verbatim>\<open>NULL\<close>.\<close>

theorem blank_line_undefined:
  assumes "outcomes s = []" "are_servers_connected s" "n < 4999"
  shows "client_loop pb zoo [] (replicate n CHR '' '' @ newline # rest) out rtree s = None"
proof -
  let ?l = "replicate n CHR '' ''"
  have "plain ?l" using assms(3) by (simp add: plain_def MAX_INPUT_LEN_def)
  note c = collect_input_line [OF this assms(1), of rest]
  have "?l \<noteq> ''quit''" "?l \<noteq> ''retry''" by (cases n; simp)+
  then show ?thesis
    using assms(2)
    by (subst client_loop.simps)
       (simp add: c rtree_are_servers_connected_def split_blank run_command_def)
qed

theorem blank_line_undefined_witness:
  "client_loop wire_protobuf table_zoo [] (replicate 0 CHR '' '' @ newline # ''quit'') [] (Some ex_rtree)
     (ex_client []\<lparr>are_servers_connected := True\<rparr>) = None"
  by (rule blank_line_undefined) simp_all

text \<open>C27: a text put from the console comes back from the console: \<^verbatim>\<open>put\<close> sends the entry to the primary and
  prints the number it was queued with, and when the backup answers a \<^verbatim>\<open>get\<close> with the value of that
  entry, \<^verbatim>\<open>get\<close> prints exactly the text; neither leaks a block.\<close>

theorem console_put_get:
  assumes "protobuf_ok pb" "nul_free key" "CHR 0x00 \<notin> set v" "int (length v) < INT_MAX" "0 \<le> n"
    and "reply_ready pb s (primary_sockfd rt) k (put_request (console_entry key v))
      \<lparr>m_op_code = OP_PUT + 1, m_content = COpId n\<rparr> rest"
    and "reply_ready pb s (backup_sockfd rt) j (get_request key)
      \<lparr>m_op_code = OP_GET + 1, m_content = CValue (Some (msg_of_data (console_data v)))\<rparr> rest'"
    and "primary_sockfd rt \<noteq> backup_sockfd rt"
  shows "\<exists>s1 s2 k' j'. run_command pb (Some rt) (Some ''put'') (Some key) (Some v) s = Some (queued_text n, s1) \<and>
    run_command pb (Some rt) (Some ''get'') (Some key) None s1 = Some (''< value: '' @ v @ [newline], s2) \<and>
    live s2 = live s \<and> socks s2 (primary_sockfd rt) = Some k' \<and> socks s2 (backup_sockfd rt) = Some j' \<and>
    s_sent k' = s_sent k @ wire_frame pb (put_request (console_entry key v)) \<and>
    s_sent j' = s_sent j @ wire_frame pb (get_request key)"
proof -
  have op: "OP_PUT + 1 \<noteq> OP_ERROR" "OP_GET + 1 \<noteq> OP_ERROR" by (simp_all add: op_codes)
  obtain k' where 1: "run_command pb (Some rt) (Some ''put'') (Some key) (Some v) s =
      Some (queued_text n, s\<lparr>socks := (socks s)(primary_sockfd rt \<mapsto> k')\<rparr>)"
      "exchanged pb (put_request (console_entry key v)) rest k k'"
    using run_put_queued [OF assms(1,6) op(1) assms(5,2,4)] by blast
  let ?s = "s\<lparr>socks := (socks s)(primary_sockfd rt \<mapsto> k')\<rparr>"
  have "reply_ready pb ?s (backup_sockfd rt) j (get_request key)
      \<lparr>m_op_code = OP_GET + 1, m_content = CValue (Some (msg_of_data (console_data v)))\<rparr> rest'"
    using assms(7,8) by (simp add: reply_ready_def)
  from run_get_value [OF assms(1) this op(2) assms(3,4), of None]
  obtain j' where "run_command pb (Some rt) (Some ''get'') (Some key) None ?s =
      Some (''< value: '' @ v @ [newline], ?s\<lparr>socks := (socks ?s)(backup_sockfd rt \<mapsto> j')\<rparr>)"
      "exchanged pb (get_request key) rest' j j'" by blast
  with 1 assms(8) show ?thesis by (auto simp: exchanged_def)
qed


lemmas wire_ok = messages_ok_def message_ok_def entry_message_ok_def data_message_ok_def nul_free_def
  wire_protobuf_def wire_pack_message_def wire_pack_entry_def wire_pack_data_def nullable_fields_def
  data_fields_def enc_fields_def varint_short string_bytes_def INT_MAX_def int_range op_codes
  enum_varint_def zigzag_def

definition ex_put_reply :: message where
  "ex_put_reply = \<lparr>m_op_code = OP_PUT + 1, m_content = COpId 0\<rparr>"

definition ex_get_reply :: message where
  "ex_get_reply = \<lparr>m_op_code = OP_GET + 1, m_content = CValue (Some (msg_of_data (console_data ''v'')))\<rparr>"

lemma ex_console_ok:
  "messages_ok wire_protobuf [put_request (console_entry ''k'' ''v''), ex_put_reply]"
  "messages_ok wire_protobuf [get_request ''k'', ex_get_reply]"
  by (simp_all add: ex_put_reply_def ex_get_reply_def put_request_def get_request_def console_entry_def
      console_data_def msg_of_entry_def msg_of_data_def data_copy_def wire_ok)

definition ex_replies :: net where
  "ex_replies = ex_net\<lparr>socks := [4 \<mapsto> ex_conn [Chunk (wire_frame wire_protobuf ex_put_reply)],
     5 \<mapsto> ex_conn [ReadIntr, Chunk (wire_frame wire_protobuf ex_get_reply)]]\<rparr>"

lemma wire_frame_nonempty [simp]: "wire_frame pb m \<noteq> []"
proof -
  have "4 \<le> length (wire_frame pb m)" by (simp add: wire_frame_def network.length_frame)
  then show ?thesis by auto
qed

theorem console_put_get_witness:
  "\<exists>s1 s2 k' j'. run_command wire_protobuf (Some (ex_rtree\<lparr>primary_sockfd := 4, backup_sockfd := 5\<rparr>))
      (Some ''put'') (Some ''k'') (Some ''v'') ex_replies = Some (queued_text 0, s1) \<and>
    run_command wire_protobuf (Some (ex_rtree\<lparr>primary_sockfd := 4, backup_sockfd := 5\<rparr>))
      (Some ''get'') (Some ''k'') None s1 = Some (''< value: '' @ ''v'' @ [newline], s2) \<and>
    live s2 = live ex_replies \<and>
    socks s2 (primary_sockfd (ex_rtree\<lparr>primary_sockfd := 4, backup_sockfd := 5\<rparr>)) = Some k' \<and>
    socks s2 (backup_sockfd (ex_rtree\<lparr>primary_sockfd := 4, backup_sockfd := 5\<rparr>)) = Some j' \<and>
    s_sent k' = s_sent (ex_conn [Chunk (wire_frame wire_protobuf ex_put_reply)]) @
      wire_frame wire_protobuf (put_request (console_entry ''k'' ''v'')) \<and>
    s_sent j' = s_sent (ex_conn [ReadIntr, Chunk (wire_frame wire_protobuf ex_get_reply)]) @
      wire_frame wire_protobuf (get_request ''k'')"
  by (rule console_put_get [OF protobuf_ok_wire, where rest = "[]" and rest' = "[]"])
     (use ex_console_ok in \<open>simp_all add: reply_ready_def ex_replies_def ex_conn_def
        nul_free_def INT_MAX_def ex_put_reply_def ex_get_reply_def\<close>)

end
