(* ===== verification/KV_System.thy ===== *)
theory KV_System
  imports KV_ServerMain KV_ClientMain
begin

text \<open>
  The parts together: what a client's call returns when a server of \<^verbatim>\<open>tree_skel.c\<close> answers it over
  \<^verbatim>\<open>network_server.c\<close>, that every answer is a well-formed message, and a primary with the backup it
  replicates to.
\<close>

section \<open>Values on the wire\<close>

text \<open>The value a key is answered with, and what arrives of it.\<close>

definition value_at :: "data_t option \<Rightarrow> data_t" where
  "value_at v = (case v of None \<Rightarrow> \<lparr>d_size = 0, d_data = None\<rparr> | Some d \<Rightarrow> d)"

lemma value_at_ok: "(\<And>d. v = Some d \<Longrightarrow> data_ok d) \<Longrightarrow> data_ok (value_at v)"
  by (cases v) (simp_all add: value_at_def data_ok_def INT_MAX_def)

definition get_reply :: "data_t option \<Rightarrow> message" where
  "get_reply v = \<lparr>m_op_code = OP_GET + 1, m_content = CValue (Some (msg_of_data (value_at v)))\<rparr>"

definition put_reply :: "nat \<Rightarrow> message" where
  "put_reply n = \<lparr>m_op_code = OP_PUT + 1, m_content = COpId (int n)\<rparr>"

lemma answer_get: "answer (message_wire (get_request key)) t n len = get_reply (tree_map t key)"
  by (simp add: answer_def get_request_def get_reply_def message_wire_def op_codes write_request_def
      value_at_def)

lemma answer_put: "answer (message_wire (put_request e)) t n len = put_reply len"
  by (simp add: answer_def put_request_def put_reply_def message_wire_def op_codes write_request_def)

lemma write_request_put: "write_request (message_wire (put_request e))"
  by (simp add: write_request_def put_request_def message_wire_def)

lemma value_result_get_reply: "data_ok (value_at v) \<Longrightarrow> value_result (get_reply v) = Some (data_received (value_at v))"
  by (simp add: value_result_def get_reply_def op_codes data_of_received_msg)

lemma op_id_result_put_reply: "op_id_result (put_reply n) = int n"
  by (simp add: op_id_result_def put_reply_def op_codes)


section \<open>A call and its answer\<close>

lemma handled:
  assumes "tree_skel_init (0, 0, 0, 0) 0 0 s0 = (r, s1)" "outcomes s0 = []"
    and "run (server_step pb zoo) (Some s1) es (Some s)" "int (length es) < INT_MAX"
    and "protobuf_ok pb" "socks s fd = Some k" "WriteErr \<notin> set (s_out k)"
    and "stream (s_in k) = Some (wire_frame pb m @ rest)" "tree s = Some t"
    and "messages_ok pb [m, message_wire m, answer (message_wire m) t (length (dones es)) (length (writes es))]"
    and "handle_client_socket_pollin_event pb fd s = Some (q, s')"
  shows "q = 0" "\<exists>k'. socks s' fd = Some k' \<and> s_sent k' = s_sent k @
      wire_frame pb (answer (message_wire m) t (length (dones es)) (length (writes es)))"
    and "run (server_step pb zoo) (Some s1) (es @ [Outside, Serve (message_wire m)
      (answer (message_wire m) t (length (dones es)) (length (writes es))), Outside]) (Some s')"
proof -
  let ?a = "answer (message_wire m) t (length (dones es)) (length (writes es))"
  have len: "int (length (writes es)) < INT_MAX" using length_writes [of es] assms(4) by simp
  have ok: "messages_ok pb [m]" "messages_ok pb [message_wire m]" "messages_ok pb [?a]"
    using assms(10) by (simp_all add: messages_ok_def)
  from pollin_event_answer [OF assms(5) reachable_log(1) [OF assms(1-4)] assms(9) len assms(6,8,7) ok]
  obtain k' where *: "q = 0" "socks s' fd = Some k'" "s_sent k' = s_sent k @ wire_frame pb ?a"
      "run (server_step pb zoo) (Some s) [Outside, Serve (message_wire m) ?a, Outside] (Some s')"
    using assms(11) by auto
  then show "q = 0" "\<exists>k'. socks s' fd = Some k' \<and> s_sent k' = s_sent k @ wire_frame pb ?a"
    by simp_all
  show "run (server_step pb zoo) (Some s1) (es @ [Outside, Serve (message_wire m) ?a, Outside]) (Some s')"
    using run_trans [OF *(4) assms(3)] .
qed

text \<open>A connection seen from the client.\<close>

definition open_connection :: "'z net_scheme \<Rightarrow> int \<Rightarrow> socket \<Rightarrow> byte list \<Rightarrow> bool" where
  "open_connection s fd k bs \<longleftrightarrow>
    outcomes s = [] \<and> socks s fd = Some k \<and> WriteErr \<notin> set (s_out k) \<and> stream (s_in k) = Some bs"

lemma open_connection_ready:
  "open_connection s fd k (wire_frame pb reply) \<Longrightarrow> messages_ok pb [request, reply] \<Longrightarrow>
    reply_ready pb s fd k request reply []"
  by (simp add: open_connection_def reply_ready_def)

text \<open>A server that has run through \<^verbatim>\<open>es\<close> since its start and meets a request on an open connection.\<close>

definition request_waits ::
  "protobuf \<Rightarrow> 's zoo \<Rightarrow> event list \<Rightarrow> ('s, 'z) skel_scheme \<Rightarrow> ('s, 'z) skel_scheme \<Rightarrow> int \<Rightarrow> socket \<Rightarrow> message \<Rightarrow> bool" where
  "request_waits pb zoo es s1 s fd k m \<longleftrightarrow>
    run (server_step pb zoo) (Some s1) es (Some s) \<and> int (length es) < INT_MAX \<and>
    socks s fd = Some k \<and> WriteErr \<notin> set (s_out k) \<and> stream (s_in k) = Some (wire_frame pb m)"

lemma message_wire_get: "message_wire (get_request key) = get_request key"
  by (simp add: message_wire_def get_request_def)

lemma remote_get:
  assumes "tree_skel_init (0, 0, 0, 0) 0 0 s0 = (r, s1)" "outcomes s0 = []" "protobuf_ok pb"
    and "request_waits pb zoo es s1 s fd k (get_request key)"
    and "handle_client_socket_pollin_event pb fd s = Some (q, s')"
    and "socks s' fd = Some k'" "s_sent k' = s_sent k @ bs"
    and "open_connection c (backup_sockfd rt) j bs"
    and "messages_ok pb [get_request key, get_reply (written (dones es) key)]"
  shows "\<exists>c' j'. rtree_get pb (Some rt) (Some key) c =
      Some (Some (data_received (value_at (written (dones es) key))), c') \<and>
    socks c' (backup_sockfd rt) = Some j' \<and> s_sent j' = s_sent j @ wire_frame pb (get_request key)"
proof -
  note w = assms(4) [unfolded request_waits_def]
  have es: "run (server_step pb zoo) (Some s1) es (Some s)" "int (length es) < INT_MAX" using w by simp_all
  obtain t where t: "tree s = Some t" "tree_ok t" "tree_map t = written (dones es)"
    using reachable_tree [OF assms(1,2) es] .
  have ok: "data_ok (value_at (written (dones es) key))"
    using tree_map_valid [OF t(2)] by (intro value_at_ok) (simp flip: t(3))
  have "bs = wire_frame pb (get_reply (written (dones es) key))"
    using handled(2) [OF assms(1,2) es assms(3) _ _ _ t(1) _ assms(5), of k "get_request key" "[]"] w assms(6,7,9)
    by (simp add: answer_get [unfolded message_wire_get] message_wire_get t(3) messages_ok_def)
  then have "reply_ready pb c (backup_sockfd rt) j (get_request key) (get_reply (written (dones es) key)) []"
    using assms(8,9) open_connection_ready by blast
  from rtree_get_exchange [OF assms(3) this] show ?thesis
    by (auto simp: value_result_get_reply [OF ok] exchanged_def)
qed

lemma remote_put:
  assumes "tree_skel_init (0, 0, 0, 0) 0 0 s0 = (r, s1)" "outcomes s0 = []" "protobuf_ok pb"
    and "request_waits pb zoo es s1 s fd k (put_request e)"
    and "handle_client_socket_pollin_event pb fd s = Some (q, s')"
    and "socks s' fd = Some k'" "s_sent k' = s_sent k @ bs"
    and "open_connection c (primary_sockfd rt) j bs"
    and "entry_sendable e" "messages_ok pb [put_request e, message_wire (put_request e), put_reply (length (writes es))]"
  shows "\<exists>c' j' es'. rtree_put pb (Some rt) (Some e) c = Some (int (length (writes es)), c') \<and>
    socks c' (primary_sockfd rt) = Some j' \<and> s_sent j' = s_sent j @ wire_frame pb (put_request e) \<and>
    run (server_step pb zoo) (Some s1) (es @ es') (Some s') \<and>
    writes (es @ es') = writes es @ [message_wire (put_request e)] \<and> dones (es @ es') = dones es"
proof -
  note w = assms(4) [unfolded request_waits_def]
  have es: "run (server_step pb zoo) (Some s1) es (Some s)" "int (length es) < INT_MAX" using w by simp_all
  obtain t where t: "tree s = Some t"
    using reachable_tree [OF assms(1,2) es] .
  note h = handled [OF assms(1,2) es assms(3) _ _ _ t _ assms(5), of k "put_request e" "[]", unfolded answer_put]
  have "bs = wire_frame pb (put_reply (length (writes es)))"
    using h(2) w assms(6,7,10) by (simp add: messages_ok_def)
  then have "reply_ready pb c (primary_sockfd rt) j (put_request e) (put_reply (length (writes es))) []"
    using assms(8,10) open_connection_ready [of c _ j pb _ "put_request e"] by (simp add: messages_ok_def)
  from rtree_put_exchange [OF assms(3,9) this]
  obtain c' j' where "rtree_put pb (Some rt) (Some e) c = Some (int (length (writes es)), c')"
      "socks c' (primary_sockfd rt) = Some j'" "s_sent j' = s_sent j @ wire_frame pb (put_request e)"
    by (auto simp: op_id_result_put_reply exchanged_def)
  moreover have "run (server_step pb zoo) (Some s1) (es @ [Outside, Serve (message_wire (put_request e))
      (put_reply (length (writes es))), Outside]) (Some s')"
    using h(3) w assms(10) by simp
  ultimately show ?thesis
    by (intro exI [of _ c'] exI [of _ j'] exI [of _ "[Outside, Serve (message_wire (put_request e))
      (put_reply (length (writes es))), Outside]"]) (simp add: write_request_put)
qed


section \<open>Answers are well formed\<close>

lemma written_snoc: "written (ms @ [m]) = apply_op (the (task_write m)) (written ms)"
  by (simp add: written_def)

lemma task_write_key:
  assumes "message_ok m" "task_write m = Some (Put key d)"
  shows "nul_free key"
proof (cases "m_content m")
  case (CEntry e)
  then show ?thesis
    using assms by (auto simp: task_write_def message_ok_def entry_message_ok_def bind_eq_Some_conv
        split: option.splits)
qed (use assms(2) in \<open>auto simp: task_write_def split: option.splits\<close>)

lemma written_keys:
  assumes "list_all message_ok ms" "list_all (\<lambda>m. task_write m \<noteq> None) ms" "written ms key = Some d"
  shows "nul_free key"
  using assms
proof (induction ms arbitrary: d rule: rev_induct)
  case Nil
  then show ?case by (simp add: written_def)
next
  case (snoc m ms)
  then obtain w where w: "task_write m = Some w" by auto
  show ?case
  proof (cases w)
    case (Put k v)
    with snoc w task_write_key [of m] show ?thesis
      by (cases "k = key") (auto simp: written_snoc)
  next
    case (Del k)
    with snoc w show ?thesis by (cases "k = key") (auto simp: written_snoc)
  qed
qed

lemma answer_ok:
  assumes "tree_ok t" "\<And>k d. tree_map t k = Some d \<Longrightarrow> nul_free k" "t_size t < INT_MAX" "int len < INT_MAX"
  shows "message_ok (answer request t n len)"
proof -
  have root: "node_ok (t_root t)" "t_size t = node_size (t_root t)" "t_height t = node_height (t_root t)"
    "in_int (t_size t)"
    using assms(1) unfolding tree_ok_def by blast+
  have height: "in_int (t_height t)"
    using root node_height_less_size [of "t_root t"] node_height_ge [of "t_root t"]
    by (auto simp: int_range)
  have "int (length (key_list (t_root t))) < INT_MAX"
    using length_key_list [OF root(1)] root(2) assms(3) by simp
  moreover have "list_all nul_free (key_list (t_root t))"
    using dom_tree_map [OF assms(1)] assms(2) unfolding list_all_iff by blast
  ultimately have keys: "keys_message_ok (keys_message_of (key_list (t_root t)))"
    unfolding keys_message_ok_def by blast
  have val: "data_message_ok (msg_of_data (case tree_map t k of None \<Rightarrow> \<lparr>d_size = 0, d_data = None\<rparr> | Some d \<Rightarrow> d))"
    for k
    using tree_map_valid [OF assms(1), of k]
    by (intro msg_of_data_ok) (auto simp: data_ok_def INT_MAX_def split: option.splits)
  have len: "in_int (int len)" using assms(4) by (simp add: int_range INT_MAX_def)
  show ?thesis
    using root(4) height keys val len
    by (auto simp: answer_def message_ok_def op_codes write_request_def int_range Let_def
        split: content.splits option.splits)
qed

lemma reachable_response_ok:
  assumes "tree_skel_init (0, 0, 0, 0) 0 0 s0 = (r, s1)" "outcomes s0 = []"
    and "run (server_step pb zoo) (Some s1) es (Some s)" "int (length es) < INT_MAX"
    and "server_step pb zoo (Serve request response) (Some s) c"
  shows "message_ok response"
proof -
  have len: "int (length (writes es)) < INT_MAX" using length_writes [of es] assms(4) by simp
  note inv = reachable_log [OF assms(1-4)]
  obtain t where t: "tree s = Some t" "tree_ok t" "tree_map t = written (dones es)"
      "response = answer request t (length (dones es)) (length (writes es))"
    using reachable_answer [OF assms] by blast
  have n: "length (dones es) \<le> length (writes es)" "t_size t \<le> int (length (dones es))"
    using inv(1) t(1) by (auto simp: skel_inv_def)
  have ws: "list_all message_ok (dones es)" "list_all (\<lambda>m. task_write m \<noteq> None) (dones es)"
    using inv by (auto simp: skel_inv_def list_all_iff messages_ok_def dest: in_set_takeD)
      (metis in_set_takeD)+
  show ?thesis
    unfolding t(4)
  proof (rule answer_ok [OF t(2)])
    show "nul_free k" if "tree_map t k = Some d" for k d
      using written_keys [OF ws] that t(3) by simp
    show "t_size t < INT_MAX" using n len by linarith
    show "int (length (writes es)) < INT_MAX" by (rule len)
  qed
qed


section \<open>A primary and its backup\<close>

text \<open>
  Two servers side by side. The requests that the primary completes go to the backup in that order
  (each completion is preceded by sending the request, see \<^verbatim>\<open>result_after_replication\<close>); \<^verbatim>\<open>link\<close> are those
  on their way, as they will arrive. The backup takes its writes from there; everything else of both
  servers interleaves freely.
\<close>

inductive replicated ::
  "protobuf \<Rightarrow> 's zoo \<Rightarrow> ('s, 'z) skel_scheme \<Rightarrow> ('s, 'z) skel_scheme \<Rightarrow>
    event list \<Rightarrow> ('s, 'z) skel_scheme option \<Rightarrow> message list \<Rightarrow>
    event list \<Rightarrow> ('s, 'z) skel_scheme option \<Rightarrow> bool"
  for pb zoo p0 b0 where
  start: "replicated pb zoo p0 b0 [] (Some p0) [] [] (Some b0)"
| primary: "replicated pb zoo p0 b0 es p link es' b \<Longrightarrow> server_step pb zoo e p p' \<Longrightarrow>
    replicated pb zoo p0 b0 (es @ [e]) p' (link @ map message_wire (dones [e])) es' b"
| backup: "replicated pb zoo p0 b0 es p (writes [e] @ link) es' b \<Longrightarrow> server_step pb zoo e b b' \<Longrightarrow>
    replicated pb zoo p0 b0 es p link (es' @ [e]) b'"

lemma replicated_runs:
  assumes "replicated pb zoo p0 b0 es p link es' b"
  shows "run (server_step pb zoo) (Some p0) es p" "run (server_step pb zoo) (Some b0) es' b"
    "map message_wire (dones es) = writes es' @ link"
  using assms by (induction rule: replicated.induct) (auto intro: run_Nil run_snoc)

lemma data_received_wire:
  assumes "data_message_ok v"
  shows "data_received (data_copy (data_of_msg (data_wire v))) = data_received (data_copy (data_of_msg v))"
proof (cases "dm_len v = 0")
  case True
  then show ?thesis
    by (simp add: data_received_def data_wire_def data_of_msg_def data_copy_def)
next
  case False
  then show ?thesis by (simp add: data_wire_def)
qed

text \<open>The same write up to what arrives of its value.\<close>

definition same_write :: "write_op \<Rightarrow> write_op \<Rightarrow> bool" where
  "same_write w w' \<longleftrightarrow>
    (case (w, w') of
       (Put k d, Put k' d') \<Rightarrow> k = k' \<and> data_received (data_copy d) = data_received (data_copy d')
     | (Del k, Del k') \<Rightarrow> k = k'
     | _ \<Rightarrow> False)"

lemma task_write_wire:
  assumes "message_ok m" "task_write m = Some w"
  shows "\<exists>w'. task_write (message_wire m) = Some w' \<and> same_write w' w"
proof (cases "m_content m")
  case (CKey k)
  then show ?thesis
    using assms(2) by (auto simp: task_write_def same_write_def split: option.splits)
next
  case (CEntry e)
  obtain x where x: "e = Some x" using assms(1) CEntry by (auto simp: message_ok_def split: option.splits)
  obtain ns k v where v: "em_key x = Some ns" "ns_str ns = Some k" "em_value x = Some v"
      "w = Put k (data_of_msg v)"
    using assms(2) CEntry x by (auto simp: task_write_def bind_eq_Some_conv)
  have "data_message_ok v"
    using assms(1) CEntry x v by (simp add: message_ok_def entry_message_ok_def)
  from data_received_wire [OF this] show ?thesis
    using CEntry x v by (simp add: task_write_def entry_wire_def same_write_def)
qed (use assms(2) in \<open>auto simp: task_write_def\<close>)

lemma written_wire:
  assumes "list_all message_ok ms" "list_all (\<lambda>m. task_write m \<noteq> None) ms"
  shows "map_option data_received (written (map message_wire ms) key) =
    map_option data_received (written ms key)"
  using assms
proof (induction ms rule: rev_induct)
  case Nil
  then show ?case by simp
next
  case (snoc m ms)
  then obtain w where w: "task_write m = Some w" by auto
  obtain w' where w': "task_write (message_wire m) = Some w'" "same_write w' w"
    using task_write_wire [OF _ w] snoc.prems(1) by auto
  have IH: "map_option data_received (written (map message_wire ms) key) =
      map_option data_received (written ms key)"
    using snoc by simp
  show ?case
    using w w' IH by (cases w; cases w') (auto simp: written_snoc same_write_def)
qed

lemma replicated_maps:
  assumes "tree_skel_init (0, 0, 0, 0) 0 0 p1 = (r, p0)" "outcomes p1 = []"
    and "tree_skel_init (0, 0, 0, 0) 0 0 b1 = (r', b0)" "outcomes b1 = []"
    and "replicated pb zoo p0 b0 es (Some p) link es' (Some b)"
    and "int (length es) < INT_MAX" "int (length es') < INT_MAX"
  obtains t t' where "tree p = Some t" "tree_map t = written (dones es)" "tree b = Some t'"
    "length (dones es) = length (writes es') + length link" "length (dones es') \<le> length (writes es')"
    "\<And>key. map_option data_received (tree_map t' key) =
      map_option data_received (written (take (length (dones es')) (dones es)) key)"
proof -
  note runs = replicated_runs [OF assms(5)]
  note p = reachable_log [OF assms(1,2) runs(1) assms(6)]
  note b = reachable_log [OF assms(3,4) runs(2) assms(7)]
  obtain t where t: "tree p = Some t" "tree_map t = written (dones es)"
    using reachable_tree [OF assms(1,2) runs(1) assms(6)] by blast
  obtain t' where t': "tree b = Some t'" "tree_map t' = written (dones es')"
    using reachable_tree [OF assms(3,4) runs(2) assms(7)] by blast
  let ?n = "length (dones es')"
  have n: "?n \<le> length (writes es')" using b(1) by (simp add: skel_inv_def)
  have ok: "list_all message_ok (take ?n (dones es))" "list_all (\<lambda>m. task_write m \<noteq> None) (take ?n (dones es))"
    using p unfolding skel_inv_def list_all_iff messages_ok_def by (metis in_set_takeD)+
  have "dones es' = take ?n (writes es' @ link)" using b(2) n by simp
  also have "\<dots> = map message_wire (take ?n (dones es))" by (simp add: take_map flip: runs(3))
  finally have "dones es' = map message_wire (take ?n (dones es))" .
  then have "map_option data_received (tree_map t' key) =
      map_option data_received (written (take ?n (dones es)) key)" for key
    using written_wire [OF ok] t'(2) by simp
  moreover have "length (dones es) = length (writes es') + length link"
    using arg_cong [OF runs(3), of length] by simp
  ultimately show ?thesis using that t t'(1) n by blast
qed


text \<open>Any two runs of which the second serves what the first completes make up such a pair.\<close>

lemma replicated_primary:
  assumes "run (server_step pb zoo) (Some p0) es p"
  shows "replicated pb zoo p0 b0 es p (map message_wire (dones es)) [] (Some b0)"
  using assms
proof (induction es arbitrary: p rule: rev_induct)
  case Nil
  then have "p = Some p0" by (cases rule: run.cases) auto
  then show ?case by (simp add: start)
next
  case (snoc e es)
  from snoc.prems obtain q where "run (server_step pb zoo) (Some p0) es q" "server_step pb zoo e q p"
    by (cases rule: run.cases) auto
  then show ?case using primary [OF snoc.IH] by fastforce
qed

lemma replicated_pair:
  assumes "run (server_step pb zoo) (Some p0) es p" "run (server_step pb zoo) (Some b0) es' b"
    and "map message_wire (dones es) = writes es' @ link"
  shows "replicated pb zoo p0 b0 es p link es' b"
  using assms(2,3)
proof (induction es' arbitrary: b link rule: rev_induct)
  case Nil
  then have "b = Some b0" by (cases rule: run.cases) auto
  then show ?case using replicated_primary [OF assms(1)] Nil by simp
next
  case (snoc e es')
  from snoc.prems(1) obtain q where q: "run (server_step pb zoo) (Some b0) es' q" "server_step pb zoo e q b"
    by (cases rule: run.cases) auto
  have "replicated pb zoo p0 b0 es p (writes [e] @ link) es' q"
    using snoc.IH [OF q(1), of "writes [e] @ link"] snoc.prems(2) by simp
  then show ?case using backup q(2) by blast
qed

section \<open>Examples\<close>

lemma request_served:
  assumes "tree_skel_init (0, 0, 0, 0) 0 0 s0 = (r, s1)" "outcomes s0 = []" "protobuf_ok pb"
    and "request_waits pb zoo es s1 s fd k m" "tree s = Some t"
    and "messages_ok pb [m, message_wire m, answer (message_wire m) t (length (dones es)) (length (writes es))]"
  shows "\<exists>s' k'. handle_client_socket_pollin_event pb fd s = Some (0, s') \<and> socks s' fd = Some k' \<and>
    s_sent k' = s_sent k @ wire_frame pb (answer (message_wire m) t (length (dones es)) (length (writes es)))"
proof -
  note w = assms(4) [unfolded request_waits_def]
  have "int (length (writes es)) < INT_MAX" using length_writes [of es] w by simp
  with pollin_event_answer [OF assms(3) reachable_log(1) [OF assms(1,2)] assms(5), of zoo es fd k m "[]"] w assms(6)
  show ?thesis by (fastforce simp: messages_ok_def)
qed

text \<open>A server on which a request waits at descriptor 7.\<close>

definition ex_waiting :: "message \<Rightarrow> socket" where
  "ex_waiting m = ex_conn [ReadIntr, Chunk (wire_frame wire_protobuf m)]"

lemma ex_request_waits:
  assumes "run (server_step wire_protobuf zoo) (Some ex_up) es (Some s)" "int (length es) + 1 < INT_MAX"
  shows "request_waits wire_protobuf zoo (es @ [Outside]) ex_up (s\<lparr>socks := [7 \<mapsto> ex_waiting m]\<rparr>) 7 (ex_waiting m) m"
proof -
  have "server_step wire_protobuf zoo Outside (Some s) (Some (s\<lparr>socks := [7 \<mapsto> ex_waiting m]\<rparr>))"
    by (rule outside) (simp add: kept_def)
  with assms show ?thesis
    by (simp add: request_waits_def ex_waiting_def ex_conn_def run_snoc)
qed

definition ex_caller :: "byte list \<Rightarrow> net" where
  "ex_caller bs = ex_net\<lparr>socks := [4 \<mapsto> ex_conn [Chunk bs], 5 \<mapsto> ex_conn [Chunk bs]]\<rparr>"

lemma ex_caller_open:
  "bs \<noteq> [] \<Longrightarrow> open_connection (ex_caller bs) 4 (ex_conn [Chunk bs]) bs"
  "bs \<noteq> [] \<Longrightarrow> open_connection (ex_caller bs) 5 (ex_conn [Chunk bs]) bs"
  by (simp_all add: open_connection_def ex_caller_def ex_conn_def)

definition ex_connected :: rtree_t where
  "ex_connected = ex_rtree\<lparr>primary_sockfd := 4, backup_sockfd := 5\<rparr>"

lemma ex_system_ok:
  "messages_ok wire_protobuf [get_request ''k'', get_reply (Some \<lparr>d_size = 2, d_data = Some [7, 0]\<rparr>)]"
  "messages_ok wire_protobuf [put_request (console_entry ''k'' ''v''),
     message_wire (put_request (console_entry ''k'' ''v'')), put_reply 0]"
  by (simp_all add: put_reply_def get_reply_def value_at_def put_request_def get_request_def console_entry_def
      console_data_def msg_of_entry_def msg_of_data_def data_copy_def message_wire_def entry_wire_def data_wire_def
      wire_ok)

lemma ex_write_wire: "message_wire ex_write = ex_write"
  by (simp add: ex_write_def ex_message_def message_wire_def entry_wire_def data_wire_def)

end
