(* ===== verification/KV_Descriptors.thy ===== *)
theory KV_Descriptors
  imports KV_Wire
begin

text \<open>
  The tables of \<^verbatim>\<open>source/sdmessage.pb-c.c\<close>: the descriptors by which the protobuf-c library knows the
  five messages and the operation codes, and the values that the \<^verbatim>\<open>init\<close> functions store. The library
  itself is a parameter of the other theories; what its documentation says of the tables (how a
  number is looked up in ranges, how the fields of a message are encoded by their descriptors) is
  defined here, so that the tables can be checked against it and against the message types.
\<close>

section \<open>Descriptors\<close>

datatype field_label = LABEL_NONE | LABEL_REPEATED

datatype field_type = TYPE_BYTES | TYPE_STRING | TYPE_MESSAGE | TYPE_ENUM | TYPE_SINT32

record int_range =
  start_value :: int
  orig_index :: nat

record enum_value =
  ev_name :: string
  ev_c_name :: string
  ev_value :: int

record enum_descriptor =
  ed_name :: string
  ed_short_name :: string
  ed_c_name :: string
  ed_n_values :: nat
  ed_values :: "enum_value list"
  ed_n_value_names :: nat
  ed_values_by_name :: "(string \<times> nat) list"
  ed_n_value_ranges :: nat
  ed_value_ranges :: "int_range list"

text \<open>The members of a message struct by their names (\<^verbatim>\<open>offsetof\<close>); \<^verbatim>\<open>DNull\<close> is a null pointer.\<close>

datatype member =
    DNull
  | DInt int
  | DBytes "byte list"
  | DString string
  | DStrings "string list"
  | DMessage "(string \<times> member) list"

datatype message_descriptor =
  MessageDescriptor (md_name: string) (md_short_name: string) (md_c_name: string) (md_package_name: string)
    (md_sizeof: int) (md_n_fields: nat) (md_fields: "field_descriptor list")
    (md_fields_by_name: "nat list") (md_n_ranges: nat) (md_ranges: "int_range list")
    (md_init: "(string \<times> member) list")
and field_descriptor =
  FieldDescriptor (fd_name: string) (fd_id: nat) (fd_label: field_label) (fd_type: field_type)
    (fd_quantifier: "string option") (fd_member: string) (fd_message: "message_descriptor option")
    (fd_enum: "enum_descriptor option") (fd_default: "string option") (fd_oneof: bool)

section \<open>The messages as structs\<close>

definition data_message__init :: data_message where
  "data_message__init = \<lparr>dm_len = 0, dm_data = None\<rparr>"

definition nullable_string__init :: nullable_string where
  "nullable_string__init = \<lparr>ns_str = Some ''''\<rparr>"

definition entry_message__init :: entry_message where
  "entry_message__init = \<lparr>em_key = None, em_value = None\<rparr>"

definition keys_message__init :: keys_message where
  "keys_message__init = \<lparr>km_n_keys = 0, km_keys = None\<rparr>"

definition message__init :: message where
  "message__init = \<lparr>m_op_code = OP_BAD, m_content = CNone\<rparr>"

definition data_members :: "data_message \<Rightarrow> (string \<times> member) list" where
  "data_members m = [(''data'', DBytes (case dm_data m of None \<Rightarrow> [] | Some b \<Rightarrow> take (dm_len m) b))]"

definition string_member :: "string option \<Rightarrow> member" where
  "string_member s = (case s of None \<Rightarrow> DNull | Some x \<Rightarrow> DString x)"

definition message_member :: "('a \<Rightarrow> (string \<times> member) list) \<Rightarrow> 'a option \<Rightarrow> member" where
  "message_member f p = (case p of None \<Rightarrow> DNull | Some m \<Rightarrow> DMessage (f m))"

definition nullable_members :: "nullable_string \<Rightarrow> (string \<times> member) list" where
  "nullable_members m = [(''str'', string_member (ns_str m))]"

definition entry_members :: "entry_message \<Rightarrow> (string \<times> member) list" where
  "entry_members m =
    [(''key'', message_member nullable_members (em_key m)), (''value'', message_member data_members (em_value m))]"

definition keys_members :: "keys_message \<Rightarrow> (string \<times> member) list" where
  "keys_members m = [(''n_keys'', DInt (int (km_n_keys m))), (''keys'', DStrings (keys_of_slots (km_keys m)))]"

fun content_members :: "content \<Rightarrow> (string \<times> member) list" where
  "content_members (CKey s) = [(''key'', string_member s)]"
| "content_members (CValue v) = [(''value'', message_member data_members v)]"
| "content_members (CEntry e) = [(''entry'', message_member entry_members e)]"
| "content_members (CKeys k) = [(''keys'', message_member keys_members k)]"
| "content_members (CIntResult n) = [(''int_result'', DInt n)]"
| "content_members (COpId n) = [(''op_id'', DInt n)]"
| "content_members _ = []"

definition message_members :: "message \<Rightarrow> (string \<times> member) list" where
  "message_members m =
    (''op_code'', DInt (m_op_code m)) # (''content_case'', DInt (content_case (m_content m))) #
    content_members (m_content m)"


section \<open>The tables\<close>

definition data_message__field_descriptors :: "field_descriptor list" where
  "data_message__field_descriptors =
    [FieldDescriptor ''data'' 1 LABEL_NONE TYPE_BYTES None ''data'' None None None False]"

definition data_message__field_indices_by_name :: "nat list" where
  "data_message__field_indices_by_name = [0]"

definition data_message__number_ranges :: "int_range list" where
  "data_message__number_ranges =
    [\<lparr>start_value = 1, orig_index = 0\<rparr>, \<lparr>start_value = 0, orig_index = 1\<rparr>]"

definition data_message__descriptor :: message_descriptor where
  "data_message__descriptor = MessageDescriptor ''DataMessage'' ''DataMessage'' ''DataMessage'' '''' SIZE_OF_DATA_MESSAGE 1 data_message__field_descriptors
    data_message__field_indices_by_name 1 data_message__number_ranges (data_members data_message__init)"

definition nullable_string__field_descriptors :: "field_descriptor list" where
  "nullable_string__field_descriptors =
    [FieldDescriptor ''str'' 1 LABEL_NONE TYPE_STRING None ''str'' None None (Some '''') False]"

definition nullable_string__field_indices_by_name :: "nat list" where
  "nullable_string__field_indices_by_name = [0]"

definition nullable_string__number_ranges :: "int_range list" where
  "nullable_string__number_ranges =
    [\<lparr>start_value = 1, orig_index = 0\<rparr>, \<lparr>start_value = 0, orig_index = 1\<rparr>]"

definition nullable_string__descriptor :: message_descriptor where
  "nullable_string__descriptor = MessageDescriptor ''NullableString'' ''NullableString'' ''NullableString'' '''' SIZE_OF_NULLABLE_STRING 1 nullable_string__field_descriptors
    nullable_string__field_indices_by_name 1 nullable_string__number_ranges (nullable_members nullable_string__init)"

definition entry_message__field_descriptors :: "field_descriptor list" where
  "entry_message__field_descriptors =
    [FieldDescriptor ''key'' 1 LABEL_NONE TYPE_MESSAGE None ''key'' (Some nullable_string__descriptor) None None False,
     FieldDescriptor ''value'' 2 LABEL_NONE TYPE_MESSAGE None ''value'' (Some data_message__descriptor) None None False]"

definition entry_message__field_indices_by_name :: "nat list" where
  "entry_message__field_indices_by_name = [0, 1]"

definition entry_message__number_ranges :: "int_range list" where
  "entry_message__number_ranges =
    [\<lparr>start_value = 1, orig_index = 0\<rparr>, \<lparr>start_value = 0, orig_index = 2\<rparr>]"

definition entry_message__descriptor :: message_descriptor where
  "entry_message__descriptor = MessageDescriptor ''EntryMessage'' ''EntryMessage'' ''EntryMessage'' '''' SIZE_OF_ENTRY_MESSAGE 2 entry_message__field_descriptors
    entry_message__field_indices_by_name 1 entry_message__number_ranges (entry_members entry_message__init)"

definition keys_message__field_descriptors :: "field_descriptor list" where
  "keys_message__field_descriptors =
    [FieldDescriptor ''keys'' 1 LABEL_REPEATED TYPE_STRING (Some ''n_keys'') ''keys'' None None (Some '''') False]"

definition keys_message__field_indices_by_name :: "nat list" where
  "keys_message__field_indices_by_name = [0]"

definition keys_message__number_ranges :: "int_range list" where
  "keys_message__number_ranges =
    [\<lparr>start_value = 1, orig_index = 0\<rparr>, \<lparr>start_value = 0, orig_index = 1\<rparr>]"

definition keys_message__descriptor :: message_descriptor where
  "keys_message__descriptor = MessageDescriptor ''KeysMessage'' ''KeysMessage'' ''KeysMessage'' '''' SIZE_OF_KEYS_MESSAGE 1 keys_message__field_descriptors
    keys_message__field_indices_by_name 1 keys_message__number_ranges (keys_members keys_message__init)"

definition message__operation_code__enum_values_by_number :: "enum_value list" where
  "message__operation_code__enum_values_by_number =
    [\<lparr>ev_name = ''OP_BAD'', ev_c_name = ''MESSAGE__OPERATION_CODE__OP_BAD'', ev_value = 0\<rparr>,
     \<lparr>ev_name = ''OP_SIZE'', ev_c_name = ''MESSAGE__OPERATION_CODE__OP_SIZE'', ev_value = 10\<rparr>,
     \<lparr>ev_name = ''OP_DEL'', ev_c_name = ''MESSAGE__OPERATION_CODE__OP_DEL'', ev_value = 20\<rparr>,
     \<lparr>ev_name = ''OP_GET'', ev_c_name = ''MESSAGE__OPERATION_CODE__OP_GET'', ev_value = 30\<rparr>,
     \<lparr>ev_name = ''OP_PUT'', ev_c_name = ''MESSAGE__OPERATION_CODE__OP_PUT'', ev_value = 40\<rparr>,
     \<lparr>ev_name = ''OP_GETKEYS'', ev_c_name = ''MESSAGE__OPERATION_CODE__OP_GETKEYS'', ev_value = 50\<rparr>,
     \<lparr>ev_name = ''OP_HEIGHT'', ev_c_name = ''MESSAGE__OPERATION_CODE__OP_HEIGHT'', ev_value = 60\<rparr>,
     \<lparr>ev_name = ''OP_VERIFY'', ev_c_name = ''MESSAGE__OPERATION_CODE__OP_VERIFY'', ev_value = 70\<rparr>,
     \<lparr>ev_name = ''OP_ERROR'', ev_c_name = ''MESSAGE__OPERATION_CODE__OP_ERROR'', ev_value = 99\<rparr>]"

definition message__operation_code__value_ranges :: "int_range list" where
  "message__operation_code__value_ranges =
    [\<lparr>start_value = 0, orig_index = 0\<rparr>,
     \<lparr>start_value = 10, orig_index = 1\<rparr>,
     \<lparr>start_value = 20, orig_index = 2\<rparr>,
     \<lparr>start_value = 30, orig_index = 3\<rparr>,
     \<lparr>start_value = 40, orig_index = 4\<rparr>,
     \<lparr>start_value = 50, orig_index = 5\<rparr>,
     \<lparr>start_value = 60, orig_index = 6\<rparr>,
     \<lparr>start_value = 70, orig_index = 7\<rparr>,
     \<lparr>start_value = 99, orig_index = 8\<rparr>,
     \<lparr>start_value = 0, orig_index = 9\<rparr>]"

definition message__operation_code__enum_values_by_name :: "(string \<times> nat) list" where
  "message__operation_code__enum_values_by_name =
    [(''OP_BAD'', 0), (''OP_DEL'', 2), (''OP_ERROR'', 8), (''OP_GET'', 3), (''OP_GETKEYS'', 5), (''OP_HEIGHT'', 6), (''OP_PUT'', 4), (''OP_SIZE'', 1), (''OP_VERIFY'', 7)]"

definition message__operation_code__descriptor :: enum_descriptor where
  "message__operation_code__descriptor =
    \<lparr>ed_name = ''Message.OperationCode'', ed_short_name = ''OperationCode'',
     ed_c_name = ''Message__OperationCode'', ed_n_values = 9,
     ed_values = message__operation_code__enum_values_by_number, ed_n_value_names = 9,
     ed_values_by_name = message__operation_code__enum_values_by_name, ed_n_value_ranges = 9,
     ed_value_ranges = message__operation_code__value_ranges\<rparr>"

definition message__field_descriptors :: "field_descriptor list" where
  "message__field_descriptors =
    [FieldDescriptor ''op_code'' 1 LABEL_NONE TYPE_ENUM None ''op_code'' None (Some message__operation_code__descriptor) None False,
     FieldDescriptor ''key'' 10 LABEL_NONE TYPE_STRING (Some ''content_case'') ''key'' None None (Some '''') True,
     FieldDescriptor ''value'' 20 LABEL_NONE TYPE_MESSAGE (Some ''content_case'') ''value'' (Some data_message__descriptor) None None True,
     FieldDescriptor ''entry'' 30 LABEL_NONE TYPE_MESSAGE (Some ''content_case'') ''entry'' (Some entry_message__descriptor) None None True,
     FieldDescriptor ''keys'' 40 LABEL_NONE TYPE_MESSAGE (Some ''content_case'') ''keys'' (Some keys_message__descriptor) None None True,
     FieldDescriptor ''int_result'' 50 LABEL_NONE TYPE_SINT32 (Some ''content_case'') ''int_result'' None None None True,
     FieldDescriptor ''op_id'' 60 LABEL_NONE TYPE_SINT32 (Some ''content_case'') ''op_id'' None None None True]"

definition message__field_indices_by_name :: "nat list" where
  "message__field_indices_by_name = [3, 5, 1, 4, 0, 6, 2]"

definition message__number_ranges :: "int_range list" where
  "message__number_ranges =
    [\<lparr>start_value = 1, orig_index = 0\<rparr>, \<lparr>start_value = 10, orig_index = 1\<rparr>, \<lparr>start_value = 20, orig_index = 2\<rparr>, \<lparr>start_value = 30, orig_index = 3\<rparr>, \<lparr>start_value = 40, orig_index = 4\<rparr>, \<lparr>start_value = 50, orig_index = 5\<rparr>, \<lparr>start_value = 60, orig_index = 6\<rparr>, \<lparr>start_value = 0, orig_index = 7\<rparr>]"

definition message__descriptor :: message_descriptor where
  "message__descriptor = MessageDescriptor ''Message'' ''Message'' ''Message'' '''' SIZE_OF_MESSAGE 7 message__field_descriptors
    message__field_indices_by_name 7 message__number_ranges (message_members message__init)"

lemmas field_tables = data_message__field_descriptors_def nullable_string__field_descriptors_def
  entry_message__field_descriptors_def keys_message__field_descriptors_def message__field_descriptors_def

lemmas index_tables = data_message__field_indices_by_name_def nullable_string__field_indices_by_name_def
  entry_message__field_indices_by_name_def keys_message__field_indices_by_name_def
  message__field_indices_by_name_def

lemmas range_tables = data_message__number_ranges_def nullable_string__number_ranges_def
  entry_message__number_ranges_def keys_message__number_ranges_def message__number_ranges_def

lemmas descriptors = data_message__descriptor_def nullable_string__descriptor_def entry_message__descriptor_def
  keys_message__descriptor_def message__descriptor_def

section \<open>Lookup\<close>

text \<open>The ranges as their documentation reads them: a range has as many values as the next one starts
  further on in the table; a closing element ends the last range.\<close>

fun range_lookup :: "int_range list \<Rightarrow> int \<Rightarrow> nat option" where
  "range_lookup (a # b # rest) v =
    (if start_value a \<le> v \<and> v < start_value a + (int (orig_index b) - int (orig_index a))
     then Some (orig_index a + nat (v - start_value a))
     else range_lookup (b # rest) v)"
| "range_lookup _ v = None"

text \<open>The position of the first element with a number.\<close>

fun position :: "int list \<Rightarrow> int \<Rightarrow> nat option" where
  "position [] v = None"
| "position (x # xs) v = (if x = v then Some 0 else map_option Suc (position xs v))"

definition by_name :: "message_descriptor \<Rightarrow> string list" where
  "by_name d = map (\<lambda>i. fd_name (md_fields d ! i)) (md_fields_by_name d)"


section \<open>Encoding by the tables\<close>

text \<open>The proto3 wire format as documented: the fields of a descriptor in their order; a field with a
  default value is left out, except that of a \<^verbatim>\<open>oneof\<close>, which is there exactly when the case says so; a
  null pointer is left out; a repeated field gives one field for each element. \<^verbatim>\<open>fuel\<close> bounds the nesting
  of messages.\<close>

fun encode :: "nat \<Rightarrow> message_descriptor \<Rightarrow> (string \<times> member) list \<Rightarrow> (nat \<times> field) list"
and encode_field :: "nat \<Rightarrow> field_descriptor \<Rightarrow> (string \<times> member) list \<Rightarrow> (nat \<times> field) list"
where
  "encode 0 d ms = []"
| "encode (Suc fuel) d ms = concat (map (\<lambda>f. encode_field fuel f ms) (md_fields d))"
| "encode_field fuel f ms =
    (let put = (\<lambda>default x. if default \<and> \<not> fd_oneof f then [] else [(fd_id f, x)]) in
     if fd_oneof f \<and> map_of ms (case fd_quantifier f of None \<Rightarrow> [] | Some q \<Rightarrow> q) \<noteq> Some (DInt (int (fd_id f))) then []
     else (case (fd_label f, fd_type f, map_of ms (fd_member f)) of
         (LABEL_REPEATED, TYPE_STRING, Some (DStrings ss)) \<Rightarrow> map (\<lambda>x. (fd_id f, Bytes (string_bytes x))) ss
       | (LABEL_NONE, TYPE_BYTES, Some (DBytes b)) \<Rightarrow> put (b = []) (Bytes b)
       | (LABEL_NONE, TYPE_STRING, Some (DString x)) \<Rightarrow> put (x = []) (Bytes (string_bytes x))
       | (LABEL_NONE, TYPE_ENUM, Some (DInt n)) \<Rightarrow> put (n = 0) (Varint (enum_varint n))
       | (LABEL_NONE, TYPE_SINT32, Some (DInt n)) \<Rightarrow> put (n = 0) (Varint (zigzag n))
       | (LABEL_NONE, TYPE_MESSAGE, Some (DMessage ms')) \<Rightarrow>
           (case fd_message f of None \<Rightarrow> [] | Some d \<Rightarrow> [(fd_id f, Bytes (enc_fields (encode fuel d ms')))])
       | _ \<Rightarrow> []))"

lemma encode_data:
  assumes "data_message_ok m"
  shows "enc_fields (encode (Suc n) data_message__descriptor (data_members m)) = wire_pack_data m"
  using assms
  by (cases "dm_data m")
     (auto simp: descriptors field_tables data_members_def wire_pack_data_def data_fields_def data_message_ok_def Let_def)

lemma encode_nullable:
  "enc_fields (encode (Suc n) nullable_string__descriptor (nullable_members m)) = enc_fields (nullable_fields m)"
  by (cases "ns_str m")
     (auto simp: descriptors field_tables nullable_members_def nullable_fields_def string_member_def Let_def)

lemma encode_entry:
  assumes "entry_message_ok m"
  shows "enc_fields (encode (Suc (Suc n)) entry_message__descriptor (entry_members m)) = wire_pack_entry m"
proof -
  have e: "encode (Suc (Suc n)) entry_message__descriptor (entry_members m) =
     (case em_key m of None \<Rightarrow> [] | Some ns \<Rightarrow> [(1, Bytes (enc_fields (encode (Suc n) nullable_string__descriptor (nullable_members ns))))]) @
     (case em_value m of None \<Rightarrow> [] | Some v \<Rightarrow> [(2, Bytes (enc_fields (encode (Suc n) data_message__descriptor (data_members v))))])"
    by (auto simp: entry_message__descriptor_def entry_message__field_descriptors_def entry_members_def
        message_member_def Let_def simp del: encode.simps(2) split: option.splits)
      (simp_all add: encode.simps(2) [of "Suc n" entry_message__descriptor] entry_message__descriptor_def)
  show ?thesis
    using assms unfolding e encode_nullable
    by (cases "em_value m") (simp_all add: wire_pack_entry_def entry_message_ok_def encode_data del: encode.simps)
qed


lemma encode_keys:
  "enc_fields (encode (Suc n) keys_message__descriptor (keys_members m)) = wire_pack_keys m"
  by (simp add: descriptors field_tables keys_members_def wire_pack_keys_def Let_def)

lemma message_fields:
  "md_fields message__descriptor = message__field_descriptors"
  by (simp add: message__descriptor_def)

lemma encode_message:
  assumes "message_ok m"
  shows "enc_fields (encode (Suc (Suc (Suc n))) message__descriptor (message_members m)) = wire_pack_message m"
proof -
  have "content_ok (m_content m)" using assms by (simp add: message_ok_def)
  then have "encode (Suc (Suc (Suc n))) message__descriptor (message_members m) =
      (if m_op_code m = 0 then [] else [(1, Varint (enum_varint (m_op_code m)))]) @ content_fields (m_content m)"
    unfolding encode.simps(2) [of "Suc (Suc n)"] message_fields message__field_descriptors_def
    by (cases "m_content m")
       (auto simp: message_members_def string_member_def message_member_def Let_def encode_keys encode_entry
          encode_data simp del: encode.simps(1,2) split: option.splits)
  then show ?thesis by (simp add: wire_pack_message_def del: encode.simps)
qed

text \<open>What makes the tables of one message usable: the counts are the lengths, the ranges find exactly the
  field with a number, the index by name is sorted as \<^verbatim>\<open>bsearch\<close> needs it and names every field once,
  and a field of a \<^verbatim>\<open>oneof\<close> has the case member as its quantifier.\<close>

definition tables_ok :: "message_descriptor \<Rightarrow> bool" where
  "tables_ok d \<longleftrightarrow>
    md_n_fields d = length (md_fields d) \<and> length (md_ranges d) = md_n_ranges d + 1 \<and>
    (\<forall>v. range_lookup (md_ranges d) v = position (map (\<lambda>f. int (fd_id f)) (md_fields d)) v) \<and>
    sorted_wrt (\<lambda>a b. strcmp a b < 0) (by_name d) \<and> set (by_name d) = fd_name ` set (md_fields d) \<and>
    length (by_name d) = length (md_fields d) \<and>
    (\<forall>f \<in> set (md_fields d). fd_oneof f = (fd_quantifier f = Some ''content_case''))"

lemma tables_ok_all:
  "tables_ok data_message__descriptor" "tables_ok nullable_string__descriptor"
  "tables_ok entry_message__descriptor" "tables_ok keys_message__descriptor" "tables_ok message__descriptor"
  by (simp_all add: tables_ok_def descriptors field_tables index_tables range_tables by_name_def)
     (simp add: insert_commute)

lemmas operation_code_tables = message__operation_code__enum_values_by_number_def
  message__operation_code__enum_values_by_name_def message__operation_code__value_ranges_def

section \<open>Properties\<close>




end
