(* ===== verification/KV_Generated.thy ===== *)
theory KV_Generated
  imports KV_Descriptors KV_Serialize
begin

text \<open>
  The functions of \<^verbatim>\<open>source/sdmessage.pb-c.c\<close> besides those that \<^verbatim>\<open>KV_Serialize\<close> defines for the callers
  in the repository: sizes, packing into a buffer of the library, and \<^verbatim>\<open>pack\<close>, \<^verbatim>\<open>unpack\<close> and
  \<^verbatim>\<open>free_unpacked\<close> of \<^verbatim>\<open>NullableString\<close> and \<^verbatim>\<open>KeysMessage\<close>. Each asserts that the struct has the
  descriptor of its type and forwards to the library, which knows messages as structs with a
  descriptor. The library is a parameter (\<^verbatim>\<open>runtime\<close>); with one that encodes by the tables every
  wrapper agrees with the encoder of \<^verbatim>\<open>KV_Wire\<close>.
\<close>

section \<open>The library as the wrappers see it\<close>

record pb_struct =
  base_descriptor :: message_descriptor
  members :: "(string \<times> member) list"

text \<open>\<^verbatim>\<open>'b\<close> is the library's \<^verbatim>\<open>ProtobufCBuffer\<close>.\<close>

record 'b runtime =
  rt_get_packed_size :: "pb_struct \<Rightarrow> nat"
  rt_pack :: "pb_struct \<Rightarrow> byte list"
  rt_pack_to_buffer :: "pb_struct \<Rightarrow> 'b \<Rightarrow> nat \<times> 'b"
  rt_unpack :: "message_descriptor \<Rightarrow> byte list \<Rightarrow> pb_struct option"
  rt_release :: "pb_struct \<Rightarrow> int"

text \<open>A failed \<^verbatim>\<open>assert\<close> ends the process.\<close>

definition asserting :: "message_descriptor \<Rightarrow> (pb_struct \<Rightarrow> 'a) \<Rightarrow> pb_struct \<Rightarrow> 'a option" where
  "asserting d f m = (if base_descriptor m = d then Some (f m) else None)"

section \<open>Definitions\<close>

definition data_message__get_packed_size :: "'b runtime \<Rightarrow> pb_struct \<Rightarrow> nat option" where
  "data_message__get_packed_size rt = asserting data_message__descriptor (rt_get_packed_size rt)"

definition data_message__pack_to_buffer :: "'b runtime \<Rightarrow> pb_struct \<Rightarrow> 'b \<Rightarrow> (nat \<times> 'b) option" where
  "data_message__pack_to_buffer rt m b = asserting data_message__descriptor (\<lambda>m. rt_pack_to_buffer rt m b) m"

definition nullable_string__get_packed_size :: "'b runtime \<Rightarrow> pb_struct \<Rightarrow> nat option" where
  "nullable_string__get_packed_size rt = asserting nullable_string__descriptor (rt_get_packed_size rt)"

definition nullable_string__pack :: "'b runtime \<Rightarrow> pb_struct \<Rightarrow> byte list option" where
  "nullable_string__pack rt = asserting nullable_string__descriptor (rt_pack rt)"

definition nullable_string__pack_to_buffer :: "'b runtime \<Rightarrow> pb_struct \<Rightarrow> 'b \<Rightarrow> (nat \<times> 'b) option" where
  "nullable_string__pack_to_buffer rt m b =
    asserting nullable_string__descriptor (\<lambda>m. rt_pack_to_buffer rt m b) m"

definition nullable_string__unpack ::
  "'b runtime \<Rightarrow> int \<Rightarrow> byte list \<Rightarrow> 'z heap_scheme \<Rightarrow> (pb_struct option \<times> 'z heap_scheme) option" where
  "nullable_string__unpack rt = unpack_with (rt_unpack rt nullable_string__descriptor) (rt_release rt)"

definition nullable_string__free_unpacked ::
  "'b runtime \<Rightarrow> pb_struct option \<Rightarrow> 'z heap_scheme \<Rightarrow> 'z heap_scheme option" where
  "nullable_string__free_unpacked rt msg h =
    (case msg of None \<Rightarrow> Some h
     | Some m \<Rightarrow> asserting nullable_string__descriptor (\<lambda>m. h\<lparr>live := live h - rt_release rt m\<rparr>) m)"

definition entry_message__get_packed_size :: "'b runtime \<Rightarrow> pb_struct \<Rightarrow> nat option" where
  "entry_message__get_packed_size rt = asserting entry_message__descriptor (rt_get_packed_size rt)"

definition entry_message__pack_to_buffer :: "'b runtime \<Rightarrow> pb_struct \<Rightarrow> 'b \<Rightarrow> (nat \<times> 'b) option" where
  "entry_message__pack_to_buffer rt m b =
    asserting entry_message__descriptor (\<lambda>m. rt_pack_to_buffer rt m b) m"

definition keys_message__get_packed_size :: "'b runtime \<Rightarrow> pb_struct \<Rightarrow> nat option" where
  "keys_message__get_packed_size rt = asserting keys_message__descriptor (rt_get_packed_size rt)"

definition keys_message__pack :: "'b runtime \<Rightarrow> pb_struct \<Rightarrow> byte list option" where
  "keys_message__pack rt = asserting keys_message__descriptor (rt_pack rt)"

definition keys_message__pack_to_buffer :: "'b runtime \<Rightarrow> pb_struct \<Rightarrow> 'b \<Rightarrow> (nat \<times> 'b) option" where
  "keys_message__pack_to_buffer rt m b =
    asserting keys_message__descriptor (\<lambda>m. rt_pack_to_buffer rt m b) m"

definition keys_message__unpack ::
  "'b runtime \<Rightarrow> int \<Rightarrow> byte list \<Rightarrow> 'z heap_scheme \<Rightarrow> (pb_struct option \<times> 'z heap_scheme) option" where
  "keys_message__unpack rt = unpack_with (rt_unpack rt keys_message__descriptor) (rt_release rt)"

definition keys_message__free_unpacked ::
  "'b runtime \<Rightarrow> pb_struct option \<Rightarrow> 'z heap_scheme \<Rightarrow> 'z heap_scheme option" where
  "keys_message__free_unpacked rt msg h =
    (case msg of None \<Rightarrow> Some h
     | Some m \<Rightarrow> asserting keys_message__descriptor (\<lambda>m. h\<lparr>live := live h - rt_release rt m\<rparr>) m)"

definition message__get_packed_size :: "'b runtime \<Rightarrow> pb_struct \<Rightarrow> nat option" where
  "message__get_packed_size rt = asserting message__descriptor (rt_get_packed_size rt)"

definition message__pack_to_buffer :: "'b runtime \<Rightarrow> pb_struct \<Rightarrow> 'b \<Rightarrow> (nat \<times> 'b) option" where
  "message__pack_to_buffer rt m b = asserting message__descriptor (\<lambda>m. rt_pack_to_buffer rt m b) m"

text \<open>\<^verbatim>\<open>Message_destroy\<close> of \<^verbatim>\<open>KV_Message\<close> calls this one on messages with their own descriptor.\<close>

definition message__free_unpacked ::
  "'b runtime \<Rightarrow> pb_struct option \<Rightarrow> 'z heap_scheme \<Rightarrow> 'z heap_scheme option" where
  "message__free_unpacked rt msg h =
    (case msg of None \<Rightarrow> Some h
     | Some m \<Rightarrow> asserting message__descriptor (\<lambda>m. h\<lparr>live := live h - rt_release rt m\<rparr>) m)"

lemmas size_wrappers = data_message__get_packed_size_def nullable_string__get_packed_size_def
  entry_message__get_packed_size_def keys_message__get_packed_size_def message__get_packed_size_def

lemmas buffer_wrappers = data_message__pack_to_buffer_def nullable_string__pack_to_buffer_def
  entry_message__pack_to_buffer_def keys_message__pack_to_buffer_def message__pack_to_buffer_def

section \<open>A library that follows the tables\<close>

text \<open>Messages nest three deep at most. Unpacking gives the two types that are unpacked here; a buffer is
  the list of the bytes appended to it.\<close>

definition table_bytes :: "pb_struct \<Rightarrow> byte list" where
  "table_bytes m = enc_fields (encode 3 (base_descriptor m) (members m))"

definition table_unpack :: "message_descriptor \<Rightarrow> byte list \<Rightarrow> pb_struct option" where
  "table_unpack d b =
    (if d = nullable_string__descriptor
     then map_option (\<lambda>fs. \<lparr>base_descriptor = d, members = nullable_members (fields_nullable fs)\<rparr>) (parse_fields b)
     else if d = keys_message__descriptor
     then map_option (\<lambda>k. \<lparr>base_descriptor = d, members = keys_members k\<rparr>) (wire_unpack_keys b)
     else None)"

definition table_runtime :: "byte list runtime" where
  "table_runtime =
    \<lparr>rt_get_packed_size = (\<lambda>m. length (table_bytes m)),
     rt_pack = table_bytes,
     rt_pack_to_buffer = (\<lambda>m b. (length (table_bytes m), b @ table_bytes m)),
     rt_unpack = table_unpack,
     rt_release = (\<lambda>m. 1 + int (length (members m)))\<rparr>"

definition nullable_struct :: "nullable_string \<Rightarrow> pb_struct" where
  "nullable_struct m = \<lparr>base_descriptor = nullable_string__descriptor, members = nullable_members m\<rparr>"

definition data_struct :: "data_message \<Rightarrow> pb_struct" where
  "data_struct m = \<lparr>base_descriptor = data_message__descriptor, members = data_members m\<rparr>"

definition entry_struct :: "entry_message \<Rightarrow> pb_struct" where
  "entry_struct m = \<lparr>base_descriptor = entry_message__descriptor, members = entry_members m\<rparr>"

definition keys_struct :: "keys_message \<Rightarrow> pb_struct" where
  "keys_struct m = \<lparr>base_descriptor = keys_message__descriptor, members = keys_members m\<rparr>"

definition message_struct :: "message \<Rightarrow> pb_struct" where
  "message_struct m = \<lparr>base_descriptor = message__descriptor, members = message_members m\<rparr>"

lemmas structs = nullable_struct_def data_struct_def entry_struct_def keys_struct_def message_struct_def

lemma table_bytes_struct:
  "table_bytes (nullable_struct n) = enc_fields (nullable_fields n)"
  "data_message_ok d \<Longrightarrow> table_bytes (data_struct d) = wire_pack_data d"
  "entry_message_ok e \<Longrightarrow> table_bytes (entry_struct e) = wire_pack_entry e"
  "table_bytes (keys_struct k) = wire_pack_keys k"
  "message_ok m \<Longrightarrow> table_bytes (message_struct m) = wire_pack_message m"
  by (simp_all add: table_bytes_def structs numeral_3_eq_3 encode_nullable encode_data encode_entry
      encode_keys encode_message del: encode.simps)

lemma descriptor_names:
  "md_name nullable_string__descriptor = ''NullableString''" "md_name keys_message__descriptor = ''KeysMessage''"
  by (simp_all add: descriptors)

lemma nullable_differs_keys: "keys_message__descriptor \<noteq> nullable_string__descriptor"
  using descriptor_names by force

text \<open>The size that the wrappers compute before the callers allocate is the size that packing fills, and
  packing into a buffer appends the same bytes.\<close>

lemma packed_size_exact:
  "data_message_ok d \<Longrightarrow> data_message__get_packed_size table_runtime (data_struct d) = Some (length (wire_pack_data d))"
  "entry_message_ok e \<Longrightarrow> entry_message__get_packed_size table_runtime (entry_struct e) = Some (length (wire_pack_entry e))"
  "message_ok m \<Longrightarrow> message__get_packed_size table_runtime (message_struct m) = Some (length (wire_pack_message m))"
  "keys_message__get_packed_size table_runtime (keys_struct k) = Some (length (wire_pack_keys k))"
  "nullable_string__get_packed_size table_runtime (nullable_struct n) = Some (length (enc_fields (nullable_fields n)))"
  by (simp_all add: size_wrappers asserting_def table_runtime_def table_bytes_struct) (simp_all add: structs)

lemma pack_to_buffer_appends:
  "message_ok m \<Longrightarrow> message__pack_to_buffer table_runtime (message_struct m) b =
    Some (length (wire_pack_message m), b @ wire_pack_message m)"
  "entry_message_ok e \<Longrightarrow> entry_message__pack_to_buffer table_runtime (entry_struct e) b =
    Some (length (wire_pack_entry e), b @ wire_pack_entry e)"
  "data_message_ok d \<Longrightarrow> data_message__pack_to_buffer table_runtime (data_struct d) b =
    Some (length (wire_pack_data d), b @ wire_pack_data d)"
  by (simp_all add: buffer_wrappers asserting_def table_runtime_def table_bytes_struct) (simp_all add: structs)

text \<open>The two types that only occur inside other messages come back from their own bytes too.\<close>

lemma keys_unpack_pack:
  "keys_message__pack table_runtime (keys_struct (keys_message_of ks)) = Some (wire_pack_keys (keys_message_of ks)) \<and>
   table_unpack keys_message__descriptor (wire_pack_keys (keys_message_of ks)) = Some (keys_struct (keys_message_of ks))"
  by (simp add: keys_message__pack_def asserting_def table_runtime_def table_bytes_struct table_unpack_def
      wire_keys nullable_differs_keys) (simp add: structs)

lemma nullable_unpack_pack:
  assumes "ns_str n = Some s"
  shows "nullable_string__pack table_runtime (nullable_struct n) = Some (enc_fields (nullable_fields n)) \<and>
    table_unpack nullable_string__descriptor (enc_fields (nullable_fields n)) = Some (nullable_struct n)"
  using assms
  by (simp add: nullable_string__pack_def asserting_def table_runtime_def table_bytes_struct table_unpack_def
      fields_nullable_fields) (simp add: structs)

end
