(* ===== verification/KV_Logger.thy ===== *)
theory KV_Logger
  imports KV_Inet
begin

text \<open>
  \<^verbatim>\<open>source/logger-private.c\<close>: what the program writes to its two standard streams, with the switches
  for debug, info and error messages as the file sets them. The operations of the other theories
  leave their log calls out, because nothing of their state or results depends on the streams; here
  the functions themselves are defined, and the formats of all calls in the sources are checked
  against the arguments they are called with.
\<close>

section \<open>Definitions\<close>

record streams =
  log_stdout :: string
  log_stderr :: string
  errno :: int

datatype log_arg = StrArg "string option" | IntArg int

text \<open>\<^verbatim>\<open>printf\<close> as far as the sources use it: \<^verbatim>\<open>%s\<close>, \<^verbatim>\<open>%d\<close> and \<^verbatim>\<open>%%\<close>. An argument that is missing, of another
  type, or a \<^verbatim>\<open>NULL\<close> string is undefined.\<close>

definition conversion :: "char \<Rightarrow> log_arg list \<Rightarrow> (string \<times> log_arg list) option" where
  "conversion c args =
    (if c = CHR ''%'' then Some ([c], args)
     else (case args of
         StrArg (Some s) # rest \<Rightarrow> if c = CHR ''s'' then Some (s, rest) else None
       | IntArg n # rest \<Rightarrow> if c = CHR ''d'' then Some (print_int n, rest) else None
       | _ \<Rightarrow> None))"

fun format_text :: "string \<Rightarrow> log_arg list \<Rightarrow> string option" where
  "format_text [] args = Some []"
| "format_text [c] args = (if c = CHR ''%'' then None else Some [c])"
| "format_text (c # d # cs) args =
    (if c \<noteq> CHR ''%'' then map_option (Cons c) (format_text (d # cs) args)
     else (case conversion d args of
         None \<Rightarrow> None
       | Some (text, rest) \<Rightarrow> map_option ((@) text) (format_text cs rest)))"

definition LOG_DEBUG_MESSAGES :: bool where "LOG_DEBUG_MESSAGES \<longleftrightarrow> False"
definition LOG_INFO_MESSAGES :: bool where "LOG_INFO_MESSAGES \<longleftrightarrow> True"
definition LOG_ERROR_MESSAGES :: bool where "LOG_ERROR_MESSAGES \<longleftrightarrow> True"

definition to_stdout :: "string \<Rightarrow> log_arg list \<Rightarrow> streams \<Rightarrow> streams option" where
  "to_stdout fmt args s = map_option (\<lambda>t. s\<lparr>log_stdout := log_stdout s @ t\<rparr>) (format_text fmt args)"

definition to_stderr :: "string \<Rightarrow> log_arg list \<Rightarrow> streams \<Rightarrow> streams option" where
  "to_stderr fmt args s = map_option (\<lambda>t. s\<lparr>log_stderr := log_stderr s @ t\<rparr>) (format_text fmt args)"

abbreviation nl :: char where "nl \<equiv> CHR 0x0A"

definition logger_debug :: "string \<Rightarrow> log_arg list \<Rightarrow> streams \<Rightarrow> streams option" where
  "logger_debug fmt args s = (if LOG_DEBUG_MESSAGES then to_stdout fmt args s else Some s)"

definition logger_debug__sockfd :: "int \<Rightarrow> string \<Rightarrow> streams \<Rightarrow> streams option" where
  "logger_debug__sockfd sockfd msg s =
    (if LOG_DEBUG_MESSAGES then to_stdout (''sockfd=%d - %s'' @ [nl]) [IntArg sockfd, StrArg (Some msg)] s
     else Some s)"

definition logger_info :: "string \<Rightarrow> log_arg list \<Rightarrow> streams \<Rightarrow> streams option" where
  "logger_info fmt args s = (if LOG_INFO_MESSAGES then to_stdout fmt args s else Some s)"

definition logger_info__sockfd :: "int \<Rightarrow> string \<Rightarrow> streams \<Rightarrow> streams option" where
  "logger_info__sockfd sockfd msg s =
    (if LOG_INFO_MESSAGES then to_stdout (''sockfd=%d - %s'' @ [nl]) [IntArg sockfd, StrArg (Some msg)] s
     else Some s)"

definition logger_error :: "string \<Rightarrow> string \<Rightarrow> log_arg list \<Rightarrow> streams \<Rightarrow> streams option" where
  "logger_error location fmt args s =
    (if LOG_ERROR_MESSAGES then do {
       s \<leftarrow> to_stderr ''ERROR at %s: '' [StrArg (Some location)] s;
       s \<leftarrow> to_stderr fmt args s;
       to_stderr [nl] [] s
     } else Some s)"

definition logger_error_invalid_arg ::
  "string \<Rightarrow> string \<Rightarrow> string option \<Rightarrow> streams \<Rightarrow> streams option" where
  "logger_error_invalid_arg location arg_name arg_value s =
    (if LOG_ERROR_MESSAGES
     then to_stderr (''ERROR at %s: Invalid arg (%s is %s)'' @ [nl])
       [StrArg (Some location), StrArg (Some arg_name), StrArg arg_value] s
     else Some s)"

definition logger_error_invalid_argi :: "string \<Rightarrow> string \<Rightarrow> int \<Rightarrow> streams \<Rightarrow> streams option" where
  "logger_error_invalid_argi location arg_name arg_value s =
    (if LOG_ERROR_MESSAGES
     then to_stderr (''ERROR at %s: Invalid arg (%s=%d)'' @ [nl])
       [StrArg (Some location), StrArg (Some arg_name), IntArg arg_value] s
     else Some s)"

definition logger_error_invalid_args :: "string \<Rightarrow> streams \<Rightarrow> streams option" where
  "logger_error_invalid_args location s =
    (if LOG_ERROR_MESSAGES
     then to_stderr (''ERROR at %s: Invalid args'' @ [nl]) [StrArg (Some location)] s else Some s)"

definition logger_error_malloc_failed :: "string \<Rightarrow> streams \<Rightarrow> streams option" where
  "logger_error_malloc_failed location s =
    (if LOG_ERROR_MESSAGES
     then to_stderr (''ERROR at %s: Failed to malloc'' @ [nl]) [StrArg (Some location)] s else Some s)"

definition logger_error__sockfd :: "int \<Rightarrow> string \<Rightarrow> string \<Rightarrow> streams \<Rightarrow> streams option" where
  "logger_error__sockfd sockfd location msg s =
    (if LOG_ERROR_MESSAGES
     then to_stderr (''sockfd=%d - ERROR at %s: %s'' @ [nl])
       [IntArg sockfd, StrArg (Some location), StrArg (Some msg)] s
     else Some s)"

text \<open>\<^verbatim>\<open>strerror\<close> is the C library's.\<close>

definition logger_perror ::
  "(int \<Rightarrow> string) \<Rightarrow> string \<Rightarrow> string \<Rightarrow> log_arg list \<Rightarrow> streams \<Rightarrow> streams option" where
  "logger_perror strerror location fmt args s =
    (if LOG_ERROR_MESSAGES then do {
       s \<leftarrow> to_stderr ''ERROR at %s: '' [StrArg (Some location)] s;
       s \<leftarrow> to_stderr fmt args s;
       to_stderr ('' (%s)'' @ [nl]) [StrArg (Some (strerror (errno s)))] s
     } else Some s)"

definition logger_perror__sockfd ::
  "(int \<Rightarrow> string) \<Rightarrow> int \<Rightarrow> string \<Rightarrow> string \<Rightarrow> streams \<Rightarrow> streams option" where
  "logger_perror__sockfd strerror sockfd location msg s =
    (if LOG_ERROR_MESSAGES
     then to_stderr (''sockfd=%d - ERROR at %s: %s (%s)'' @ [nl])
       [IntArg sockfd, StrArg (Some location), StrArg (Some msg), StrArg (Some (strerror (errno s)))] s
     else Some s)"

text \<open>The handler that \<^verbatim>\<open>tree_server.c\<close> installs for \<^verbatim>\<open>SIGINT\<close>: its effect is that \<^verbatim>\<open>poll\<close> is interrupted.\<close>

definition handle_SIGINT_signal :: "int \<Rightarrow> streams \<Rightarrow> streams option" where
  "handle_SIGINT_signal signal = logger_debug (''Caught signal %d'' @ [nl]) [IntArg signal]"

section \<open>Formats and arguments\<close>

fun conversions :: "string \<Rightarrow> char list option" where
  "conversions [] = Some []"
| "conversions [c] = (if c = CHR ''%'' then None else Some [])"
| "conversions (c # d # cs) =
    (if c \<noteq> CHR ''%'' then conversions (d # cs)
     else if d = CHR ''%'' then conversions cs
     else if d \<in> {CHR ''s'', CHR ''d''} then map_option (Cons d) (conversions cs)
     else None)"

fun arg_fits :: "char \<Rightarrow> log_arg \<Rightarrow> bool" where
  "arg_fits c (StrArg v) \<longleftrightarrow> c = CHR ''s'' \<and> v \<noteq> None"
| "arg_fits c (IntArg n) \<longleftrightarrow> c = CHR ''d''"

lemma conversion_fits:
  assumes "arg_fits c a" "c \<noteq> CHR ''%''"
  shows "\<exists>t. conversion c (a # args) = Some (t, args)"
  using assms by (cases a) (auto simp: conversion_def)

lemma format_text_defined:
  assumes "conversions f = Some ks" "list_all2 arg_fits ks args"
  shows "\<exists>t. format_text f args = Some t"
  using assms
proof (induction f args arbitrary: ks rule: format_text.induct)
  case (3 c d cs args)
  show ?case
  proof (cases "c = CHR ''%'' \<and> d \<noteq> CHR ''%''")
    case True
    then obtain ks' where ks: "ks = d # ks'" "conversions cs = Some ks'"
      using "3.prems"(1) by (auto split: if_splits)
    obtain a rest where args: "args = a # rest" "arg_fits d a" "list_all2 arg_fits ks' rest"
      using "3.prems"(2) ks(1) by (auto simp: list_all2_Cons1)
    obtain t where t: "conversion d args = Some (t, rest)"
      using conversion_fits [OF args(2)] True args(1) by blast
    show ?thesis
      using "3.IH"(2) [of "(t, rest)" t rest ks'] True t ks(2) args(3) by auto
  next
    case False
    then show ?thesis
      using 3 by (cases "c = CHR ''%''") (auto simp: conversion_def)
  qed
qed (auto split: if_splits)

text \<open>A text without \<^verbatim>\<open>%\<close> is printed as it is.\<close>

lemma format_text_plain: "CHR ''%'' \<notin> set f \<Longrightarrow> format_text f args = Some f"
  by (induction f args rule: format_text.induct) auto

text \<open>Every message of an error is one line: the place, the text, the end of the line.\<close>

lemma logger_error_line:
  assumes "conversions f = Some ks" "list_all2 arg_fits ks args"
  obtains t where "format_text f args = Some t"
    "logger_error location f args s =
      Some (s\<lparr>log_stderr := log_stderr s @ ''ERROR at '' @ location @ '': '' @ t @ [nl]\<rparr>)"
proof -
  obtain t where t: "format_text f args = Some t"
    using format_text_defined [OF assms] ..
  then show thesis
    by (intro that [of t])
       (simp_all add: logger_error_def LOG_ERROR_MESSAGES_def to_stderr_def conversion_def)
qed

text \<open>The formats of the calls in the sources that have arguments.\<close>

definition log_formats :: "(string \<times> char list) list" where
  "log_formats =
    [(''Connected to primary server at %s:%d...'' @ [nl], ''sd''),
     (''Connected to backup server at %s:%d...'' @ [nl], ''sd''),
     (''Unexpected error, unexpected op_code %d'', ''d''),
     (''Host has unexpected h_addrtype %d (expected: %d)'', ''dd''),
     (''Failed to convert server'' @ [CHR 0x27] @ ''s IP '' @ [CHR 0x22] @ ''%s'' @ [CHR 0x22], ''s''),
     (''Failed to connect to server at %s:%d'', ''sd''),
     ([nl] @ ''Server is ready at %s:%d...'' @ [nl], ''sd''),
     (''Queueing task with task_id=%d ...'' @ [nl], ''d''),
     (''Setting the result of the task with task_id=%d...'' @ [nl], ''d''),
     (''Getting the result of the task with task_id=%d...'' @ [nl], ''d''),
     (''Caught signal %d'' @ [nl], ''d''),
     (''Processing task with task_id=%d ...'' @ [nl], ''d''),
     (''Cannot handle op_code=%d, content_case=%d'', ''dd''),
     (''Waiting for Zookeeper server to connect... (attempt#%d)'' @ [nl], ''d''),
     ([nl] @ ''Connected to zookeeper server at %s...'' @ [nl], ''s''),
     (''Registered %s as the primary tree_server'' @ [nl], ''s''),
     (''Registered %s as the backup tree_server'' @ [nl], ''s''),
     (''Failed to create znode with path %s'', ''s''),
     (''Failed to register %s, primary and backup tree_servers are already set'', ''s''),
     (''Failed to get data of znode with path %s'', ''s''),
     (''Failed to delete znode with path %s'', ''s'')]"

lemma log_formats_fit: "list_all (\<lambda>(f, ks). conversions f = Some ks) log_formats"
  by (simp add: log_formats_def)

lemma log_calls_defined:
  "(f, ks) \<in> set log_formats \<Longrightarrow> list_all2 arg_fits ks args \<Longrightarrow> \<exists>t. format_text f args = Some t"
  using log_formats_fit by (auto simp: list_all_iff intro: format_text_defined)

text \<open>Two calls of \<^verbatim>\<open>client_stub.c\<close> (in \<^verbatim>\<open>rtree_connect\<close> and \<^verbatim>\<open>rtree_get\<close>) pass the pointer that they have found to
  be \<^verbatim>\<open>NULL\<close> as the string to print; what the C library then does is not defined.\<close>

lemma invalid_arg_null: "logger_error_invalid_arg location name None s = None"
  by (simp add: logger_error_invalid_arg_def LOG_ERROR_MESSAGES_def to_stderr_def conversion_def)

lemma invalid_arg_line: "logger_error_invalid_arg location name (Some v) s =
    Some (s\<lparr>log_stderr := log_stderr s @ ''ERROR at '' @ location @ '': Invalid arg ('' @ name @ '' is '' @ v @ '')'' @ [nl]\<rparr>)"
  by (simp add: logger_error_invalid_arg_def LOG_ERROR_MESSAGES_def to_stderr_def conversion_def)

text \<open>Debug messages are switched off: the handler of the signal, like every debug call, writes nothing.\<close>

lemma debug_writes_nothing:
  "logger_debug f args s = Some s" "logger_debug__sockfd n msg s = Some s" "handle_SIGINT_signal n s = Some s"
  by (simp_all add: logger_debug_def logger_debug__sockfd_def handle_SIGINT_signal_def LOG_DEBUG_MESSAGES_def)

end
