(* ===== verification/KV_Asserts.thy ===== *)
theory KV_Asserts
  imports KV_Zk KV_Logger
begin

text \<open>
  \<^verbatim>\<open>tests-private/testutils.c\<close>: the assertions by which the repository's own tests compare blocks,
  entries, trees and messages. An assertion is \<^verbatim>\<open>Some True\<close> when the test goes on, \<^verbatim>\<open>Some False\<close> when it
  ends the test program, and \<^verbatim>\<open>None\<close> when it reads what is not there. The lemmas say what a passed
  assertion means; the property says that every copy the program makes passes them, for all
  inputs and not only those of the tests.
\<close>

section \<open>Definitions\<close>

definition and_then :: "bool option \<Rightarrow> bool option \<Rightarrow> bool option" where
  "and_then a b = (if a = Some True then b else a)"

text \<open>What \<^verbatim>\<open>printTestIntro\<close> prints: \<^verbatim>\<open>%*c\<close> pads one space to the width, which may be 0.\<close>

definition printTestIntro :: "string \<Rightarrow> string \<Rightarrow> string" where
  "printTestIntro module_name test_name =
    (let intro_length = length module_name + 4 + length test_name;
         spaces_count = (if intro_length < 100 then 100 - intro_length else 0)
     in [nl] @ module_name @ '' -- '' @ test_name @ replicate (max 1 spaces_count) (CHR '' '') @ ''  --  '')"

text \<open>\<^verbatim>\<open>pee\<close> prints an error as \<^verbatim>\<open>perror\<close> does and ends the program with the status of success.\<close>

definition pee :: "(int \<Rightarrow> string) \<Rightarrow> string \<Rightarrow> streams \<Rightarrow> int \<times> streams" where
  "pee strerror msg s = (0, s\<lparr>log_stderr := log_stderr s @ msg @ '': '' @ strerror (errno s) @ [nl]\<rparr>)"

definition printTestDone :: string where "printTestDone = ''PASSED''"

definition printNoAssertionsFailed :: string where
  "printNoAssertionsFailed = [nl, nl] @ ''DONE: No assertions failed!'' @ [nl]"

definition assertStrEquals :: "string option \<Rightarrow> string option \<Rightarrow> bool option" where
  "assertStrEquals actual expected =
    (case expected of
       None \<Rightarrow> Some (actual = None)
     | Some e \<Rightarrow> Some (case actual of None \<Rightarrow> False | Some a \<Rightarrow> strcmp a e = 0))"

text \<open>\<^verbatim>\<open>memcmp\<close> of two blocks, which must have as many bytes as it compares.\<close>

definition memcmp_zero :: "byte list \<Rightarrow> byte list \<Rightarrow> nat \<Rightarrow> bool option" where
  "memcmp_zero a b n =
    (if n \<le> length a \<and> n \<le> length b then Some (take n a = take n b) else None)"

definition assertEquals :: "byte list option \<Rightarrow> byte list option \<Rightarrow> int \<Rightarrow> bool option" where
  "assertEquals actual expected sz =
    (case expected of
       None \<Rightarrow> Some (actual = None)
     | Some e \<Rightarrow> (case actual of None \<Rightarrow> Some False | Some a \<Rightarrow> memcmp_zero a e (size_of_int sz)))"

definition assertDataEquals :: "data_t option \<Rightarrow> data_t option \<Rightarrow> bool option" where
  "assertDataEquals actual expected =
    (case expected of
       None \<Rightarrow> Some (actual = None)
     | Some e \<Rightarrow> (case actual of
         None \<Rightarrow> Some False
       | Some a \<Rightarrow> and_then (Some (d_size a = d_size e)) (assertEquals (d_data a) (d_data e) (d_size e))))"

definition assertEntryEquals :: "entry_t option \<Rightarrow> entry_t option \<Rightarrow> bool option" where
  "assertEntryEquals actual expected =
    (case expected of
       None \<Rightarrow> Some (actual = None)
     | Some e \<Rightarrow> (case actual of
         None \<Rightarrow> Some False
       | Some a \<Rightarrow> and_then (assertStrEquals (e_key a) (e_key e)) (assertDataEquals (e_value a) (e_value e))))"

text \<open>The loop over both arrays, from the same index of each.\<close>

fun str_arr_loop :: "keys_array \<Rightarrow> keys_array \<Rightarrow> bool option" where
  "str_arr_loop actual [] = None"
| "str_arr_loop [] (slot # expected) = None"
| "str_arr_loop (a # actual) (e # expected) = do {
     e \<leftarrow> e;
     a \<leftarrow> a;
     if e \<noteq> None then and_then (assertStrEquals a e) (str_arr_loop actual expected)
     else Some (a = None)
   }"

definition assertStrArrEquals :: "keys_array option \<Rightarrow> keys_array option \<Rightarrow> bool option" where
  "assertStrArrEquals actual expected =
    (case expected of
       None \<Rightarrow> Some (actual = None)
     | Some e \<Rightarrow> (case actual of None \<Rightarrow> Some False | Some a \<Rightarrow> str_arr_loop a e))"

definition assertNullableStringEquals :: "nullable_string option \<Rightarrow> nullable_string option \<Rightarrow> bool option" where
  "assertNullableStringEquals actual expected =
    (case expected of
       None \<Rightarrow> Some (actual = None)
     | Some e \<Rightarrow> (case actual of None \<Rightarrow> Some False | Some a \<Rightarrow> assertStrEquals (ns_str a) (ns_str e)))"

text \<open>The length, a \<^verbatim>\<open>size_t\<close>, becomes the \<^verbatim>\<open>int\<close> that \<^verbatim>\<open>assertEquals\<close> takes.\<close>

definition assertDataMessageEquals :: "data_message option \<Rightarrow> data_message option \<Rightarrow> bool option" where
  "assertDataMessageEquals actual expected =
    (case expected of
       None \<Rightarrow> Some (actual = None)
     | Some e \<Rightarrow> (case actual of
         None \<Rightarrow> Some False
       | Some a \<Rightarrow> and_then (Some (dm_len a = dm_len e))
           (assertEquals (dm_data a) (dm_data e) (int_of_size (dm_len e)))))"

definition assertEntryMessage :: "entry_message option \<Rightarrow> entry_message option \<Rightarrow> bool option" where
  "assertEntryMessage actual expected =
    (case expected of
       None \<Rightarrow> Some (actual = None)
     | Some e \<Rightarrow> (case actual of
         None \<Rightarrow> Some False
       | Some a \<Rightarrow> and_then (assertNullableStringEquals (em_key a) (em_key e))
           (assertDataMessageEquals (em_value a) (em_value e))))"

text \<open>The first \<^verbatim>\<open>n\<close> keys of both arrays.\<close>

fun keys_loop :: "nat \<Rightarrow> keys_array \<Rightarrow> keys_array \<Rightarrow> bool option" where
  "keys_loop 0 actual expected = Some True"
| "keys_loop (Suc n) (a # actual) (e # expected) = do {
     a \<leftarrow> a;
     e \<leftarrow> e;
     and_then (assertStrEquals a e) (keys_loop n actual expected)
   }"
| "keys_loop (Suc n) _ _ = None"

definition key_slots :: "keys_array option \<Rightarrow> keys_array" where
  "key_slots ks = (case ks of None \<Rightarrow> [] | Some ks \<Rightarrow> ks)"

definition assertKeysMessage :: "keys_message option \<Rightarrow> keys_message option \<Rightarrow> bool option" where
  "assertKeysMessage actual expected =
    (case expected of
       None \<Rightarrow> Some (actual = None)
     | Some e \<Rightarrow> (case actual of
         None \<Rightarrow> Some False
       | Some a \<Rightarrow> and_then (Some (km_n_keys a = km_n_keys e))
           (keys_loop (km_n_keys e) (key_slots (km_keys a)) (key_slots (km_keys e)))))"

text \<open>The members that the equal \<^verbatim>\<open>content_case\<close> selects; the default of the \<^verbatim>\<open>switch\<close> compares nothing.\<close>

fun content_equals :: "content \<Rightarrow> content \<Rightarrow> bool option" where
  "content_equals (CKey a) (CKey e) = assertStrEquals a e"
| "content_equals (CValue a) (CValue e) = assertDataMessageEquals a e"
| "content_equals (CEntry a) (CEntry e) = assertEntryMessage a e"
| "content_equals (CKeys a) (CKeys e) = assertKeysMessage a e"
| "content_equals (CIntResult a) (CIntResult e) = Some (a = e)"
| "content_equals _ _ = Some True"

definition assertMessageEquals :: "message option \<Rightarrow> message option \<Rightarrow> bool option" where
  "assertMessageEquals actual expected =
    (case expected of
       None \<Rightarrow> Some (actual = None)
     | Some e \<Rightarrow> (case actual of
         None \<Rightarrow> Some False
       | Some a \<Rightarrow> and_then (Some (m_op_code a = m_op_code e \<and>
             content_case (m_content a) = content_case (m_content e)))
           (content_equals (m_content a) (m_content e))))"

definition assertNodeHasKey :: "tree_node \<Rightarrow> string option \<Rightarrow> bool option" where
  "assertNodeHasKey actualNode expectedKey =
    (case actualNode of
       NullNode \<Rightarrow> Some False
     | Node e l r \<Rightarrow> do { entry \<leftarrow> e; assertStrEquals (e_key entry) expectedKey })"

text \<open>\<^verbatim>\<open>strcmp\<close> of the bytes of a block with a string: it reads on while they agree, and must find the end in
  the block.\<close>

fun same_str :: "byte list \<Rightarrow> string \<Rightarrow> bool option" where
  "same_str [] e = None"
| "same_str (b # bs) [] = Some (char_of_byte b = CHR 0x00)"
| "same_str (b # bs) (c # cs) = (if char_of_byte b = c then same_str bs cs else Some False)"

definition assertBytesAreStr :: "byte list option \<Rightarrow> string option \<Rightarrow> bool option" where
  "assertBytesAreStr actual expected =
    (case expected of
       None \<Rightarrow> Some (actual = None)
     | Some e \<Rightarrow> (case actual of None \<Rightarrow> Some False | Some a \<Rightarrow> same_str a e))"

definition assertNodeHas :: "tree_node \<Rightarrow> string option \<Rightarrow> string option \<Rightarrow> bool option" where
  "assertNodeHas actualNode expectedKey expectedValueData =
    and_then (assertNodeHasKey actualNode expectedKey)
      (case actualNode of
         NullNode \<Rightarrow> None
       | Node e l r \<Rightarrow> do {
           entry \<leftarrow> e;
           case e_value entry of
             None \<Rightarrow> Some False
           | Some d \<Rightarrow> assertBytesAreStr (d_data d) expectedValueData
         })"

text \<open>The assertions on a message that a server answered; \<^verbatim>\<open>actual\<close> itself must not be \<^verbatim>\<open>NULL\<close>.\<close>

definition with_content ::
  "message_t option \<Rightarrow> int \<Rightarrow> int \<Rightarrow> (content \<Rightarrow> bool option) \<Rightarrow> bool option" where
  "with_content actual expected_op_code expected_case f = do {
     w \<leftarrow> actual;
     case mt_msg w of
       None \<Rightarrow> Some False
     | Some m \<Rightarrow> and_then (Some (m_op_code m = expected_op_code \<and> content_case (m_content m) = expected_case))
         (f (m_content m))
   }"

definition assertMessageHasNoContent :: "message_t option \<Rightarrow> int \<Rightarrow> bool option" where
  "assertMessageHasNoContent actual expected_op_code =
    with_content actual expected_op_code 0 (\<lambda>_. Some True)"

definition assertMessageHasValue :: "message_t option \<Rightarrow> int \<Rightarrow> string option \<Rightarrow> bool option" where
  "assertMessageHasValue actual expected_op_code expected_data =
    with_content actual expected_op_code 20 (\<lambda>c. case c of
        CValue (Some v) \<Rightarrow>
          (case expected_data of
             None \<Rightarrow> Some (dm_len v = 0 \<and> dm_data v = None)
           | Some e \<Rightarrow> and_then (Some (dm_len v = length e + 1)) (assertBytesAreStr (dm_data v) expected_data))
      | _ \<Rightarrow> None)"

definition assertMessageHasIntResult :: "message_t option \<Rightarrow> int \<Rightarrow> int \<Rightarrow> bool option" where
  "assertMessageHasIntResult actual expected_op_code expected_int_result =
    with_content actual expected_op_code 50 (\<lambda>c. case c of
        CIntResult n \<Rightarrow> Some (n = expected_int_result)
      | _ \<Rightarrow> None)"

definition assertMessageHasOpId :: "message_t option \<Rightarrow> int \<Rightarrow> bool option" where
  "assertMessageHasOpId actual expected_op_code =
    with_content actual expected_op_code 60 (\<lambda>_. Some True)"

section \<open>What a passed assertion means\<close>

lemma and_then_True [simp]: "and_then a b = Some True \<longleftrightarrow> a = Some True \<and> b = Some True"
  by (simp add: and_then_def)

lemma assertStrEquals_iff [simp]: "assertStrEquals a e = Some True \<longleftrightarrow> a = e"
  by (auto simp: assertStrEquals_def strcmp_zero split: option.splits)

lemma assertNullableStringEquals_iff [simp]: "assertNullableStringEquals a e = Some True \<longleftrightarrow> a = e"
  by (auto simp: assertNullableStringEquals_def split: option.splits)

lemma size_of_int_small [simp]: "0 \<le> n \<Longrightarrow> n \<le> INT_MAX \<Longrightarrow> size_of_int n = nat n"
  by (simp add: size_of_int_def INT_MAX_def)

text \<open>For valid blocks the assertion passes exactly when the declared sizes and bytes are the same, and
  either both blocks are there or neither is.\<close>

lemma assertDataEquals_iff:
  assumes "data_ok a" "data_ok e"
  shows "assertDataEquals (Some a) (Some e) = Some True \<longleftrightarrow> data_copy a = data_copy e"
  using assms
  by (auto simp: assertDataEquals_def assertEquals_def memcmp_zero_def data_copy_def data_ok_def
      split: option.splits)

lemma assertDataMessageEquals_iff:
  assumes "data_message_ok a" "data_message_ok e"
  shows "assertDataMessageEquals (Some a) (Some e) = Some True \<longleftrightarrow> a = e"
  using assms
  by (cases a; cases e; cases "dm_data a"; cases "dm_data e")
     (auto simp: assertDataMessageEquals_def assertEquals_def memcmp_zero_def data_message_ok_def
        int_of_size_def INT_MAX_def size_of_int_def Let_def)

lemma assertEntryMessage_iff:
  assumes "entry_message_ok a" "entry_message_ok e"
  shows "assertEntryMessage (Some a) (Some e) = Some True \<longleftrightarrow> a = e"
proof -
  have "assertDataMessageEquals (em_value a) (em_value e) = Some True \<longleftrightarrow> em_value a = em_value e"
    using assms assertDataMessageEquals_iff
    by (cases "em_value a"; cases "em_value e") (auto simp: entry_message_ok_def assertDataMessageEquals_def)
  then show ?thesis by (simp add: assertEntryMessage_def) (cases a; cases e; auto)
qed

lemma keys_loop_iff:
  "length ks = length ks' \<Longrightarrow>
    keys_loop (length ks') (map (\<lambda>k. Some (Some k)) ks) (map (\<lambda>k. Some (Some k)) ks') = Some True \<longleftrightarrow> ks = ks'"
  by (induction ks ks' rule: list_induct2) auto

lemma key_slots_message [simp]: "key_slots (km_keys (keys_message_of ks)) = map (\<lambda>k. Some (Some k)) ks"
  by (simp add: key_slots_def keys_message_of_def)

lemma keys_message_of_inject [simp]: "keys_message_of ks = keys_message_of ks' \<longleftrightarrow> ks = ks'"
proof
  assume "keys_message_of ks = keys_message_of ks'"
  then have "map (\<lambda>k. Some (Some k)) ks = map (\<lambda>k. Some (Some k)) ks'"
    by (metis key_slots_message)
  then show "ks = ks'" by (simp add: inj_on_def inj_map_eq_map)
qed simp

lemma assertKeysMessage_iff:
  assumes "keys_message_ok a" "keys_message_ok e"
  shows "assertKeysMessage (Some a) (Some e) = Some True \<longleftrightarrow> a = e"
proof -
  obtain ks ks' where k: "a = keys_message_of ks" "e = keys_message_of ks'"
    using assms by (auto simp: keys_message_ok_def)
  have "km_n_keys (keys_message_of ks) = length ks" for ks by (simp add: keys_message_of_def)
  then show ?thesis
    using keys_loop_iff [of ks ks'] unfolding k assertKeysMessage_def by auto
qed

text \<open>For well-formed messages the assertion is equality, except that two operation numbers are not
  compared.\<close>

fun up_to_op_id :: "content \<Rightarrow> content" where
  "up_to_op_id (COpId n) = COpId 0"
| "up_to_op_id c = c"

lemma content_equals_iff:
  assumes "content_ok a" "content_ok e" "content_case a = content_case e"
  shows "content_equals a e = Some True \<longleftrightarrow> up_to_op_id a = up_to_op_id e"
  using assms
  by (cases a; cases e)
     (auto simp: assertDataMessageEquals_iff assertEntryMessage_iff assertKeysMessage_iff split: option.splits)

lemma up_to_op_id_case: "up_to_op_id a = up_to_op_id e \<Longrightarrow> content_case a = content_case e"
  by (cases a; cases e) auto

lemma assertMessageEquals_iff:
  assumes "message_ok a" "message_ok e"
  shows "assertMessageEquals (Some a) (Some e) = Some True \<longleftrightarrow>
    m_op_code a = m_op_code e \<and> up_to_op_id (m_content a) = up_to_op_id (m_content e)"
proof -
  have ok: "content_ok (m_content a)" "content_ok (m_content e)" using assms by (simp_all add: message_ok_def)
  show ?thesis
    using content_equals_iff [OF ok] up_to_op_id_case [of "m_content a" "m_content e"]
    by (auto simp: assertMessageEquals_def)
qed

lemma str_arr_loop_keys: "str_arr_loop (keys_array_of ks) (keys_array_of ks') = Some True \<longleftrightarrow> ks = ks'"
proof (induction ks arbitrary: ks')
  case Nil
  then show ?case by (cases ks') (auto simp: keys_array_of_def and_then_def)
next
  case (Cons k ks)
  then show ?case by (cases ks') (auto simp: keys_array_of_def and_then_def)
qed

lemma same_str_bytes: "CHR 0x00 \<notin> set e \<Longrightarrow> same_str (map byte_of_char e @ byte_of_char (CHR 0x00) # rest) e = Some True"
  by (induction e) auto

section \<open>Properties\<close>

text \<open>C18: the copies that the program makes pass the assertions of its tests, for all inputs: a duplicated
  block or entry passes against the original, and a duplicated message passes against exactly those
  messages that have the same code and the same contents - only two operation numbers are not told
  apart, because the assertion leaves them out.\<close>

theorem copies_pass_assertions:
  assumes "outcomes h = []" "data_ok d" "pred_option data_ok (e_value e)" "message_ok m" "message_ok m2"
  shows "(\<exists>d' h'. data_dup (Some d) h = Some (Some d', h') \<and> assertDataEquals (Some d') (Some d) = Some True) \<and>
    (\<exists>e' h'. entry_dup (Some e) h = Some (Some e', h') \<and> assertEntryEquals (Some e') (Some e) = Some True) \<and>
    (\<exists>m' h'. Message_dup (Some m) h = Some (Some m', h') \<and>
      (assertMessageEquals (Some m') (Some m2) = Some True) =
        (m_op_code m = m_op_code m2 \<and> up_to_op_id (m_content m) = up_to_op_id (m_content m2)))"
proof (intro conjI)
  show "\<exists>d' h'. data_dup (Some d) h = Some (Some d', h') \<and> assertDataEquals (Some d') (Some d) = Some True"
    using assms(1,2) by (simp add: data_dup_ok assertDataEquals_iff)
  have v: "\<And>d. e_value e = Some d \<Longrightarrow> data_ok d" using assms(3) by simp
  have "assertDataEquals (map_option data_copy (e_value e)) (e_value e) = Some True"
    using assms(3) by (cases "e_value e") (simp_all add: assertDataEquals_iff, simp add: assertDataEquals_def)
  then show "\<exists>e' h'. entry_dup (Some e) h = Some (Some e', h') \<and> assertEntryEquals (Some e') (Some e) = Some True"
    using entry_dup_ok [OF assms(1) v] by (simp add: assertEntryEquals_def)
  show "\<exists>m' h'. Message_dup (Some m) h = Some (Some m', h') \<and>
      (assertMessageEquals (Some m') (Some m2) = Some True) =
        (m_op_code m = m_op_code m2 \<and> up_to_op_id (m_content m) = up_to_op_id (m_content m2))"
    using assms(1,4,5) by (simp add: Message_dup_ok assertMessageEquals_iff)
qed

theorem copies_pass_assertions_witness:
  "\<exists>m' h'. Message_dup (Some \<lparr>m_op_code = 41, m_content = COpId 1\<rparr>) ex_heap = Some (Some m', h') \<and>
    assertMessageEquals (Some m') (Some \<lparr>m_op_code = 41, m_content = COpId 2\<rparr>) = Some True"
  using copies_pass_assertions [of ex_heap ex_data "\<lparr>e_key = Some ''k'', e_value = Some ex_data\<rparr>"
      "\<lparr>m_op_code = 41, m_content = COpId 1\<rparr>" "\<lparr>m_op_code = 41, m_content = COpId 2\<rparr>"]
  by (simp add: ex_data_ok message_ok_def in_int_def INT_MAX_def INT_MIN_def)

end
