(* ===== verification/KV_Tests.thy ===== *)
theory KV_Tests
  imports KV_Asserts
begin

text \<open>
  The test program of the tree, \<^verbatim>\<open>tests-private/test_tree.c\<close>, run on the model, and the tests of
  the tree in \<^verbatim>\<open>tests-private/test_all-private.c\<close>. The first file
  defines \<^verbatim>\<open>NDEBUG\<close>, so its \<^verbatim>\<open>assert\<close>s do nothing and a test returns whether its conditions held; what
  the tests print is left out. The outcome of each test is proved for its 1024 keys from the
  contract of the tree, not by running it.
\<close>

section \<open>Definitions\<close>

definition TEST_KEYS :: nat where "TEST_KEYS = 1024"

text \<open>The text that \<^verbatim>\<open>sprintf\<close> writes for the number, and a string as its bytes.\<close>

definition test_key :: "nat \<Rightarrow> string" where
  "test_key i = ''a/key/b-'' @ print_int (int i)"

definition str_block :: "string \<Rightarrow> byte list" where
  "str_block s = map byte_of_char s @ [byte_of_char (CHR 0x00)]"

definition testTreeVazia :: "'z heap_scheme \<Rightarrow> (int \<times> 'z heap_scheme) option" where
  "testTreeVazia h =
    (case tree_create h of (tree, h) \<Rightarrow>
      let result = (if tree \<noteq> None \<and> tree_size tree = 0 then 1 else 0)
      in Some (result, tree_destroy tree h))"

text \<open>The loop of the two tests of \<^verbatim>\<open>tree_put\<close>: each key and its data stay in the two arrays.\<close>

fun put_keys ::
  "nat list \<Rightarrow> tree_t option \<Rightarrow> 'z heap_scheme
    \<Rightarrow> ((string \<times> data_t option) list \<times> tree_t option \<times> 'z heap_scheme) option" where
  "put_keys [] tree h = Some ([], tree, h)"
| "put_keys (i # is) tree h =
    (case malloc 16 h of (ok, h) \<Rightarrow>
      if \<not> ok \<or> 16 \<le> length (test_key i) then None
      else do {
        let key = test_key i;
        let (copied, h) = strdup key h;
        let (data, h) = data_create2 (int (length key) + 1) (map_option str_block copied) h;
        (_, tree, h) \<leftarrow> tree_put tree (Some key) data h;
        (rest, tree, h) \<leftarrow> put_keys is tree h;
        Some ((key, data) # rest, tree, h)
      })"

text \<open>\<^verbatim>\<open>result && (...)\<close> for what \<^verbatim>\<open>tree_get\<close> returned and the block that is expected. That \<^verbatim>\<open>d->data\<close> is
  another block than that of \<^verbatim>\<open>data[i]\<close> holds because \<^verbatim>\<open>tree_get\<close> returns a block of its own.\<close>

definition same_data :: "data_t \<Rightarrow> int \<Rightarrow> byte list option \<Rightarrow> bool option" where
  "same_data d sz expected =
    (if d_size d = sz
     then do { a \<leftarrow> d_data d; e \<leftarrow> expected; memcmp_zero a e (size_of_int (d_size d)) }
     else Some False)"

definition check_get ::
  "string \<Rightarrow> int \<Rightarrow> byte list option \<Rightarrow> tree_t option \<Rightarrow> bool \<Rightarrow> 'z heap_scheme \<Rightarrow> (bool \<times> 'z heap_scheme) option" where
  "check_get key sz expected tree result h = do {
     (d, h) \<leftarrow> tree_get tree (Some key) h;
     x \<leftarrow> d;
     result \<leftarrow> (if result then same_data x sz expected else Some False);
     Some (result, data_destroy d h)
   }"

fun check_gets ::
  "(string \<times> data_t option) list \<Rightarrow> tree_t option \<Rightarrow> bool \<Rightarrow> 'z heap_scheme \<Rightarrow> (bool \<times> 'z heap_scheme) option" where
  "check_gets [] tree result h = Some (result, h)"
| "check_gets ((key, data) # rest) tree result h = do {
     e \<leftarrow> data;
     (result, h) \<leftarrow> check_get key (d_size e) (d_data e) tree result h;
     check_gets rest tree result h
   }"

fun free_arrays :: "(string \<times> data_t option) list \<Rightarrow> 'z heap_scheme \<Rightarrow> 'z heap_scheme" where
  "free_arrays [] h = h"
| "free_arrays ((key, data) # rest) h = free_arrays rest (data_destroy data (free (Some key) h))"

definition testPutInexistente :: "'z heap_scheme \<Rightarrow> (int \<times> 'z heap_scheme) option" where
  "testPutInexistente h =
    (case tree_create h of (tree, h) \<Rightarrow> do {
      (elems, tree, h) \<leftarrow> put_keys [0..<TEST_KEYS] tree h;
      let result = tree_size tree = int TEST_KEYS;
      (result, h) \<leftarrow> check_gets elems tree result h;
      let h = tree_destroy tree (free_arrays elems h);
      Some (if result then 1 else 0, h)
    })"

text \<open>In the second test the key at 256 is expected to have got the data \<open>256\<close>.\<close>

definition testPutExistente :: "'z heap_scheme \<Rightarrow> (int \<times> 'z heap_scheme) option" where
  "testPutExistente h =
    (case tree_create h of (tree, h) \<Rightarrow> do {
      (elems, tree, h) \<leftarrow> put_keys [0..<TEST_KEYS] tree h;
      let result = tree_size tree = int TEST_KEYS;
      let (copied, h) = strdup ''256'' h;
      let (d, h) = data_create2 4 (map_option str_block copied) h;
      (_, tree, h) \<leftarrow> tree_put tree (Some (fst (elems ! 256))) d h;
      let h = data_destroy d h;
      let result = result \<and> tree_size tree = int TEST_KEYS;
      (result, h) \<leftarrow> check_gets (take 256 elems) tree result h;
      (result, h) \<leftarrow> check_get (fst (elems ! 256)) 4 (Some (str_block ''256'')) tree result h;
      (result, h) \<leftarrow> check_gets (drop 257 elems) tree result h;
      let h = tree_destroy tree (free_arrays elems h);
      Some (if result then 1 else 0, h)
    })"

text \<open>The loop of the two tests of \<^verbatim>\<open>tree_del\<close>: the block of the key is the data itself, and is freed with it.\<close>

fun put_own_keys ::
  "nat list \<Rightarrow> tree_t option \<Rightarrow> 'z heap_scheme \<Rightarrow> (tree_t option \<times> 'z heap_scheme) option" where
  "put_own_keys [] tree h = Some (tree, h)"
| "put_own_keys (i # is) tree h =
    (case malloc 16 h of (ok, h) \<Rightarrow>
      if \<not> ok then None
      else do {
        let key = test_key i;
        block \<leftarrow> write_at 0 (str_block key) (fresh_block 16 h);
        let (data, h) = data_create2 (int (length key) + 1) (Some block) h;
        (_, tree, h) \<leftarrow> tree_put tree (Some key) data h;
        put_own_keys is tree (data_destroy data h)
      })"

text \<open>\<^verbatim>\<open>result && tree_del(..) op 0 && tree_del(..) op 0\<close>: the calls are made from left to right as long as
  the conditions hold.\<close>

fun try_dels ::
  "(int \<Rightarrow> bool) \<Rightarrow> string list \<Rightarrow> tree_t option \<Rightarrow> bool \<Rightarrow> 'z heap_scheme
    \<Rightarrow> (bool \<times> tree_t option \<times> 'z heap_scheme) option" where
  "try_dels ok [] tree result h = Some (result, tree, h)"
| "try_dels ok (key # keys) tree result h =
    (if result then do {
       (r, tree, h) \<leftarrow> tree_del tree (Some key) h;
       try_dels ok keys tree (ok r) h
     }
     else Some (False, tree, h))"

definition testDelInexistente :: "'z heap_scheme \<Rightarrow> (int \<times> 'z heap_scheme) option" where
  "testDelInexistente h =
    (case tree_create h of (tree, h) \<Rightarrow> do {
      (tree, h) \<leftarrow> put_own_keys [0..<TEST_KEYS] tree h;
      let result = tree_size tree = int TEST_KEYS;
      (result, tree, h) \<leftarrow> try_dels (\<lambda>r. r \<noteq> 0) [''a/key/b-1024'', ''abc''] tree result h;
      let result = result \<and> tree_size tree = int TEST_KEYS;
      Some (if result then 1 else 0, tree_destroy tree h)
    })"

text \<open>After a \<^verbatim>\<open>result\<close> that is already 0, \<^verbatim>\<open>data\<close> is the last block of the loop, which was freed, and is freed
  again: undefined.\<close>

definition testDelExistente :: "'z heap_scheme \<Rightarrow> (int \<times> 'z heap_scheme) option" where
  "testDelExistente h =
    (case tree_create h of (tree, h) \<Rightarrow> do {
      (tree, h) \<leftarrow> put_own_keys [0..<TEST_KEYS] tree h;
      if tree_size tree \<noteq> int TEST_KEYS then None
      else do {
        (data, h) \<leftarrow> tree_get tree (Some ''a/key/b-1023'') h;
        (data2, h) \<leftarrow> (if data \<noteq> None then tree_get tree (Some ''a/key/b-45'') h else Some (None, h));
        let result = data \<noteq> None \<and> data2 \<noteq> None;
        let h = data_destroy data2 (data_destroy data h);
        (result, tree, h) \<leftarrow> try_dels (\<lambda>r. r = 0) [''a/key/b-1023'', ''a/key/b-45''] tree result h;
        let result = result \<and> tree_size tree = int TEST_KEYS - 2;
        Some (if result then 1 else 0, tree_destroy tree h)
      }
    })"

text \<open>The loop over the keys up to the closing \<^verbatim>\<open>NULL\<close>: whether each was among those put, and how many there are.\<close>

fun find_keys :: "string list \<Rightarrow> keys_array \<Rightarrow> bool \<Rightarrow> int \<Rightarrow> (bool \<times> int) option" where
  "find_keys ks [] result i = None"
| "find_keys ks (slot # keys) result i = do {
     key \<leftarrow> slot;
     case key of
       None \<Rightarrow> Some (result, i)
     | Some x \<Rightarrow> find_keys ks keys (result \<and> list_ex (\<lambda>k. strcmp x k = 0) ks) (i + 1)
   }"

definition testGetKeys :: "'z heap_scheme \<Rightarrow> (int \<times> 'z heap_scheme) option" where
  "testGetKeys h =
    (case tree_create h of (tree, h) \<Rightarrow> do {
      let k = [''abc'', ''bcd'', ''cde'', ''def''];
      let (d, h) = data_create 5 h;
      (_, tree, h) \<leftarrow> tree_put tree (Some (k ! 3)) d h;
      (_, tree, h) \<leftarrow> tree_put tree (Some (k ! 2)) d h;
      (_, tree, h) \<leftarrow> tree_put tree (Some (k ! 1)) d h;
      (_, tree, h) \<leftarrow> tree_put tree (Some (k ! 0)) d h;
      let h = data_destroy d h;
      (keys, h) \<leftarrow> tree_get_keys tree h;
      slots \<leftarrow> keys;
      (result, i) \<leftarrow> find_keys k slots True 0;
      let result = result \<and> tree_size tree = i;
      h \<leftarrow> tree_free_keys keys h;
      Some (if result then 1 else 0, tree_destroy tree h)
    })"

text \<open>\<^verbatim>\<open>main\<close>\<close>

fun score :: "('z heap_scheme \<Rightarrow> (int \<times> 'z heap_scheme) option) list \<Rightarrow> 'z heap_scheme \<Rightarrow> (int \<times> 'z heap_scheme) option" where
  "score [] h = Some (0, h)"
| "score (test # tests) h = do {
     (r, h) \<leftarrow> test h;
     (rs, h) \<leftarrow> score tests h;
     Some (r + rs, h)
   }"

definition test_tree_main :: "'z heap_scheme \<Rightarrow> (int \<times> 'z heap_scheme) option" where
  "test_tree_main h = do {
     (n, h) \<leftarrow> score [testTreeVazia, testPutInexistente, testPutExistente, testDelInexistente, testDelExistente,
       testGetKeys] h;
     Some (if n = 6 then 0 else -1, h)
   }"

section \<open>The keys and their data\<close>

definition test_data :: "nat \<Rightarrow> data_t" where
  "test_data i = \<lparr>d_size = int (length (test_key i)) + 1, d_data = Some (str_block (test_key i))\<rparr>"

lemma test_key_inject [simp]: "test_key i = test_key j \<longleftrightarrow> i = j"
proof
  assume "test_key i = test_key j"
  then have "decimal (decimal_string i) = decimal (decimal_string j)"
    by (simp add: test_key_def print_int_def)
  then show "i = j" by simp
qed simp

lemma length_test_key: "i < 1000000 \<Longrightarrow> length (test_key i) < 15"
  using length_decimal_string [of i 6] by (simp add: test_key_def print_int_def)

lemma length_str_block [simp]: "length (str_block s) = Suc (length s)"
  by (simp add: str_block_def)

lemma test_data_ok: "i < 1000000 \<Longrightarrow> data_ok (test_data i)" "data_copy (test_data i) = test_data i"
  using length_test_key [of i] by (simp_all add: test_data_def data_ok_def data_copy_def INT_MAX_def)

lemma test_data_blocks [simp]: "data_blocks (Some (test_data i)) = 2"
  by (simp add: data_blocks_def test_data_def)

lemma data_create2_ok:
  "outcomes h = [] \<Longrightarrow> 0 \<le> n \<Longrightarrow>
    data_create2 n (Some b) h = (Some \<lparr>d_size = n, d_data = Some b\<rparr>, h\<lparr>live := live h + 1\<rparr>)"
  by (simp add: data_create2_def areParamsInvalid_def SIZE_OF_DATA_T_def alloc_simps)

text \<open>The map that a loop over a list of numbers builds.\<close>

definition put_all :: "nat list \<Rightarrow> (string \<Rightarrow> data_t option) \<Rightarrow> string \<Rightarrow> data_t option" where
  "put_all is = fold (\<lambda>i m. m(test_key i \<mapsto> test_data i)) is"

lemma put_all_Cons [simp]: "put_all (i # is) m = put_all is (m(test_key i \<mapsto> test_data i))"
  "put_all [] m = m"
  by (simp_all add: put_all_def)

lemma put_all_other: "k \<notin> test_key ` set is \<Longrightarrow> put_all is m k = m k"
  by (induction "is" arbitrary: m) auto

lemma put_all_key: "i \<in> set is \<Longrightarrow> put_all is m (test_key i) = Some (test_data i)"
  by (induction "is" rule: rev_induct) (auto simp: put_all_def)

lemma dom_put_all: "dom (put_all is m) = dom m \<union> test_key ` set is"
  by (induction "is" arbitrary: m) auto

lemma card_put_all: "distinct is \<Longrightarrow> card (dom (put_all is Map.empty)) = length is"
  by (simp add: dom_put_all card_image inj_on_def distinct_card)

lemma card_dom_upd: "finite (dom m) \<Longrightarrow> card (dom (m(k \<mapsto> d))) \<le> Suc (card (dom m))"
  by (simp add: card_insert_le_m1 card_insert_if)

section \<open>The loops\<close>

definition room_for :: "tree_t \<Rightarrow> nat list \<Rightarrow> bool" where
  "room_for t is \<longleftrightarrow> tree_ok t \<and> list_all (\<lambda>i. i < 1000000) is \<and>
    int (card (dom (tree_map t))) + int (length is) < INT_MAX"

lemma room_for_put:
  assumes "room_for t (i # is)" "outcomes h = []" "data_ok d"
  obtains t' where "tree_put (Some t) (Some (test_key i)) (Some d) h =
      Some (0, Some t', h\<lparr>live := live h + tree_blocks (Some t') - tree_blocks (Some t)\<rparr>)"
    "room_for t' is" "tree_map t' = (tree_map t)(test_key i \<mapsto> data_copy d)"
proof -
  have t: "tree_ok t" "int (card (dom (tree_map t))) < INT_MAX" "list_all (\<lambda>i. i < 1000000) is"
    "int (card (dom (tree_map t))) + int (Suc (length is)) < INT_MAX"
    using assms(1) by (simp_all add: room_for_def)
  obtain t' where t': "tree_put (Some t) (Some (test_key i)) (Some d) h =
        Some (0, Some t', h\<lparr>live := live h + tree_blocks (Some t') - tree_blocks (Some t)\<rparr>)"
      "tree_ok t'" "tree_map t' = (tree_map t)(test_key i \<mapsto> data_copy d)"
    using store.put_law [OF t(1) assms(3,2) t(2)] by blast
  have "card (dom (tree_map t')) \<le> Suc (card (dom (tree_map t)))"
    unfolding t'(3) using card_dom_upd store.finite_contents [OF t(1)] .
  then have "room_for t' is" using t t'(2) by (simp add: room_for_def)
  with t'(1,3) show thesis using that by blast
qed

lemma room_for_index: "room_for t (i # is) \<Longrightarrow> i < 1000000"
  by (simp add: room_for_def)

lemma put_keys_ok:
  assumes "outcomes h = []" "room_for t is"
  obtains t' where "put_keys is (Some t) h = Some (map (\<lambda>i. (test_key i, Some (test_data i))) is, Some t',
      h\<lparr>live := live h + 3 * int (length is) + tree_blocks (Some t') - tree_blocks (Some t)\<rparr>)"
    "tree_ok t'" "tree_map t' = put_all is (tree_map t)"
  using assms
proof (induction "is" arbitrary: t h thesis)
  case Nil
  then show ?case by (simp add: room_for_def)
next
  case (Cons i "is")
  have i: "i < 1000000" using Cons.prems(3) by (rule room_for_index)
  let ?h = "h\<lparr>live := live h + 3\<rparr>"
  obtain t1 where t1: "tree_put (Some t) (Some (test_key i)) (Some (test_data i)) ?h =
        Some (0, Some t1, ?h\<lparr>live := live ?h + tree_blocks (Some t1) - tree_blocks (Some t)\<rparr>)"
      "room_for t1 is" "tree_map t1 = (tree_map t)(test_key i \<mapsto> test_data i)"
    using room_for_put [OF Cons.prems(3), of ?h "test_data i"] Cons.prems(2) test_data_ok(1) [OF i] test_data_ok(2) by auto
  let ?h1 = "h\<lparr>live := live h + 3 + tree_blocks (Some t1) - tree_blocks (Some t)\<rparr>"
  obtain t' where t': "put_keys is (Some t1) ?h1 = Some (map (\<lambda>i. (test_key i, Some (test_data i))) is, Some t',
        ?h1\<lparr>live := live ?h1 + 3 * int (length is) + tree_blocks (Some t') - tree_blocks (Some t1)\<rparr>)"
      "tree_ok t'" "tree_map t' = put_all is (tree_map t1)"
    using Cons.IH [where t = t1 and h = ?h1] Cons.prems(2) t1(2) by auto
  have "put_keys (i # is) (Some t) h = Some (map (\<lambda>i. (test_key i, Some (test_data i))) (i # is), Some t',
      h\<lparr>live := live h + 3 * int (length (i # is)) + tree_blocks (Some t') - tree_blocks (Some t)\<rparr>)"
    using Cons.prems(2) length_test_key [OF i] t1(1) t'(1)
    by (simp add: alloc_simps data_create2_ok test_data_def Let_def algebra_simps)
  then show ?case using Cons.prems(1) t'(2,3) t1(3) by simp
qed

text \<open>A key with its NUL in a block of 16 bytes; \<^verbatim>\<open>tree_put\<close> keeps the declared bytes.\<close>

lemma key_block:
  assumes "i < 1000000"
  obtains block where "write_at 0 (str_block (test_key i)) (fresh_block 16 h) = Some block"
    "data_ok \<lparr>d_size = int (length (test_key i)) + 1, d_data = Some block\<rparr>"
    "data_copy \<lparr>d_size = int (length (test_key i)) + 1, d_data = Some block\<rparr> = test_data i"
proof
  let ?b = "str_block (test_key i) @ drop (length (test_key i) + 1) (fresh_block 16 h)"
  show "write_at 0 (str_block (test_key i)) (fresh_block 16 h) = Some ?b"
    using length_test_key [OF assms] by (simp add: write_at_def)
  show "data_ok \<lparr>d_size = int (length (test_key i)) + 1, d_data = Some ?b\<rparr>"
    using length_test_key [OF assms] by (simp add: data_ok_def INT_MAX_def)
  show "data_copy \<lparr>d_size = int (length (test_key i)) + 1, d_data = Some ?b\<rparr> = test_data i"
    by (simp add: data_copy_def test_data_def nat_add_distrib)
qed

lemma put_own_keys_ok:
  assumes "outcomes h = []" "room_for t is"
  obtains t' where "put_own_keys is (Some t) h = Some (Some t',
      h\<lparr>live := live h + tree_blocks (Some t') - tree_blocks (Some t)\<rparr>)"
    "tree_ok t'" "tree_map t' = put_all is (tree_map t)"
  using assms
proof (induction "is" arbitrary: t h thesis)
  case Nil
  then show ?case by (simp add: room_for_def)
next
  case (Cons i "is")
  have i: "i < 1000000" using Cons.prems(3) by (rule room_for_index)
  obtain block where block: "write_at 0 (str_block (test_key i)) (fresh_block 16 (h\<lparr>live := live h + 1\<rparr>)) = Some block"
      "data_ok \<lparr>d_size = int (length (test_key i)) + 1, d_data = Some block\<rparr>"
      "data_copy \<lparr>d_size = int (length (test_key i)) + 1, d_data = Some block\<rparr> = test_data i"
    using key_block [OF i] .
  let ?d = "\<lparr>d_size = int (length (test_key i)) + 1, d_data = Some block\<rparr>" and ?h = "h\<lparr>live := live h + 2\<rparr>"
  obtain t1 where t1: "tree_put (Some t) (Some (test_key i)) (Some ?d) ?h =
        Some (0, Some t1, ?h\<lparr>live := live ?h + tree_blocks (Some t1) - tree_blocks (Some t)\<rparr>)"
      "room_for t1 is" "tree_map t1 = (tree_map t)(test_key i \<mapsto> test_data i)"
    using room_for_put [OF Cons.prems(3), of ?h ?d] Cons.prems(2) block(2,3) by auto
  let ?h1 = "h\<lparr>live := live h + tree_blocks (Some t1) - tree_blocks (Some t)\<rparr>"
  obtain t' where t': "put_own_keys is (Some t1) ?h1 = Some (Some t',
        ?h1\<lparr>live := live ?h1 + tree_blocks (Some t') - tree_blocks (Some t1)\<rparr>)"
      "tree_ok t'" "tree_map t' = put_all is (tree_map t1)"
    using Cons.IH [where t = t1 and h = ?h1] Cons.prems(2) t1(2) by auto
  have "put_own_keys (i # is) (Some t) h = Some (Some t',
      h\<lparr>live := live h + tree_blocks (Some t') - tree_blocks (Some t)\<rparr>)"
    using Cons.prems(2) block(1) t1(1) t'(1)
    by (simp add: alloc_simps data_create2_ok data_blocks_def Let_def algebra_simps)
  then show ?case using Cons.prems(1) t'(2,3) t1(3) by simp
qed

lemma check_get_ok:
  assumes "outcomes h = []" "tree_ok t" "tree_map t key = Some \<lparr>d_size = n, d_data = Some b\<rparr>"
    and "0 \<le> n" "n \<le> INT_MAX" "length b = nat n"
  shows "check_get key n (Some b) (Some t) True h = Some (True, h)"
  using assms store.get_law [OF assms(2,1), of key]
  by (simp add: check_get_def same_data_def memcmp_zero_def data_blocks_def)

lemma check_gets_ok:
  assumes "outcomes h = []" "tree_ok t" "list_all (\<lambda>i. i < 1000000) is"
    and "\<And>i. i \<in> set is \<Longrightarrow> tree_map t (test_key i) = Some (test_data i)"
  shows "check_gets (map (\<lambda>i. (test_key i, Some (test_data i))) is) (Some t) True h = Some (True, h)"
  using assms(3,4)
proof (induction "is")
  case (Cons i "is")
  have "int (length (test_key i)) + 1 \<le> INT_MAX"
    using Cons.prems(1) length_test_key [of i] by (simp add: INT_MAX_def)
  then have "check_get (test_key i) (d_size (test_data i)) (d_data (test_data i)) (Some t) True h = Some (True, h)"
    using check_get_ok [OF assms(1,2)] Cons.prems(2) by (simp add: test_data_def nat_add_distrib)
  with Cons show ?case by simp
qed simp

lemma free_arrays_eq:
  "free_arrays (map (\<lambda>i. (test_key i, Some (test_data i))) is) h = h\<lparr>live := live h - 3 * int (length is)\<rparr>"
  by (induction "is" arbitrary: h) (simp_all add: algebra_simps)

section \<open>The outcomes\<close>

definition empty_tree :: tree_t where "empty_tree = \<lparr>t_root = NullNode, t_size = 0, t_height = -1\<rparr>"

lemma empty_tree_ok: "tree_ok empty_tree" "tree_map empty_tree = Map.empty" "tree_blocks (Some empty_tree) = 1"
  by (simp_all add: empty_tree_def tree_ok_def tree_map_def tree_blocks_def in_int_def INT_MAX_def INT_MIN_def fun_eq_iff)

lemma create_empty_tree:
  "outcomes h = [] \<Longrightarrow> tree_create h = (Some empty_tree, h\<lparr>live := live h + 1\<rparr>)"
  by (simp add: tree_create_def empty_tree_def SIZE_OF_TREE_T_def alloc_simps)

lemma room_for_tests: "room_for empty_tree [0..<TEST_KEYS]"
  by (simp add: room_for_def empty_tree_ok list_all_iff TEST_KEYS_def INT_MAX_def)

lemma size_after: 
  assumes "tree_ok t" "tree_map t = put_all [0..<TEST_KEYS] Map.empty"
  shows "tree_size (Some t) = int TEST_KEYS"
  using assms card_put_all [of "[0..<TEST_KEYS]"] by (simp add: tree_size_def tree_size_card)

lemma testTreeVazia_ok: "outcomes h = [] \<Longrightarrow> testTreeVazia h = Some (1, h)"
  by (simp add: testTreeVazia_def create_empty_tree tree_destroy_eq empty_tree_ok) (simp add: empty_tree_def tree_size_def)

text \<open>The keys of the tests and their data, after the loop and a block for the tree.\<close>

definition test_elems :: "(string \<times> data_t option) list" where
  "test_elems = map (\<lambda>i. (test_key i, Some (test_data i))) [0..<TEST_KEYS]"

lemma put_tests:
  assumes "outcomes h = []"
  obtains t where "put_keys [0..<TEST_KEYS] (Some empty_tree) (h\<lparr>live := live h + 1\<rparr>) =
      Some (test_elems, Some t, h\<lparr>live := live h + 3 * int TEST_KEYS + tree_blocks (Some t)\<rparr>)"
    "tree_ok t" "tree_map t = put_all [0..<TEST_KEYS] Map.empty" "tree_size (Some t) = int TEST_KEYS"
proof -
  have "outcomes (h\<lparr>live := live h + 1\<rparr>) = []" using assms by simp
  from put_keys_ok [OF this room_for_tests]
  obtain t where t: "put_keys [0..<TEST_KEYS] (Some empty_tree) (h\<lparr>live := live h + 1\<rparr>) =
      Some (map (\<lambda>i. (test_key i, Some (test_data i))) [0..<TEST_KEYS], Some t,
        h\<lparr>live := live h + 1, live := live (h\<lparr>live := live h + 1\<rparr>) + 3 * int (length [0..<TEST_KEYS]) +
          tree_blocks (Some t) - tree_blocks (Some empty_tree)\<rparr>)"
      "tree_ok t" "tree_map t = put_all [0..<TEST_KEYS] (tree_map empty_tree)" .
  show thesis
    using t size_after [OF t(2)] by (intro that [of t]) (simp_all add: empty_tree_ok test_elems_def)
qed

lemma put_own_tests:
  assumes "outcomes h = []"
  obtains t where "put_own_keys [0..<TEST_KEYS] (Some empty_tree) (h\<lparr>live := live h + 1\<rparr>) =
      Some (Some t, h\<lparr>live := live h + tree_blocks (Some t)\<rparr>)"
    "tree_ok t" "tree_map t = put_all [0..<TEST_KEYS] Map.empty" "tree_size (Some t) = int TEST_KEYS"
proof -
  have "outcomes (h\<lparr>live := live h + 1\<rparr>) = []" using assms by simp
  from put_own_keys_ok [OF this room_for_tests]
  obtain t where t: "put_own_keys [0..<TEST_KEYS] (Some empty_tree) (h\<lparr>live := live h + 1\<rparr>) =
      Some (Some t, h\<lparr>live := live h + 1, live := live (h\<lparr>live := live h + 1\<rparr>) +
          tree_blocks (Some t) - tree_blocks (Some empty_tree)\<rparr>)"
      "tree_ok t" "tree_map t = put_all [0..<TEST_KEYS] (tree_map empty_tree)" .
  show thesis
    using t size_after [OF t(2)] by (intro that [of t]) (simp_all add: empty_tree_ok)
qed

lemma small_keys: "list_all (\<lambda>i. i < 1000000) [0..<TEST_KEYS]"
  using room_for_tests by (simp add: room_for_def)

lemma testPutInexistente_ok:
  assumes "outcomes h = []"
  shows "testPutInexistente h = Some (1, h)"
proof -
  obtain t where t: "put_keys [0..<TEST_KEYS] (Some empty_tree) (h\<lparr>live := live h + 1\<rparr>) =
      Some (test_elems, Some t, h\<lparr>live := live h + 3 * int TEST_KEYS + tree_blocks (Some t)\<rparr>)"
      "tree_ok t" "tree_map t = put_all [0..<TEST_KEYS] Map.empty" "tree_size (Some t) = int TEST_KEYS"
    using put_tests [OF assms] .
  have "check_gets test_elems (Some t) True h' = Some (True, h')" if "outcomes h' = []" for h' :: "'a heap_scheme"
    unfolding test_elems_def
    using that t(2,3) by (intro check_gets_ok small_keys) (simp_all add: put_all_key)
  moreover have "free_arrays test_elems h' = h'\<lparr>live := live h' - 3 * int TEST_KEYS\<rparr>" for h' :: "'a heap_scheme"
    by (simp add: test_elems_def free_arrays_eq)
  ultimately show ?thesis
    using assms t(1,4) by (simp add: testPutInexistente_def create_empty_tree tree_destroy_eq Let_def)
qed

lemma test_key_texts:
  "test_key 256 = ''a/key/b-256''" "test_key 1023 = ''a/key/b-1023''" "test_key 45 = ''a/key/b-45''"
  "test_key 1024 = ''a/key/b-1024''"
  by code_simp+

lemma set_take_upt: "i \<in> set (take n [0..<m]) \<Longrightarrow> i < n \<and> i < m"
  by (auto simp: in_set_conv_nth)

lemma set_drop_upt: "i \<in> set (drop n [0..<m]) \<Longrightarrow> n \<le> i \<and> i < m"
  by (auto simp: in_set_conv_nth)

lemma check_gets_part:
  assumes "outcomes h = []" "tree_ok t" "set is \<subseteq> set [0..<TEST_KEYS] - {256}"
    and "tree_map t = (put_all [0..<TEST_KEYS] Map.empty)(test_key 256 \<mapsto> d)"
  shows "check_gets (map (\<lambda>i. (test_key i, Some (test_data i))) is) (Some t) True h = Some (True, h)"
proof (rule check_gets_ok [OF assms(1,2)])
  show "list_all (\<lambda>i. i < 1000000) is"
    using assms(3) small_keys by (auto simp: list_all_iff)
  show "tree_map t (test_key i) = Some (test_data i)" if "i \<in> set is" for i
    using that assms(3) put_all_key [of i "[0..<TEST_KEYS]" Map.empty] unfolding assms(4) by auto
qed

lemma testPutExistente_ok:
  assumes "outcomes h = []"
  shows "testPutExistente h = Some (1, h)"
proof -
  obtain t where t: "put_keys [0..<TEST_KEYS] (Some empty_tree) (h\<lparr>live := live h + 1\<rparr>) =
      Some (test_elems, Some t, h\<lparr>live := live h + 3 * int TEST_KEYS + tree_blocks (Some t)\<rparr>)"
      "tree_ok t" "tree_map t = put_all [0..<TEST_KEYS] Map.empty" "tree_size (Some t) = int TEST_KEYS"
    using put_tests [OF assms] .
  let ?d = "\<lparr>d_size = 4, d_data = Some (str_block ''256'')\<rparr>"
  let ?h = "h\<lparr>live := 2 + (live h + (3 * int TEST_KEYS + tree_blocks (Some t)))\<rparr>"
  have d: "data_ok ?d" "data_copy ?d = ?d"
    by (simp_all add: data_ok_def data_copy_def INT_MAX_def str_block_def)
  have k: "256 < TEST_KEYS" by (simp add: TEST_KEYS_def)
  have "int (card (dom (tree_map t))) < INT_MAX"
    using t(2,4) by (simp add: tree_size_def tree_size_card TEST_KEYS_def INT_MAX_def)
  from store.put_law [OF t(2) d(1) _ this, of ?h "test_key 256"]
  obtain t' where t': "tree_put (Some t) (Some (test_key 256)) (Some ?d) ?h =
        Some (0, Some t', ?h\<lparr>live := live ?h + tree_blocks (Some t') - tree_blocks (Some t)\<rparr>)"
      "tree_ok t'" "tree_map t' = (put_all [0..<TEST_KEYS] Map.empty)(test_key 256 \<mapsto> ?d)"
    using assms unfolding d(2) t(3) by auto
  have "dom (tree_map t') = dom (tree_map t)"
    unfolding t'(3) t(3) using put_all_key [of 256 "[0..<TEST_KEYS]" Map.empty] k by auto
  then have size: "tree_size (Some t') = int TEST_KEYS"
    using t(2,4) t'(2) by (simp add: tree_size_def tree_size_card)
  have e: "fst (test_elems ! 256) = test_key 256"
    "take 256 test_elems = map (\<lambda>i. (test_key i, Some (test_data i))) (take 256 [0..<TEST_KEYS])"
    "drop 257 test_elems = map (\<lambda>i. (test_key i, Some (test_data i))) (drop 257 [0..<TEST_KEYS])"
    using k by (simp_all add: test_elems_def take_map drop_map del: take_upt drop_upt)
  have c: "check_gets (take 256 test_elems) (Some t') True h' = Some (True, h')"
      "check_gets (drop 257 test_elems) (Some t') True h' = Some (True, h')"
      "check_get (test_key 256) 4 (Some (str_block ''256'')) (Some t') True h' = Some (True, h')"
    if "outcomes h' = []" for h' :: "'a heap_scheme"
  proof -
    show "check_gets (take 256 test_elems) (Some t') True h' = Some (True, h')"
      unfolding e using set_take_upt by (intro check_gets_part [OF that t'(2) _ t'(3)]) fastforce
    show "check_gets (drop 257 test_elems) (Some t') True h' = Some (True, h')"
      unfolding e using set_drop_upt by (intro check_gets_part [OF that t'(2) _ t'(3)]) fastforce
    show "check_get (test_key 256) 4 (Some (str_block ''256'')) (Some t') True h' = Some (True, h')"
      using that t'(2) by (intro check_get_ok) (simp_all add: t'(3) INT_MAX_def)
  qed
  have f: "free_arrays test_elems h' = h'\<lparr>live := live h' - 3 * int TEST_KEYS\<rparr>" for h' :: "'a heap_scheme"
    by (simp add: test_elems_def free_arrays_eq)
  show ?thesis
    using assms t(1,4) t'(1) size
    by (simp add: testPutExistente_def create_empty_tree alloc_simps data_create2_ok e(1) c f tree_destroy_eq
        data_blocks_def Let_def)
qed

lemma try_del_missing:
  assumes "tree_ok t" "tree_map t \<noteq> Map.empty" "k \<notin> dom (tree_map t)"
  obtains t' where "tree_del (Some t) (Some k) h =
      Some (0, Some t', h\<lparr>live := live h + tree_blocks (Some t') - tree_blocks (Some t)\<rparr>)"
    "tree_ok t'" "tree_map t' = tree_map t"
  using store.del_law [OF assms(1,2), of k h] assms(3) by (auto simp: domIff fun_upd_idem)

lemma test_map_not_empty: "put_all [0..<TEST_KEYS] Map.empty \<noteq> Map.empty"
  using put_all_key [of 0 "[0..<TEST_KEYS]" Map.empty] by (auto simp: TEST_KEYS_def)

lemma testDelInexistente_fails:
  assumes "outcomes h = []"
  shows "testDelInexistente h = Some (0, h)"
proof -
  obtain t where t: "put_own_keys [0..<TEST_KEYS] (Some empty_tree) (h\<lparr>live := live h + 1\<rparr>) =
      Some (Some t, h\<lparr>live := live h + tree_blocks (Some t)\<rparr>)"
      "tree_ok t" "tree_map t = put_all [0..<TEST_KEYS] Map.empty" "tree_size (Some t) = int TEST_KEYS"
    using put_own_tests [OF assms] .
  have "test_key 1024 \<notin> dom (tree_map t)"
    unfolding t(3) dom_put_all by (auto simp: TEST_KEYS_def)
  then have missing: "''a/key/b-1024'' \<notin> dom (tree_map t)" by (simp add: test_key_texts)
  obtain t' where "tree_del (Some t) (Some ''a/key/b-1024'') (h\<lparr>live := live h + tree_blocks (Some t)\<rparr>) =
      Some (0, Some t', h\<lparr>live := live h + tree_blocks (Some t')\<rparr>)"
    using try_del_missing [OF t(2) _ missing, of "h\<lparr>live := live h + tree_blocks (Some t)\<rparr>"]
      test_map_not_empty unfolding t(3) by auto
  then show ?thesis
    using assms t(1,4)
    by (simp add: testDelInexistente_def create_empty_tree tree_destroy_eq Let_def)
qed

lemma nonempty: "tree_map t k = Some d \<Longrightarrow> tree_map t \<noteq> Map.empty"
  by auto

lemma testDelExistente_ok:
  assumes "outcomes h = []"
  shows "testDelExistente h = Some (1, h)"
proof -
  obtain t where t: "put_own_keys [0..<TEST_KEYS] (Some empty_tree) (h\<lparr>live := live h + 1\<rparr>) =
      Some (Some t, h\<lparr>live := live h + tree_blocks (Some t)\<rparr>)"
      "tree_ok t" "tree_map t = put_all [0..<TEST_KEYS] Map.empty" "tree_size (Some t) = int TEST_KEYS"
    using put_own_tests [OF assms] .
  let ?k = "''a/key/b-1023''" and ?k' = "''a/key/b-45''"
  let ?h = "h\<lparr>live := live h + tree_blocks (Some t)\<rparr>"
  have i: "1023 < TEST_KEYS" "45 < TEST_KEYS" by (simp_all add: TEST_KEYS_def)
  have m: "tree_map t ?k = Some (test_data 1023)" "tree_map t ?k' = Some (test_data 45)"
    unfolding t(3) using put_all_key [of _ "[0..<TEST_KEYS]" Map.empty] i
    by (simp_all flip: test_key_texts)
  have kk: "?k \<noteq> ?k'" by simp
  obtain t1 where t1: "tree_del (Some t) (Some ?k) ?h = Some (0, Some t1, h\<lparr>live := live h + tree_blocks (Some t1)\<rparr>)"
      "tree_ok t1" "tree_map t1 = (tree_map t)(?k := None)"
    using store.del_law [OF t(2) nonempty [of t ?k, OF m(1)], of ?k ?h] by auto
  have "tree_map t1 ?k' = Some (test_data 45)" using t1(3) m(2) by simp
  note ne = nonempty [of t1 ?k', OF this]
  obtain t2 where t2: "tree_del (Some t1) (Some ?k') (h\<lparr>live := live h + tree_blocks (Some t1)\<rparr>) =
        Some (0, Some t2, h\<lparr>live := live h + tree_blocks (Some t2)\<rparr>)"
      "tree_ok t2" "tree_map t2 = (tree_map t1)(?k' := None)"
    using store.del_law [OF t1(2) ne, of ?k' "h\<lparr>live := live h + tree_blocks (Some t1)\<rparr>"] by auto
  have "dom (tree_map t2) = dom (tree_map t) - {?k, ?k'}" by (auto simp: t1(3) t2(3))
  moreover have "finite (dom (tree_map t))" "{?k, ?k'} \<subseteq> dom (tree_map t)"
    using store.finite_contents [OF t(2)] m by auto
  ultimately have "card (dom (tree_map t2)) = card (dom (tree_map t)) - 2"
    using card_Diff_subset [of "{?k, ?k'}" "dom (tree_map t)"] by simp
  moreover have "card (dom (tree_map t)) = TEST_KEYS"
    using t(2,4) by (simp add: tree_size_def tree_size_card)
  ultimately have "tree_size (Some t2) = int TEST_KEYS - 2"
    using t2(2) i(2) by (simp add: tree_size_def tree_size_card of_nat_diff)
  moreover have "tree_get (Some t) (Some ?k) h' = Some (Some (test_data 1023), h'\<lparr>live := live h' + 2\<rparr>)"
      "tree_get (Some t) (Some ?k') h' = Some (Some (test_data 45), h'\<lparr>live := live h' + 2\<rparr>)"
    if "outcomes h' = []" for h' :: "'a heap_scheme"
    using store.get_law [OF t(2) that] m by simp_all
  ultimately show ?thesis
    using assms t(1,4) t1(1) t2(1)
    by (simp add: testDelExistente_def create_empty_tree tree_destroy_eq Let_def)
qed

lemma find_keys_all:
  "set xs \<subseteq> set ks \<Longrightarrow> find_keys ks (keys_array_of xs) result i = Some (result, i + int (length xs))"
proof (induction xs arbitrary: i)
  case Nil
  then show ?case by (simp add: keys_array_of_def)
next
  case (Cons x xs)
  then have "list_ex (\<lambda>k. strcmp x k = 0) ks" by (auto simp: list_ex_iff strcmp_zero)
  with Cons show ?case by (simp add: keys_array_of_def)
qed

lemma testGetKeys_ok:
  assumes "outcomes h = []"
  shows "testGetKeys h = Some (1, h)"
proof -
  let ?d = "\<lparr>d_size = 5, d_data = Some (map (garbage h) [0..<5])\<rparr>"
  have d: "data_ok ?d" by (simp add: data_ok_def INT_MAX_def)
  have put: "\<exists>t'. tree_put (Some t) (Some k) (Some ?d) (h\<lparr>live := live h + 2 + tree_blocks (Some t)\<rparr>) =
        Some (0, Some t', h\<lparr>live := live h + 2 + tree_blocks (Some t')\<rparr>) \<and>
      tree_ok t' \<and> dom (tree_map t') = insert k (dom (tree_map t))"
    if "tree_ok t" "card (dom (tree_map t)) \<le> 3" for t k
    using store.put_law [OF that(1) d, of "h\<lparr>live := live h + 2 + tree_blocks (Some t)\<rparr>" k] assms that(2)
    by (auto simp: INT_MAX_def)
  let ?h = "\<lambda>t. h\<lparr>live := live h + 2 + tree_blocks (Some t)\<rparr>"
  obtain t1 where t1: "tree_put (Some empty_tree) (Some ''def'') (Some ?d) (?h empty_tree) = Some (0, Some t1, ?h t1)"
      "tree_ok t1" "dom (tree_map t1) = {''def''}"
    using put [OF empty_tree_ok(1), of "''def''"] by (auto simp: empty_tree_ok)
  obtain t2 where t2: "tree_put (Some t1) (Some ''cde'') (Some ?d) (?h t1) = Some (0, Some t2, ?h t2)"
      "tree_ok t2" "dom (tree_map t2) = {''cde'', ''def''}"
    using put [OF t1(2), of "''cde''"] t1(3) by auto
  obtain t3 where t3: "tree_put (Some t2) (Some ''bcd'') (Some ?d) (?h t2) = Some (0, Some t3, ?h t3)"
      "tree_ok t3" "dom (tree_map t3) = {''bcd'', ''cde'', ''def''}"
    using put [OF t2(2), of "''bcd''"] t2(3) by auto
  obtain t4 where t4: "tree_put (Some t3) (Some ''abc'') (Some ?d) (?h t3) = Some (0, Some t4, ?h t4)"
      "tree_ok t4" "dom (tree_map t4) = {''abc'', ''bcd'', ''cde'', ''def''}"
    using put [OF t3(2), of "''abc''"] t3(3) by auto
  let ?ks = "key_list (t_root t4)"
  have "set ?ks = {''abc'', ''bcd'', ''cde'', ''def''}"
    using dom_tree_map [OF t4(2)] t4(3) by simp
  then have found: "find_keys [''abc'', ''bcd'', ''cde'', ''def''] (keys_array_of ?ks) True 0 = Some (True, int (length ?ks))"
    using find_keys_all [of ?ks] by simp
  have size: "tree_size (Some t4) = int (length ?ks)"
    using t4(2) length_key_list by (simp add: tree_size_def tree_ok_def)
  have keys: "tree_get_keys (Some t4) (h\<lparr>live := live h + tree_blocks (Some t4)\<rparr>) =
      Some (Some (keys_array_of ?ks), h\<lparr>live := live h + tree_blocks (Some t4) + 1 + int (length ?ks)\<rparr>)"
    using tree_get_keys_eq [OF t4(2), of "h\<lparr>live := live h + tree_blocks (Some t4)\<rparr>"] assms by simp
  have first: "data_create 5 (h\<lparr>live := live h + 1\<rparr>) = (Some ?d, ?h empty_tree)"
    using assms by (simp add: data_create_def data_create2_ok alloc_simps empty_tree_ok)
  show ?thesis
    using assms t1(1) t2(1) t3(1) t4(1) found size keys
    by (simp add: testGetKeys_def create_empty_tree first tree_free_keys_eq tree_destroy_eq data_blocks_def Let_def)
qed

section \<open>The private tests of the tree\<close>

text \<open>From \<^verbatim>\<open>tests-private/test_all-private.c\<close>, whose \<^verbatim>\<open>assert\<close>s are on: \<^verbatim>\<open>Some False\<close> is a test program that
  was aborted. The data of the seven nodes is on the stack, so only the struct is freed.\<close>

fun put_labels :: "int list \<Rightarrow> tree_t option \<Rightarrow> 'z heap_scheme \<Rightarrow> (tree_t option \<times> 'z heap_scheme) option" where
  "put_labels [] tree h = Some (tree, h)"
| "put_labels (n # labels) tree h = do {
     let data = ''value'' @ print_int n;
     let (val, h) = data_create2 (int (length data) + 1) (Some (str_block data)) h;
     (_, tree, h) \<leftarrow> tree_put tree (Some (''key'' @ print_int n)) val h;
     put_labels labels tree (free val h)
   }"

definition createTreeWith7Nodes :: "'z heap_scheme \<Rightarrow> (tree_t option \<times> 'z heap_scheme) option" where
  "createTreeWith7Nodes h = (case tree_create h of (tree, h) \<Rightarrow> put_labels [4, 3, 2, 1, 8, 9, 5] tree h)"

fun all_pass :: "bool option list \<Rightarrow> bool option" where
  "all_pass [] = Some True"
| "all_pass (a # as) = and_then a (all_pass as)"

abbreviation is_null :: "tree_node \<Rightarrow> bool option" where "is_null n \<equiv> Some (n = NullNode)"

definition test__tree_with_7_nodes :: "'z heap_scheme \<Rightarrow> bool option" where
  "test__tree_with_7_nodes h = do {
     (tree, h) \<leftarrow> createTreeWith7Nodes h;
     t \<leftarrow> tree;
     let at = (\<lambda>p. node_at (t_root t) p);
     all_pass
       [Some (t_size t = 7), Some (t_height t = 3), Some (t_root t \<noteq> NullNode),
        assertNodeHasKey (at []) (Some ''key4''),
        assertNodeHasKey (at [ToLeft]) (Some ''key3''),
        assertNodeHasKey (at [ToLeft, ToLeft]) (Some ''key2''),
        assertNodeHasKey (at [ToLeft, ToLeft, ToLeft]) (Some ''key1''),
        is_null (at [ToLeft, ToLeft, ToRight]), is_null (at [ToLeft, ToRight]),
        assertNodeHasKey (at [ToRight]) (Some ''key8''),
        assertNodeHasKey (at [ToRight, ToLeft]) (Some ''key5''),
        is_null (at [ToRight, ToLeft, ToLeft]), is_null (at [ToRight, ToLeft, ToRight]),
        assertNodeHasKey (at [ToRight, ToRight]) (Some ''key9''),
        is_null (at [ToRight, ToRight, ToLeft]), is_null (at [ToRight, ToRight, ToRight])]
   }"

text \<open>\<^verbatim>\<open>test__tree_with_NULLs\<close> up to the deletions, and the whole test with its first deletion, that of \<^verbatim>\<open>NULL\<close>.\<close>

definition tree_with_NULLs :: "'z heap_scheme \<Rightarrow> (bool option \<times> tree_t \<times> 'z heap_scheme) option" where
  "tree_with_NULLs h = do {
     let (copied, h) = strdup ''abc'' h;
     let (valueForNULLKey, h) = data_create2 4 (map_option str_block copied) h;
     let (valueForKey0, h) = data_create2 0 None h;
     (tree, h) \<leftarrow> createTreeWith7Nodes h;
     (r1, tree, h) \<leftarrow> tree_put tree None valueForNULLKey h;
     (r2, tree, h) \<leftarrow> tree_put tree (Some ''key6'') None h;
     (r3, tree, h) \<leftarrow> tree_put tree (Some ''key0'') valueForKey0 h;
     t \<leftarrow> tree;
     (resultForNULLKey, h) \<leftarrow> tree_get tree None h;
     (resultForKey6, h) \<leftarrow> tree_get tree (Some ''key6'') h;
     (resultForKey0, h) \<leftarrow> tree_get tree (Some ''key0'') h;
     let at = (\<lambda>p. node_at (t_root t) p);
     let L = ToLeft; let R = ToRight;
     let empty = (\<lambda>d. d = Some \<lparr>d_size = 0, d_data = None\<rparr>);
     Some (all_pass
       [Some (r1 < 0), Some (r2 < 0), Some (r3 = 0), Some (t_size t = 7 + 1), Some (t_height t = 3 + 1),
        Some (t_root t \<noteq> NullNode), Some (empty resultForNULLKey), Some (empty resultForKey6),
        assertDataEquals resultForKey0 valueForKey0,
        assertNodeHas (at []) (Some ''key4'') (Some ''value4''),
        assertNodeHas (at [L]) (Some ''key3'') (Some ''value3''),
        assertNodeHas (at [L, L]) (Some ''key2'') (Some ''value2''),
        assertNodeHas (at [L, L, L]) (Some ''key1'') (Some ''value1''),
        assertNodeHas (at [L, L, L, L]) (Some ''key0'') None,
        is_null (at [L, L, L, L, L]), is_null (at [L, L, L, L, R]), is_null (at [L, L, L, R]),
        is_null (at [L, L, R]), is_null (at [L, R]),
        assertNodeHas (at [R]) (Some ''key8'') (Some ''value8''),
        assertNodeHas (at [R, L]) (Some ''key5'') (Some ''value5''),
        is_null (at [R, L, L]), is_null (at [R, L, R]),
        assertNodeHas (at [R, R]) (Some ''key9'') (Some ''value9''),
        is_null (at [R, R, L]), is_null (at [R, R, R])], t, h)
   }"

definition test__tree_with_NULLs :: "'z heap_scheme \<Rightarrow> bool option" where
  "test__tree_with_NULLs h = do {
     (passed, t, h) \<leftarrow> tree_with_NULLs h;
     (r1, tree, h) \<leftarrow> tree_del (Some t) None h;
     (r2, tree, h) \<leftarrow> tree_del tree (Some ''key6'') h;
     (r3, tree, h) \<leftarrow> tree_del tree (Some ''key0'') h;
     t \<leftarrow> tree;
     all_pass [passed, Some (r1 < 0), Some (r2 < 0), Some (r3 \<ge> 0), Some (t_size t = 7), Some (t_height t = 3)]
   }"

definition test__tree_get__unexistent_key :: "'z heap_scheme \<Rightarrow> bool option" where
  "test__tree_get__unexistent_key h = do {
     (tree, h) \<leftarrow> createTreeWith7Nodes h;
     (result, h) \<leftarrow> tree_get tree (Some ''unexistent key'') h;
     all_pass [Some (result = Some \<lparr>d_size = 0, d_data = None\<rparr>)]
   }"

definition test__tree_del__existent_key :: "'z heap_scheme \<Rightarrow> bool option" where
  "test__tree_del__existent_key h = do {
     (tree, h) \<leftarrow> createTreeWith7Nodes h;
     (result, tree, h) \<leftarrow> tree_del tree (Some ''key3'') h;
     t \<leftarrow> tree;
     (resultAfterDeletion, h) \<leftarrow> tree_get tree (Some ''key3'') h;
     d \<leftarrow> resultAfterDeletion;
     all_pass [Some (result = 0), Some (t_size t = 6), Some (d_size d = 0), Some (d_data d = None)]
   }"

lemma private_tests_pass:
  "test__tree_with_7_nodes ex_heap = Some True"
  "test__tree_get__unexistent_key ex_heap = Some True"
  "test__tree_del__existent_key ex_heap = Some True"
  by code_simp+

text \<open>All assertions of \<^verbatim>\<open>test__tree_with_NULLs\<close> hold up to the deletions; the first deletion ends the program.\<close>

lemma tree_with_NULLs_passes: "map_option fst (tree_with_NULLs ex_heap) = Some (Some True)"
  by code_simp

lemma tree_with_NULLs_aborts: "test__tree_with_NULLs ex_heap = Some False"
  by code_simp

section \<open>Properties\<close>

text \<open>C35: the test program of the tree gives 5 points of 6 and so fails: with memory available, every test holds
  for all its 1024 keys but the one that deletes absent keys, which expects another result than the 0
  that \<^verbatim>\<open>tree_del\<close> returns. None of the tests leaves a block behind.\<close>

theorem tree_test_program:
  assumes "outcomes h = []"
  shows "testTreeVazia h = Some (1, h) \<and> testPutInexistente h = Some (1, h) \<and> testPutExistente h = Some (1, h) \<and>
    testDelInexistente h = Some (0, h) \<and> testDelExistente h = Some (1, h) \<and> testGetKeys h = Some (1, h) \<and>
    test_tree_main h = Some (-1, h)"
  using assms
  by (simp add: test_tree_main_def testTreeVazia_ok testPutInexistente_ok testPutExistente_ok
      testDelInexistente_fails testDelExistente_ok testGetKeys_ok)

theorem tree_test_program_witness: "test_tree_main ex_heap = Some (-1, ex_heap)"
  using tree_test_program [of ex_heap] by simp

end
