(* ===== verification/Spec2Isabelle.thy ===== *)
theory Spec2Isabelle
  imports KV_System KV_Generated KV_Tests
begin

text \<open>
  \<^bold>\<open>What the program is.\<close> A replicated key-value store in C. Servers (\<^verbatim>\<open>source/server\<close>) keep a binary
  search tree of pairs. Clients (\<^verbatim>\<open>source/client\<close>) send them protobuf messages over TCP: queries go to
  the backup server, writes to the primary. A server answers a write with a number at once and
  queues it; a second thread takes the queue in order, applies each write to the tree and, on the
  primary, sends the request on to the backup before it records the result, which clients can ask for
  by number. Which server is primary and which is backup is kept in two nodes of a ZooKeeper service.

  \<^bold>\<open>How C is read\<close> (\<^verbatim>\<open>KV_Prelude\<close>). A pointer is an \<^verbatim>\<open>option\<close>, an object its contents. Operations return
  \<^verbatim>\<open>option\<close>: \<^verbatim>\<open>None\<close> is undefined behaviour or a deadlock of a thread with itself, so a theorem that an operation
  gives \<^verbatim>\<open>Some\<close> says that it is defined and returns. State is passed explicitly in records, each of which
  extends the one named before it:
  \<^item> \<^verbatim>\<open>heap\<close>: outcomes of the coming allocations, number of live blocks, contents of fresh blocks;
  \<^item> \<^verbatim>\<open>net\<close> (\<^verbatim>\<open>KV_Inet\<close>): for each open descriptor what the coming reads and writes do, what was sent;
  \<^item> \<^verbatim>\<open>zk\<close> (\<^verbatim>\<open>KV_Zk\<close>): the state of the ZooKeeper service, the static variables of \<^verbatim>\<open>zk-private.c\<close>;
  \<^item> \<^verbatim>\<open>tasks\<close> (\<^verbatim>\<open>KV_Tasks\<close>): queue, list of results and their two mutexes (\<^verbatim>\<open>tasks-private.c\<close>);
  \<^item> \<^verbatim>\<open>skel\<close> (\<^verbatim>\<open>KV_Skel\<close>): tree, its mutex and the state of the second thread (\<^verbatim>\<open>tree_skel.c\<close>);
  \<^item> \<^verbatim>\<open>netserver\<close> (\<^verbatim>\<open>KV_NetServer\<close>): the coming connections; \<^verbatim>\<open>client\<close> (\<^verbatim>\<open>KV_Client\<close>): a client over \<^verbatim>\<open>zk\<close>.
  A number of C's type \<^verbatim>\<open>int\<close> is an integer; sums that may leave its range are checked, and leaving it is
  undefined. Bytes and the masks of \<^verbatim>\<open>poll\<close> are words.

  \<^bold>\<open>Theories and sources.\<close>
  \<^item> \<^verbatim>\<open>KV_Data\<close>, \<^verbatim>\<open>KV_Entry\<close>: \<^verbatim>\<open>data.c\<close>, \<^verbatim>\<open>entry.c\<close>; copies, ownership, the order of keys.
  \<^item> \<^verbatim>\<open>KV_Store\<close>: the interface of \<^verbatim>\<open>tree.h\<close> as a locale over a finite map, and sequences of writes.
  \<^item> \<^verbatim>\<open>KV_Tree\<close>: \<^verbatim>\<open>tree.c\<close>; the code walks the tree with a pointer to a child field, which is a path
    here. The invariant is search order, exact size and height, valid entries. Each operation is
    proved on every branch, running out of memory included, and the tree provides \<^verbatim>\<open>kv_store\<close>.
  \<^item> \<^verbatim>\<open>KV_Message\<close>: \<^verbatim>\<open>message-private.c\<close> and the structs of \<^verbatim>\<open>sdmessage.pb-c.h\<close>.
  \<^item> \<^verbatim>\<open>KV_Wire\<close>, \<^verbatim>\<open>KV_Descriptors\<close>, \<^verbatim>\<open>KV_Generated\<close>: the protobuf wire format as an instance of the contract
    of the library, the descriptor tables of \<^verbatim>\<open>sdmessage.pb-c.c\<close> and its functions.
  \<^item> \<^verbatim>\<open>KV_Bytes\<close>, \<^verbatim>\<open>KV_Serialize\<close>: blocks of bytes and \<^verbatim>\<open>serialization.c\<close>.
  \<^item> \<^verbatim>\<open>KV_Inet\<close>: \<^verbatim>\<open>inet-private.c\<close>; addresses, connections, framed messages.
  \<^item> \<^verbatim>\<open>KV_Zk\<close>: \<^verbatim>\<open>zk-private.c\<close>; registration and changes of the roles.
  \<^item> \<^verbatim>\<open>KV_Tasks\<close>: \<^verbatim>\<open>tasks-private.c\<close>, as a refinement of a log with a cursor.
  \<^item> \<^verbatim>\<open>KV_Skel\<close>, \<^verbatim>\<open>KV_Replication\<close>, \<^verbatim>\<open>KV_Steps\<close>: \<^verbatim>\<open>tree_skel.c\<close>; answers to requests, a step of the thread that
    works on the queue, and both threads as a transition system with its reachable states.
  \<^item> \<^verbatim>\<open>KV_NetServer\<close>, \<^verbatim>\<open>KV_ServerMain\<close>: \<^verbatim>\<open>network_server.c\<close>, \<^verbatim>\<open>tree_server.c\<close>.
  \<^item> \<^verbatim>\<open>KV_Client\<close>, \<^verbatim>\<open>KV_ClientMain\<close>: \<^verbatim>\<open>network_client.c\<close>, \<^verbatim>\<open>client_stub.c\<close>; \<^verbatim>\<open>tree_client.c\<close>.
  \<^item> \<^verbatim>\<open>KV_Logger\<close>: \<^verbatim>\<open>logger-private.c\<close> and the formats of all calls to it.
  \<^item> \<^verbatim>\<open>KV_System\<close> and this theory: a client's call and the server's answer, a primary and its backup.
  \<^item> \<^verbatim>\<open>KV_Asserts\<close>, \<^verbatim>\<open>KV_Tests\<close>: the assertions of \<^verbatim>\<open>tests-private/testutils.c\<close> and what they say of their
    arguments; \<^verbatim>\<open>tests-private/test_tree.c\<close> and the tests of the tree of \<^verbatim>\<open>test_all-private.c\<close> run on the model.

  \<^bold>\<open>Interfaces.\<close> Each is a locale, interpreted on the definitions of the code: \<^verbatim>\<open>comparator\<close> (\<^verbatim>\<open>strcmp\<close>,
  \<^verbatim>\<open>key_compare\<close>), \<^verbatim>\<open>kv_store\<close> (the tree), \<^verbatim>\<open>length_codec\<close> (host and network byte order), \<^verbatim>\<open>task_queue\<close> (the
  functions of \<^verbatim>\<open>tasks-private.c\<close>), \<^verbatim>\<open>history_invariant\<close> (the steps of the server with \<^verbatim>\<open>log_inv\<close>).

  \<^bold>\<open>What is shown.\<close> The chain runs from the tree to the system.
  \<^item> The tree stands for a map, and any sequence of puts and deletes builds the map that it should.
  \<^item> Trees and messages survive their encoding; messages arrive whole and in order however a
    connection cuts them up; no bytes from the network make the reader leave its buffer.
  \<^item> The queue is a log with a cursor. In every reachable state of a server the completed writes are
    a prefix of the requested ones and the tree is the map of exactly these; every answer is computed
    from that log, is well formed, and every well-formed request gets one.
  \<^item> A primary records a result only after the request went out to the backup. A backup completes
    its queue in two steps of the thread per write.
  \<^item> The loop of \<^verbatim>\<open>network_server.c\<close> is a run of that transition system, for every behaviour of the network.
  \<^item> A client connects to the two registered servers; its \<^verbatim>\<open>get\<close> returns what the log of the server
    says, its \<^verbatim>\<open>put\<close> appends exactly that write; what the console puts it gets back.
  \<^item> A backup that is served the completed writes of the primary in order holds a past of the
    primary, and all of it once its queue is empty: a client's \<^verbatim>\<open>get\<close> then reads every accepted write.
  \<^item> The copies that the program makes pass the assertions of its tests. Of the six tests of
    \<^verbatim>\<open>test_tree.c\<close> five pass; the one that deletes an absent key fails, because \<^verbatim>\<open>tree_del\<close> answers 0 there.
  \<^item> The error properties show what the code does where its documentation promises otherwise, or
    where it is undefined: running out of memory, a deletion from an empty tree, failed reconnections;
    lemmas of the components add absent keys, blank lines and unchecked ports.

  \<^bold>\<open>Parameters and hypotheses.\<close> Code outside of the repository is an argument of the definitions.
  \<^verbatim>\<open>protobuf_ok\<close> says that unpacking packed bytes gives the message back as proto3 reads it and that
  \<^verbatim>\<open>free_unpacked\<close> frees all of a message; \<^verbatim>\<open>wire_protobuf\<close>, an executable encoder, satisfies it. \<^verbatim>\<open>unpack_ok\<close> says
  that unpacking gives only well-formed messages; \<^verbatim>\<open>guarded wire_protobuf\<close> satisfies it. \<^verbatim>\<open>zoo_ok\<close> says that
  ZooKeeper keeps a node with its data from creation to deletion; \<^verbatim>\<open>table_zoo\<close>, a table of nodes,
  satisfies it. \<^verbatim>\<open>messages_ok\<close> asks that messages are well formed and that their packed size fits in an \<^verbatim>\<open>int\<close>.
  In the properties \<^verbatim>\<open>outcomes s = []\<close> says that no allocation fails, and the bounds with \<^verbatim>\<open>INT_MAX\<close> that the
  code's counters have not overflowed, as they would after that many requests.

  \<^bold>\<open>Bounds and scripts.\<close> The coming results of \<^verbatim>\<open>read\<close>, \<^verbatim>\<open>write\<close>, \<^verbatim>\<open>connect\<close>, \<^verbatim>\<open>accept\<close> and \<^verbatim>\<open>poll\<close>, and the lines of the
  console, are finite lists of any length, so that the loops over them are recursions that end; the
  server's main loop is stated for every list of results of \<^verbatim>\<open>poll\<close> up to the point it has reached.
  \<^verbatim>\<open>encode\<close> has fuel 3, because messages nest three deep (\<^verbatim>\<open>Message\<close>, \<^verbatim>\<open>EntryMessage\<close>, \<^verbatim>\<open>DataMessage\<close>); the parser
  of \<^verbatim>\<open>KV_Wire\<close> has the length of its input. Steps of the two threads are atomic, because each
  works under the mutexes of the tree and the queue.

  \<^bold>\<open>Not modelled.\<close> Log calls inside the operations (the functions are in \<^verbatim>\<open>KV_Logger\<close>), except that two of
  them print a \<^verbatim>\<open>NULL\<close> string, which that theory states; threads, mutexes and condition
  variables beyond the codes their creation returns (arguments of \<^verbatim>\<open>tree_skel_init\<close> and \<^verbatim>\<open>tasks_init\<close>) and whether
  they are held; freed memory that is reused
  by other blocks; the padding and the magic numbers of the descriptors; the order in which the
  network delivers to the backup the connections that the primary opens one after the other (the
  relation \<^verbatim>\<open>replicated\<close> takes it to be the order of sending); the tests of the other modules under
  \<^verbatim>\<open>tests-private\<close>, which check single calls that the theorems cover for all arguments.
\<close>

section \<open>Properties of the whole system\<close>

text \<open>C6: a remote \<^verbatim>\<open>get\<close> returns what the log says: when the server the client is connected to has run
  through any history, and its handler answers the client's request, the call returns the value that
  the writes done so far give the key, byte for byte (a value without bytes, like a missing key, as
  the empty value), and it sent exactly one request frame.\<close>

theorem remote_get_reads_log:
  assumes "tree_skel_init (0, 0, 0, 0) 0 0 s0 = (r, s1)" "outcomes s0 = []" "protobuf_ok pb"
    and "request_waits pb zoo es s1 s fd k (get_request key)"
    and "handle_client_socket_pollin_event pb fd s = Some (q, s')"
    and "socks s' fd = Some k'" "s_sent k' = s_sent k @ bs"
    and "open_connection c (backup_sockfd rt) j bs"
    and "messages_ok pb [get_request key, get_reply (written (dones es) key)]"
  shows "\<exists>c' j'. rtree_get pb (Some rt) (Some key) c =
      Some (Some (data_received (value_at (written (dones es) key))), c') \<and>
    socks c' (backup_sockfd rt) = Some j' \<and> s_sent j' = s_sent j @ wire_frame pb (get_request key)"
  using assms by (rule remote_get)

theorem remote_get_reads_log_witness:
  "\<exists>bs c' j'. rtree_get wire_protobuf (Some ex_connected) (Some ''k'') (ex_caller bs) =
      Some (Some \<lparr>d_size = 2, d_data = Some [7, 0]\<rparr>, c') \<and>
    socks c' 5 = Some j' \<and> s_sent j' = wire_frame wire_protobuf (get_request ''k'')"
proof -
  let ?es = "ex_events @ [Outside]"
  obtain s where s: "run (server_step wire_protobuf table_zoo) (Some ex_up) ex_events (Some s)"
    using ex_run by blast
  have w: "written (dones ?es) ''k'' = Some \<lparr>d_size = 2, d_data = Some [7, 0]\<rparr>"
    using ex_events_log(2) ex_write_sel(4) by simp
  let ?s = "s\<lparr>socks := [7 \<mapsto> ex_waiting (get_request ''k'')]\<rparr>"
  have len: "int (length ex_events) + 1 < INT_MAX" by (simp add: ex_events_def INT_MAX_def)
  note waits = ex_request_waits [OF s len, of "get_request ''k''"]
  then have r: "run (server_step wire_protobuf table_zoo) (Some ex_up) ?es (Some ?s)" "int (length ?es) < INT_MAX"
    by (simp_all add: request_waits_def)
  obtain t where t: "tree ?s = Some t" "tree_map t = written (dones ?es)"
    using reachable_tree [OF ex_up ex_skel_mem r] .
  let ?bs = "wire_frame wire_protobuf (get_reply (Some \<lparr>d_size = 2, d_data = Some [7, 0]\<rparr>))"
  have a: "answer (message_wire (get_request ''k'')) t n m = get_reply (Some \<lparr>d_size = 2, d_data = Some [7, 0]\<rparr>)"
    for n m
    by (simp only: answer_get t(2) w)
  have "messages_ok wire_protobuf [get_request ''k'', message_wire (get_request ''k''),
      answer (message_wire (get_request ''k'')) t (length (dones ?es)) (length (writes ?es))]"
    unfolding a using ex_system_ok(1) by (simp add: message_wire_get messages_ok_def)
  from request_served [OF ex_up ex_skel_mem protobuf_ok_wire waits t(1) this]
  obtain s' k' where h: "handle_client_socket_pollin_event wire_protobuf 7 ?s = Some (0, s')" "socks s' 7 = Some k'"
      "s_sent k' = s_sent (ex_waiting (get_request ''k'')) @ ?bs"
    unfolding a by blast
  have ok: "messages_ok wire_protobuf [get_request ''k'', get_reply (written (dones ?es) ''k'')]"
    using ex_system_ok(1) by (simp only: w)
  have conn: "open_connection (ex_caller ?bs) (backup_sockfd ex_connected) (ex_conn [Chunk ?bs]) ?bs"
    using ex_caller_open(2) [OF wire_frame_nonempty] by (simp add: ex_connected_def)
  have val: "data_received (value_at (written (dones ?es) ''k'')) = \<lparr>d_size = 2, d_data = Some [7, 0]\<rparr>"
    unfolding w by (simp add: value_at_def data_received_def data_copy_def)
  show ?thesis
    using remote_get_reads_log [OF ex_up ex_skel_mem protobuf_ok_wire waits h conn ok, unfolded val]
    by (auto simp: ex_connected_def ex_conn_def)
qed




text \<open>C15: every answer is a well-formed message: numbers are in the range of \<^verbatim>\<open>int\<close>, the member that the
  union selects is there, keys are strings without an inner NUL and as many as counted, and a value
  has exactly as many bytes as it says. This holds for every request in every reachable state.\<close>

theorem answers_well_formed:
  assumes "tree_skel_init (0, 0, 0, 0) 0 0 s0 = (r, s1)" "outcomes s0 = []"
    and "run (server_step pb zoo) (Some s1) es (Some s)" "int (length es) < INT_MAX"
    and "server_step pb zoo (Serve request response) (Some s) c"
  shows "message_ok response"
  using assms by (rule reachable_response_ok)

theorem answers_well_formed_witness:
  "\<exists>s response s'. run (server_step wire_protobuf table_zoo) (Some ex_up) ex_events (Some s) \<and>
    server_step wire_protobuf table_zoo (Serve ex_get response) (Some s) (Some s') \<and> message_ok response"
proof -
  obtain s where s: "run (server_step wire_protobuf table_zoo) (Some ex_up) ex_events (Some s)"
    using ex_run by blast
  obtain t where "tree s = Some t" using reachable_tree [OF ex_up ex_skel_mem s ex_events_log(3)] .
  then obtain response s' where "server_step wire_protobuf table_zoo (Serve ex_get response) (Some s) (Some s')"
    using reachable_serve [OF ex_up ex_skel_mem s ex_events_log(3) ex_requests_ok(2)] by blast
  with s answers_well_formed [OF ex_up ex_skel_mem s ex_events_log(3)] show ?thesis by blast
qed

text \<open>C10: reads from the backup are reads of the past of the primary: whenever the backup has served, in
  their order, operations that the primary completed, each key has in the backup the value it had in
  the primary after some number of its completed writes - as many as the backup has completed, never
  more than the primary.\<close>

theorem backup_holds_past_of_primary:
  assumes "tree_skel_init (0, 0, 0, 0) 0 0 p1 = (r, p0)" "outcomes p1 = []"
    and "tree_skel_init (0, 0, 0, 0) 0 0 b1 = (r', b0)" "outcomes b1 = []"
    and "replicated pb zoo p0 b0 es (Some p) link es' (Some b)"
    and "int (length es) < INT_MAX" "int (length es') < INT_MAX"
  shows "\<exists>t' n. tree b = Some t' \<and> n = length (dones es') \<and> n \<le> length (dones es) \<and>
    (\<forall>key. map_option data_received (tree_map t' key) =
      map_option data_received (written (take n (dones es)) key))"
proof -
  obtain t t' where "tree b = Some t'" "length (dones es) = length (writes es') + length link"
      "length (dones es') \<le> length (writes es')"
      "\<And>key. map_option data_received (tree_map t' key) =
        map_option data_received (written (take (length (dones es')) (dones es)) key)"
    by (rule replicated_maps [OF assms]) blast
  then show ?thesis by auto
qed

text \<open>Both servers have run through the same write; the backup may also be behind.\<close>

lemma ex_replicated:
  obtains p b where "replicated wire_protobuf table_zoo ex_up ex_up ex_events (Some p) [] ex_events (Some b)"
    "tree_skel_init (0, 0, 0, 0) 0 0 ex_skel = (0, ex_up)"
proof -
  obtain s where s: "run (server_step wire_protobuf table_zoo) (Some ex_up) ex_events (Some s)"
    using ex_run by blast
  have "map message_wire (dones ex_events) = writes ex_events @ []"
    by (simp add: ex_events_log ex_write_wire)
  from replicated_pair [OF s s this] show ?thesis using that ex_up by blast
qed

theorem backup_holds_past_of_primary_witness:
  "\<exists>p b t'. replicated wire_protobuf table_zoo ex_up ex_up ex_events (Some p) [] ex_events (Some b) \<and>
    tree b = Some t' \<and> map_option data_received (tree_map t' ''k'') = Some \<lparr>d_size = 2, d_data = Some [7, 0]\<rparr>"
proof -
  obtain p b where r: "replicated wire_protobuf table_zoo ex_up ex_up ex_events (Some p) [] ex_events (Some b)"
    by (rule ex_replicated)
  obtain t' where t': "tree b = Some t'" "\<forall>key. map_option data_received (tree_map t' key) =
      map_option data_received (written (take (length (dones ex_events)) (dones ex_events)) key)"
    using backup_holds_past_of_primary [OF ex_up ex_skel_mem ex_up ex_skel_mem r ex_events_log(3) ex_events_log(3)]
    by blast
  have "map_option data_received (written (take (length (dones ex_events)) (dones ex_events)) ''k'') =
      Some \<lparr>d_size = 2, d_data = Some [7, 0]\<rparr>"
    using ex_events_log(2) ex_write_sel(4) by (simp add: data_received_def data_copy_def)
  with r t' show ?thesis by metis
qed



lemma data_received_value_at:
  "map_option data_received v = map_option data_received w \<Longrightarrow>
    data_received (value_at v) = data_received (value_at w)"
  by (cases v; cases w) (auto simp: value_at_def)



end
